(* ===== verification/Prelude.thy ===== *)
theory Prelude
  imports Main "HOL-Library.Word" "HOL-Library.AList" "HOL-Library.Multiset"
begin

text \<open>
  The prelude of the Zephyr Protocol v2 development: the names of the machine types of the Go
  code, the error values its packages return, the two early-return combinators every fallible
  operation is written with, checked unsigned arithmetic, and the big-endian byte form of words.

  Every \<open>[32]byte\<close> array of the code (\<open>types.Hash\<close>, \<open>types.NetworkID\<close>, \<open>types.AccountID\<close>,
  \<open>types.ObjectID\<close> and the other identifiers of \<open>internal/v2/types/types.go\<close>) is a 256-bit word
  whose most significant byte is the array's byte 0. Under this reading \<open>bytes.Compare\<close> is the
  unsigned order of words and the all-zero array is 0. A \<open>[]byte\<close> is a list of 8-bit words, and
  a \<open>uintN\<close> is an N-bit word, so that addition wraps around as it does in Go.
\<close>

unbundle bit_operations_syntax

type_synonym byte = "8 word"
type_synonym u8 = "8 word"
type_synonym u16 = "16 word"
type_synonym u32 = "32 word"
type_synonym u64 = "64 word"
type_synonym bytes32 = "256 word"
type_synonym hash = "256 word"
type_synonym accountid = "256 word"
type_synonym objectid = "256 word"
type_synonym tokenid = "256 word"
type_synonym networkid = "256 word"
type_synonym validatorid = "256 word"

text \<open>SHA-256 is a parameter of the development: a function from byte strings to 32 bytes.\<close>

type_synonym hashfun = "byte list \<Rightarrow> hash"

text \<open>
  A concrete stand-in for SHA-256, used only to instantiate the parameter in examples: the
  length of the hashed string, which the kernel evaluates quickly.
\<close>

definition toy_hash :: hashfun where
  "toy_hash bs = of_nat (length bs)"

definition last_hash :: hashfun where
  "last_hash bs = (if bs = [] then 0 else ucast (last bs))"

subsection \<open>Errors and early returns\<close>

text \<open>
  The error variables of the modelled packages, under the names the code gives them. Two packages have an
  \<open>ErrInvalidResult\<close>; that of the contracts is \<open>ErrContractResult\<close> here.
\<close>

datatype (plugins only: size) error =
    ErrUnexpectedEOF | ErrTrailingData | ErrLengthLimit | InvalidBool u8
  | ErrIndex
  | ErrInvalidProof
  | ErrInvalidObject | ErrInvalidCoin
  | ErrObjectNotFound | ErrObjectExists
  | ErrInvalidTokenDefinition
  | ErrVersion | ErrNetwork | ErrSender | ErrSignature | ErrCanonicalSig | ErrStructure
  | ErrWitness | ErrExpired | ErrWire
  | ErrShardCount | ErrReceipt | ErrReceiptProof | ErrReceiptReplay
  | ErrValidatorSet | ErrProposal | ErrVote | ErrCertificate | ErrInsufficientPower
  | ErrValidatorWire
  | ErrSigningGuard | ErrSigningConflict | ErrSigningJournal | ErrSigningGuardBusy | ErrSign | ErrIO
  | ErrPersistenceNetwork | ErrPersistenceCorrupt | ErrPersistenceClosed | ErrPersistenceBusy
  | ErrUnsupportedOperation | ErrOwnership | ErrConservation | ErrOverflow | ErrShard
  | ErrTokenPolicy | ErrBatchConflict | ErrBatchStateRoot
  | ErrLending | ErrLendingState
  | ErrInvalidOffer | ErrInvalidJob | ErrInvalidResult
  | ErrMarketNotFound | ErrMarketState | ErrMarketMatch | ErrMarketEscrow | ErrMarketVerification | ErrMarketDuplicate
  | ErrComputeMessage
  | ErrInvalidModule | ErrInvalidDeployment | ErrFuelExhausted | ErrUndeclaredAccess | ErrInvalidRequest
  | ErrContractResult | ErrContractWire
  | ErrCredential | ErrProof
  | ErrCheckpointConfig | ErrCheckpointSequence | ErrCheckpointValidators | ErrCheckpointCert
  | ErrGovernance | ErrFinality
  | ErrFeePolicy | ErrResourceFee | ErrMonetaryPolicy | ErrMonetaryState
  | ErrInvalidSample | ErrInvalidErasureConfig | ErrReconstruction
  | ErrProtocolVersion | ErrChainName | ErrShardConfig | ErrValidator | ErrAllocation | ErrVotingPower | ErrAllocationSupply
  | ErrGenesisState

type_synonym 'a result = "error + 'a"

text \<open>
  \<open>tryE m f\<close> is Go's \<open>x, err := m; if err != nil { return err }\<close> followed by \<open>f x\<close>;
  \<open>tryAs e m f\<close> returns the error \<open>e\<close> of the calling package instead.
\<close>

definition tryE :: "'a result \<Rightarrow> ('a \<Rightarrow> 'b result) \<Rightarrow> 'b result" where
  "tryE m f = (case m of Inl e \<Rightarrow> Inl e | Inr x \<Rightarrow> f x)"

definition tryAs :: "error \<Rightarrow> 'a result \<Rightarrow> ('a \<Rightarrow> 'b result) \<Rightarrow> 'b result" where
  "tryAs e m f = (case m of Inl _ \<Rightarrow> Inl e | Inr x \<Rightarrow> f x)"

lemma tryE_simps [simp]:
  "tryE (Inl e) f = Inl e" "tryE (Inr x) f = f x"
  "tryAs d (Inl e) f = Inl d" "tryAs d (Inr x) f = f x"
  by (simp_all add: tryE_def tryAs_def)

lemma tryE_eq_Inr [simp]: "tryE m f = Inr y \<longleftrightarrow> (\<exists>x. m = Inr x \<and> f x = Inr y)"
  by (cases m) simp_all

lemma tryAs_eq_Inr [simp]: "tryAs e m f = Inr y \<longleftrightarrow> (\<exists>x. m = Inr x \<and> f x = Inr y)"
  by (cases m) simp_all

lemma Inr_eq_tryE [simp]: "Inr y = tryE m f \<longleftrightarrow> (\<exists>x. m = Inr x \<and> f x = Inr y)"
  by (cases m) auto

lemma Inr_eq_tryAs [simp]: "Inr y = tryAs e m f \<longleftrightarrow> (\<exists>x. m = Inr x \<and> f x = Inr y)"
  by (cases m) auto

lemma guard_eq_Inr: "(if P then Inl x else m) = Inr y \<longleftrightarrow> \<not> P \<and> m = Inr y"
  by simp

lemma option_eq_Inr: "(case m of None \<Rightarrow> Inl x | Some w \<Rightarrow> f w) = Inr y \<longleftrightarrow> (\<exists>w. m = Some w \<and> f w = Inr y)"
  by (cases m) simp_all

lemmas result_iff = guard_eq_Inr option_eq_Inr Let_def

lemma tryE_cong [fundef_cong]:
  "m = n \<Longrightarrow> (\<And>x. n = Inr x \<Longrightarrow> f x = g x) \<Longrightarrow> tryE m f = tryE n g"
  by (cases n) simp_all

lemma tryAs_cong [fundef_cong]:
  "e = d \<Longrightarrow> m = n \<Longrightarrow> (\<And>x. n = Inr x \<Longrightarrow> f x = g x) \<Longrightarrow> tryAs e m f = tryAs d n g"
  by (cases n) simp_all

text \<open>A condition of the code that returns an error when it holds.\<close>

lemma if_Inl_eq_Inr [simp]: "(if c then Inl e else m) = Inr y \<longleftrightarrow> \<not> c \<and> m = Inr y"
  by simp

definition is_ok :: "'a result \<Rightarrow> bool" where
  "is_ok m = (case m of Inl _ \<Rightarrow> False | Inr _ \<Rightarrow> True)"

lemma is_ok_simps [simp]: "is_ok (Inl e) = False" "is_ok (Inr x) = True"
  by (simp_all add: is_ok_def)

lemma is_ok_iff: "is_ok m \<longleftrightarrow> (\<exists>x. m = Inr x)"
  by (cases m) simp_all

lemma list_all_True [simp]: "list_all (\<lambda>_. True) xs"
  by (simp add: list_all_iff)

subsection \<open>Loops that may return an error\<close>

text \<open>
  \<open>foldE\<close> is a loop over a slice whose body updates some variables or returns an error;
  \<open>checkE\<close> only checks; \<open>mapE\<close> fills a slice of the same length.
\<close>

primrec foldE :: "('s \<Rightarrow> 'a \<Rightarrow> 's result) \<Rightarrow> 's \<Rightarrow> 'a list \<Rightarrow> 's result" where
  "foldE f s [] = Inr s"
| "foldE f s (x # xs) = tryE (f s x) (\<lambda>s. foldE f s xs)"

primrec checkE :: "('a \<Rightarrow> unit result) \<Rightarrow> 'a list \<Rightarrow> unit result" where
  "checkE f [] = Inr ()"
| "checkE f (x # xs) = tryE (f x) (\<lambda>_. checkE f xs)"

primrec mapE :: "('a \<Rightarrow> 'b result) \<Rightarrow> 'a list \<Rightarrow> 'b list result" where
  "mapE f [] = Inr []"
| "mapE f (x # xs) = tryE (f x) (\<lambda>y. tryE (mapE f xs) (\<lambda>ys. Inr (y # ys)))"

lemma checkE_ok: "checkE f xs = Inr u \<longleftrightarrow> (\<forall>x \<in> set xs. f x = Inr ())"
  by (induction xs) auto

lemma mapE_ok: "mapE f xs = Inr ys \<longleftrightarrow> list_all2 (\<lambda>x y. f x = Inr y) xs ys"
proof (induction xs arbitrary: ys)
  case (Cons x xs)
  then show ?case by (cases ys) auto
qed auto

lemma mapE_length: "mapE f xs = Inr ys \<Longrightarrow> length ys = length xs"
  by (auto simp: mapE_ok dest: list_all2_lengthD)

lemma foldE_append: "foldE f s (xs @ ys) = tryE (foldE f s xs) (\<lambda>s. foldE f s ys)"
proof (induction xs arbitrary: s)
  case (Cons x xs)
  then show ?case by (cases "f s x") simp_all
qed simp

lemma foldE_inv:
  assumes "foldE f s xs = Inr t" "P s" "\<And>s x t. P s \<Longrightarrow> x \<in> set xs \<Longrightarrow> f s x = Inr t \<Longrightarrow> P t"
  shows "P t"
  using assms
proof (induction xs arbitrary: s)
  case (Cons x xs)
  from Cons.prems(1) obtain s' where s': "f s x = Inr s'" "foldE f s' xs = Inr t" by auto
  have "P s'" by (rule Cons.prems(3) [OF Cons.prems(2) _ s'(1)]) simp
  with s'(2) show ?case by (rule Cons.IH) (rule Cons.prems(3), simp_all)
qed simp

subsection \<open>Checked unsigned arithmetic\<close>

text \<open>
  The code guards every sum with \<open>math.MaxUint64 - a < b\<close> (also written \<open>^uint64(0) - a < b\<close>).
  The guard is exact: it holds just when the sum leaves the 64 bits.
\<close>

definition overflows :: "'a::len word \<Rightarrow> 'a word \<Rightarrow> bool" where
  "overflows a b \<longleftrightarrow> - 1 - a < b"

lemma unat_minus_one_minus: "unat (- 1 - a :: 'a::len word) = 2 ^ LENGTH('a) - 1 - unat a"
proof -
  have "a \<le> - 1" by simp
  then have "unat (- 1 - a) = unat (- 1 :: 'a word) - unat a" by (rule unat_sub)
  then show ?thesis by (simp add: unsigned_minus_1_eq_mask mask_eq_exp_minus_1)
qed

lemma overflows_iff: "overflows a b \<longleftrightarrow> 2 ^ LENGTH('a) \<le> unat a + unat b"
  for a b :: "'a::len word"
proof -
  have "unat a < 2 ^ LENGTH('a)" by (rule unsigned_less)
  moreover have "overflows a b \<longleftrightarrow> 2 ^ LENGTH('a) - 1 - unat a < unat b"
    by (simp only: overflows_def word_less_nat_alt unat_minus_one_minus)
  ultimately show ?thesis by linarith
qed

lemma unat_add_no_overflow: "\<not> overflows a b \<Longrightarrow> unat (a + b) = unat a + unat b"
  by (simp add: overflows_iff unat_word_ariths not_le)

lemma unat_sub_le: "b \<le> a \<Longrightarrow> unat (a - b :: 'a::len word) = unat a - unat b"
  by (rule unat_sub)

text \<open>A byte or uint length that fits its width is read back unchanged.\<close>

lemma unat_of_nat_small: "n < 2 ^ LENGTH('a) \<Longrightarrow> unat (of_nat n :: 'a::len word) = n"
  by (simp add: unat_of_nat)

lemma of_nat_eq_iff_small:
  "m < 2 ^ LENGTH('a) \<Longrightarrow> n < 2 ^ LENGTH('a) \<Longrightarrow> (of_nat m :: 'a::len word) = of_nat n \<longleftrightarrow> m = n"
  by (metis unat_of_nat_small)

subsection \<open>Big-endian bytes of a word\<close>

text \<open>\<open>binary.BigEndian.PutUintN\<close> into n bytes, and \<open>binary.BigEndian.UintN\<close> back.\<close>

primrec be_bytes :: "nat \<Rightarrow> 'a::len word \<Rightarrow> byte list" where
  "be_bytes 0 w = []"
| "be_bytes (Suc n) w = ucast (drop_bit (8 * n) w) # be_bytes n w"

definition shift_in :: "'a::len word \<Rightarrow> byte \<Rightarrow> 'a word" where
  "shift_in acc b = push_bit 8 acc OR ucast b"

definition from_be :: "byte list \<Rightarrow> 'a::len word" where
  "from_be bs = foldl shift_in 0 bs"

lemma length_be_bytes [simp]: "length (be_bytes n w) = n"
  by (induction n) simp_all

lemma shift_in_step:
  "push_bit (8 * n) (shift_in acc (ucast (drop_bit (8 * n) w))) OR take_bit (8 * n) w
     = push_bit (8 * Suc n) acc OR take_bit (8 * Suc n) w"
  unfolding shift_in_def by (rule bit_word_eqI) (auto simp: bit_simps add.commute)

lemma foldl_shift_in_be_bytes:
  "foldl shift_in acc (be_bytes n w) = push_bit (8 * n) acc OR take_bit (8 * n) w"
proof (induction n arbitrary: acc)
  case 0
  then show ?case by simp
next
  case (Suc n)
  show ?case
    by (simp only: be_bytes.simps foldl_Cons Suc shift_in_step)
qed

lemma from_be_be_bytes: "from_be (be_bytes n w) = take_bit (8 * n) w"
  by (simp add: from_be_def foldl_shift_in_be_bytes)

lemma from_be_be_bytes_full: "LENGTH('a) = 8 * n \<Longrightarrow> from_be (be_bytes n w) = (w :: 'a::len word)"
  by (simp add: from_be_be_bytes take_bit_word_eq_self)

lemma be_bytes_inject:
  "LENGTH('a) = 8 * n \<Longrightarrow> be_bytes n v = be_bytes n w \<longleftrightarrow> v = (w :: 'a::len word)"
  by (metis from_be_be_bytes_full)

lemma foldl_shift_in_acc:
  "foldl shift_in acc bs = push_bit (8 * length bs) acc OR foldl shift_in 0 bs"
proof (induction bs arbitrary: acc)
  case Nil
  then show ?case by simp
next
  case (Cons b bs)
  have "foldl shift_in (shift_in acc b) bs =
      push_bit (8 * length bs) (shift_in acc b) OR foldl shift_in 0 bs" by (rule Cons)
  also have "push_bit (8 * length bs) (shift_in acc b) =
      push_bit (8 * length (b # bs)) acc OR push_bit (8 * length bs) (shift_in 0 b)"
    by (simp add: shift_in_def add.commute)
  also have "\<dots> OR foldl shift_in 0 bs =
      push_bit (8 * length (b # bs)) acc OR foldl shift_in (shift_in 0 b) bs"
    by (subst (2) Cons) (simp only: or.assoc)
  finally show ?case by simp
qed

lemma be_bytes_cong:
  "take_bit (8 * n) v = take_bit (8 * n) w \<Longrightarrow> be_bytes n v = be_bytes n w"
proof (induction n)
  case (Suc n)
  have "take_bit (8 * n) v = take_bit (8 * n) w"
    using arg_cong [OF Suc.prems, of "take_bit (8 * n)"] by simp
  moreover have "(ucast (drop_bit (8 * n) v) :: byte) = ucast (drop_bit (8 * n) w)"
  proof (rule bit_word_eqI)
    fix k assume "k < LENGTH(8)"
    then show "bit (ucast (drop_bit (8 * n) v) :: byte) k = bit (ucast (drop_bit (8 * n) w) :: byte) k"
      using arg_cong [OF Suc.prems, of "\<lambda>x. bit x (k + 8 * n)"]
      by (auto simp: bit_simps add.commute)
  qed
  ultimately show ?case using Suc.IH by simp
qed simp

lemma take_bit_from_be: "take_bit (8 * length bs) (from_be bs :: 'a::len word) = from_be bs"
proof (induction bs rule: rev_induct)
  case (snoc b bs)
  have low: "bit b n \<Longrightarrow> n < 8" for n
    by (auto dest: bit_imp_le_length)
  have "(from_be (bs @ [b]) :: 'a word) = shift_in (from_be bs) b" by (simp add: from_be_def)
  moreover have "take_bit (8 * length (bs @ [b])) (shift_in (from_be bs) b :: 'a word)
     = shift_in (take_bit (8 * length bs) (from_be bs)) b"
    unfolding shift_in_def by (rule bit_word_eqI) (auto simp: bit_simps dest: low)
  ultimately show ?case using snoc by simp
qed (simp add: from_be_def)

lemma be_bytes_from_be:
  "8 * length bs \<le> LENGTH('a::len) \<Longrightarrow> be_bytes (length bs) (from_be bs :: 'a word) = bs"
proof (induction bs)
  case (Cons b bs)
  let ?v = "from_be bs :: 'a word"
  have e: "(from_be (b # bs) :: 'a word) = push_bit (8 * length bs) (ucast b) OR ?v"
    by (simp add: from_be_def foldl_shift_in_acc [of "shift_in 0 b"]) (simp add: shift_in_def)
  have "be_bytes (length bs) (from_be (b # bs) :: 'a word) = be_bytes (length bs) ?v"
    by (rule be_bytes_cong) (simp add: e take_bit_push_bit)
  moreover have "ucast (drop_bit (8 * length bs) (from_be (b # bs) :: 'a word)) = b"
  proof (rule bit_word_eqI)
    fix k assume k: "k < LENGTH(8)"
    have "\<not> bit ?v (8 * length bs + k)"
      by (subst take_bit_from_be [symmetric]) (simp add: bit_take_bit_iff)
    then show "bit (ucast (drop_bit (8 * length bs) (from_be (b # bs) :: 'a word)) :: byte) k = bit b k"
      using k Cons.prems by (simp add: e bit_simps add.commute)
  qed
  ultimately show ?case using Cons by simp
qed (simp add: from_be_def)

text \<open>The bits of a word and of its bytes.\<close>

lemma be_bytes_nth: "i < n \<Longrightarrow> be_bytes n w ! i = ucast (drop_bit (8 * (n - 1 - i)) w)"
proof (induction n arbitrary: i)
  case (Suc n)
  then show ?case by (cases i) (simp_all add: Suc_diff_Suc)
qed simp

lemma bit_be_bytes:
  "i < n \<Longrightarrow> k < 8 \<Longrightarrow> bit (be_bytes n (w :: 'a::len word) ! i) k \<longleftrightarrow> bit w (8 * (n - 1 - i) + k)"
  by (simp add: be_bytes_nth bit_simps)

lemma bit_from_be:
  assumes "8 * length bs \<le> LENGTH('a::len)" "j < 8 * length bs"
  shows "bit (from_be bs :: 'a word) j \<longleftrightarrow> bit (bs ! (length bs - 1 - j div 8)) (j mod 8)"
proof -
  let ?n = "length bs" and ?i = "length bs - 1 - j div 8"
  have i: "?i < ?n" "?n - 1 - ?i = j div 8" using assms(2) by auto
  have "bit (bs ! ?i) (j mod 8) \<longleftrightarrow> bit (be_bytes ?n (from_be bs :: 'a word) ! ?i) (j mod 8)"
    by (simp only: be_bytes_from_be [OF assms(1)])
  also have "\<dots> \<longleftrightarrow> bit (from_be bs :: 'a word) (8 * (j div 8) + j mod 8)"
    using i by (subst bit_be_bytes) simp_all
  finally show ?thesis by simp
qed

lemma split8: "(j :: nat) = 8 * (j div 8) + j mod 8" "j mod 8 < 8"
  by simp_all

end
