(* ===== verification/Codec.thy ===== *)
theory Codec
  imports Prelude
begin

text \<open>
  The canonical binary codec (\<open>internal/v2/codec/codec.go\<close>) and the identifiers derived from it
  (\<open>internal/v2/types/types.go\<close>).

  A \<open>Writer\<close> only ever appends, so each of its methods is given by the bytes it appends and a
  sequence of calls is their concatenation. A \<open>Reader\<close> is used through the unread suffix
  \<open>r.data[r.off:]\<close>; the section on the cursor shows that the two-field reader of the code and the
  suffix take the same steps. The locale \<open>wire_format\<close> is the contract between a writer and its
  reader: a read succeeds with a value exactly when the input starts with the value's encoding.
  Every field format of the codec is an interpretation of it.
\<close>

subsection \<open>Writer\<close>

definition w_U8 :: "u8 \<Rightarrow> byte list" where
  "w_U8 v = [v]"

definition w_U16 :: "u16 \<Rightarrow> byte list" where
  "w_U16 v = be_bytes 2 v"

definition w_U32 :: "u32 \<Rightarrow> byte list" where
  "w_U32 v = be_bytes 4 v"

definition w_U64 :: "u64 \<Rightarrow> byte list" where
  "w_U64 v = be_bytes 8 v"

definition w_Bool :: "bool \<Rightarrow> byte list" where
  "w_Bool v = (if v then w_U8 1 else w_U8 0)"

text \<open>\<open>w.Fixed(id[:])\<close> for a 32-byte array; for a slice \<open>w.Fixed\<close> appends the slice itself.\<close>

definition w_Fixed32 :: "bytes32 \<Rightarrow> byte list" where
  "w_Fixed32 v = be_bytes 32 v"

definition w_Bytes :: "byte list \<Rightarrow> byte list" where
  "w_Bytes v = w_U32 (of_nat (length v)) @ v"

lemma length_w [simp]:
  "length (w_U8 a) = 1" "length (w_U16 b) = 2" "length (w_U32 c) = 4" "length (w_U64 d) = 8"
  "length (w_Bool e) = 1" "length (w_Fixed32 f) = 32" "length (w_Bytes v) = 4 + length v"
  by (simp_all add: w_U8_def w_U16_def w_U32_def w_U64_def w_Bool_def w_Fixed32_def w_Bytes_def)

subsection \<open>Reader\<close>

type_synonym reader = "byte list"

definition r_take :: "nat \<Rightarrow> reader \<Rightarrow> (byte list \<times> reader) result" where
  "r_take n r = (if length r < n then Inl ErrUnexpectedEOF else Inr (take n r, drop n r))"

definition r_U8 :: "reader \<Rightarrow> (u8 \<times> reader) result" where
  "r_U8 r = tryE (r_take 1 r) (\<lambda>(b, r). Inr (hd b, r))"

definition r_U16 :: "reader \<Rightarrow> (u16 \<times> reader) result" where
  "r_U16 r = tryE (r_take 2 r) (\<lambda>(b, r). Inr (from_be b, r))"

definition r_U32 :: "reader \<Rightarrow> (u32 \<times> reader) result" where
  "r_U32 r = tryE (r_take 4 r) (\<lambda>(b, r). Inr (from_be b, r))"

definition r_U64 :: "reader \<Rightarrow> (u64 \<times> reader) result" where
  "r_U64 r = tryE (r_take 8 r) (\<lambda>(b, r). Inr (from_be b, r))"

definition r_Bool :: "reader \<Rightarrow> (bool \<times> reader) result" where
  "r_Bool r = tryE (r_U8 r) (\<lambda>(v, r).
     if v = 0 then Inr (False, r) else if v = 1 then Inr (True, r) else Inl (InvalidBool v))"

text \<open>\<open>r.Fixed(n)\<close>, and its use with n = 32 followed by the copy into a 32-byte array.\<close>

definition r_Fixed :: "nat \<Rightarrow> reader \<Rightarrow> (byte list \<times> reader) result" where
  "r_Fixed n r = r_take n r"

definition r_Fixed32 :: "reader \<Rightarrow> (bytes32 \<times> reader) result" where
  "r_Fixed32 r = tryE (r_Fixed 32 r) (\<lambda>(b, r). Inr (from_be b, r))"

definition r_Bytes :: "u32 \<Rightarrow> reader \<Rightarrow> (byte list \<times> reader) result" where
  "r_Bytes mx r = tryE (r_U32 r) (\<lambda>(n, r).
     if mx < n then Inl ErrLengthLimit else r_take (unat n) r)"

definition r_Done :: "reader \<Rightarrow> unit result" where
  "r_Done r = (if r \<noteq> [] then Inl ErrTrailingData else Inr ())"

text \<open>The loop \<open>for i := range xs { xs[i], err = read(r) }\<close> over a slice of n elements.\<close>

fun r_many :: "nat \<Rightarrow> (reader \<Rightarrow> ('a \<times> reader) result) \<Rightarrow> reader \<Rightarrow> ('a list \<times> reader) result" where
  "r_many 0 rd r = Inr ([], r)"
| "r_many (Suc n) rd r =
     tryE (rd r) (\<lambda>(x, r). tryE (r_many n rd r) (\<lambda>(xs, r). Inr (x # xs, r)))"

lemma r_Done_iff [simp]: "r_Done r = Inr u \<longleftrightarrow> r = []"
  by (simp add: r_Done_def)

lemma r_Done_Nil [simp]: "r_Done [] = Inr ()"
  by simp

lemma is_ok_r_Done [simp]: "is_ok (r_Done r) \<longleftrightarrow> r = []"
  by (simp add: r_Done_def)

subsubsection \<open>The two-field cursor\<close>

text \<open>
  The reader as the code declares it: the whole payload and an offset into it. \<open>unread\<close> is the
  suffix the rest of the development passes around.
\<close>

record Reader =
  rdata :: "byte list"
  roff :: nat

definition NewReader :: "byte list \<Rightarrow> Reader" where
  "NewReader d = \<lparr>rdata = d, roff = 0\<rparr>"

definition cursor_take :: "Reader \<Rightarrow> nat \<Rightarrow> (byte list \<times> Reader) result" where
  "cursor_take r n =
     (if roff r + n > length (rdata r) then Inl ErrUnexpectedEOF
      else Inr (take n (drop (roff r) (rdata r)), r\<lparr>roff := roff r + n\<rparr>))"

definition cursor_Done :: "Reader \<Rightarrow> unit result" where
  "cursor_Done r = (if roff r \<noteq> length (rdata r) then Inl ErrTrailingData else Inr ())"

definition unread :: "Reader \<Rightarrow> reader" where
  "unread r = drop (roff r) (rdata r)"

definition in_bounds :: "Reader \<Rightarrow> bool" where
  "in_bounds r \<longleftrightarrow> roff r \<le> length (rdata r)"

lemma cursor_take_refines:
  "in_bounds r \<Longrightarrow> r_take n (unread r) = map_sum id (map_prod id unread) (cursor_take r n)"
  by (auto simp: in_bounds_def unread_def r_take_def cursor_take_def add.commute)

lemma cursor_take_in_bounds: "cursor_take r n = Inr (b, r') \<Longrightarrow> in_bounds r'"
  by (auto simp: cursor_take_def in_bounds_def split: if_splits)

lemma cursor_Done_refines: "in_bounds r \<Longrightarrow> r_Done (unread r) = cursor_Done r"
  by (auto simp: in_bounds_def unread_def r_Done_def cursor_Done_def)

subsection \<open>The contract of a wire format\<close>

locale wire_format =
  fixes enc :: "'a \<Rightarrow> byte list"
    and rd :: "reader \<Rightarrow> ('a \<times> reader) result"
    and valid :: "'a \<Rightarrow> bool"
  assumes rd_iff: "rd r = Inr (x, s) \<longleftrightarrow> valid x \<and> r = enc x @ s"
begin

lemma read_back: "valid x \<Longrightarrow> rd (enc x @ s) = Inr (x, s)"
  by (simp add: rd_iff)

lemma read_back_end: "valid x \<Longrightarrow> rd (enc x) = Inr (x, [])"
  by (simp add: rd_iff)

lemma prefix_free:
  assumes "valid x" "valid y" "enc x @ s = enc y @ t"
  shows "x = y \<and> s = t"
proof -
  have "Inr (x, s) = (Inr (y, t) :: ('a \<times> reader) result)"
    using assms(3) by (metis read_back [OF assms(1)] read_back [OF assms(2)])
  then show ?thesis by simp
qed

lemma rd_fails: "rd r = Inl e \<Longrightarrow> valid x \<Longrightarrow> r \<noteq> enc x @ s"
  by (auto simp: read_back)

lemma r_many_iff:
  "r_many n rd r = Inr (xs, s) \<longleftrightarrow> length xs = n \<and> list_all valid xs \<and> r = concat (map enc xs) @ s"
proof (induction n arbitrary: r xs)
  case (Suc n)
  have "r_many (Suc n) rd r = Inr (xs, s) \<longleftrightarrow>
      (\<exists>x r' ys. rd r = Inr (x, r') \<and> r_many n rd r' = Inr (ys, s) \<and> xs = x # ys)"
    by auto
  also have "\<dots> \<longleftrightarrow> (\<exists>x ys. valid x \<and> xs = x # ys \<and> length ys = n \<and> list_all valid ys \<and>
      r = enc x @ concat (map enc ys) @ s)"
    unfolding rd_iff Suc by blast
  also have "\<dots> \<longleftrightarrow> length xs = Suc n \<and> list_all valid xs \<and> r = concat (map enc xs) @ s"
    by (cases xs) auto
  finally show ?case .
qed auto

lemma many_back:
  "list_all valid xs \<Longrightarrow> r_many (length xs) rd (concat (map enc xs) @ s) = Inr (xs, s)"
  by (simp add: r_many_iff)

lemma many_back_end:
  "list_all valid xs \<Longrightarrow> r_many (length xs) rd (concat (map enc xs)) = Inr (xs, [])"
  by (simp add: r_many_iff)

end

lemma r_take_iff: "r_take n r = Inr (b, s) \<longleftrightarrow> length b = n \<and> r = b @ s"
  by (auto simp: r_take_def append_eq_conv_conj)

interpretation U8: wire_format w_U8 r_U8 "\<lambda>_. True"
  by unfold_locales
    (auto simp: r_U8_def r_take_iff w_U8_def length_Suc_conv)

lemma from_be_iff:
  "LENGTH('a) = 8 * n \<Longrightarrow>
     (\<exists>b. length b = n \<and> r = b @ s \<and> from_be b = (x :: 'a::len word)) \<longleftrightarrow> r = be_bytes n x @ s"
  by (auto simp: from_be_be_bytes_full be_bytes_from_be intro: exI [of _ "be_bytes n x"])

interpretation U16: wire_format w_U16 r_U16 "\<lambda>_. True"
  using from_be_iff [where 'a = 16 and n = 2]
  by unfold_locales (auto simp: r_U16_def r_take_iff w_U16_def)

interpretation U32: wire_format w_U32 r_U32 "\<lambda>_. True"
  using from_be_iff [where 'a = 32 and n = 4]
  by unfold_locales (auto simp: r_U32_def r_take_iff w_U32_def)

interpretation U64: wire_format w_U64 r_U64 "\<lambda>_. True"
  using from_be_iff [where 'a = 64 and n = 8]
  by unfold_locales (auto simp: r_U64_def r_take_iff w_U64_def)

interpretation Fixed: wire_format "\<lambda>b. b" "r_Fixed n" "\<lambda>b. length b = n" for n
  by unfold_locales (auto simp: r_Fixed_def r_take_iff)

interpretation Fixed32: wire_format w_Fixed32 r_Fixed32 "\<lambda>_. True"
  using from_be_iff [where 'a = 256 and n = 32]
  by unfold_locales (auto simp: r_Fixed32_def Fixed.rd_iff w_Fixed32_def)

interpretation Bool: wire_format w_Bool r_Bool "\<lambda>_. True"
proof
  fix r x s
  have "r_Bool r = Inr (x, s) \<longleftrightarrow> (\<exists>v. r = w_U8 v @ s \<and> (v = 0 \<and> \<not> x \<or> v = 1 \<and> x))"
    by (simp add: r_Bool_def U8.rd_iff) (metis (full_types) one_neq_zero)
  then show "r_Bool r = Inr (x, s) \<longleftrightarrow> True \<and> r = w_Bool x @ s"
    by (auto simp: w_Bool_def)
qed

interpretation Bytes: wire_format w_Bytes "r_Bytes mx" "\<lambda>b. length b \<le> unat mx" for mx
proof
  fix r x s
  have bound: "unat mx < 2 ^ 32" using unsigned_less [of mx] by simp
  show "r_Bytes mx r = Inr (x, s) \<longleftrightarrow> length x \<le> unat mx \<and> r = w_Bytes x @ s"
  proof
    assume "r_Bytes mx r = Inr (x, s)"
    then obtain n where "r = w_U32 n @ x @ s" "n \<le> mx" "length x = unat n"
      by (auto simp: r_Bytes_def U32.rd_iff r_take_iff not_less)
    then show "length x \<le> unat mx \<and> r = w_Bytes x @ s"
      by (simp add: w_Bytes_def word_le_nat_alt)
  next
    assume x: "length x \<le> unat mx \<and> r = w_Bytes x @ s"
    then have "unat (of_nat (length x) :: u32) = length x"
      using bound by (simp add: unat_of_nat_small)
    then show "r_Bytes mx r = Inr (x, s)"
      using x by (auto simp: r_Bytes_def w_Bytes_def U32.read_back [OF TrueI] r_take_iff word_le_nat_alt not_less)
  qed
qed

lemmas wire_iff = U8.rd_iff U16.rd_iff U32.rd_iff U64.rd_iff Fixed.rd_iff Fixed32.rd_iff
  Bool.rd_iff Bytes.rd_iff

lemmas wire_read =
  U8.read_back [simplified] U16.read_back [simplified] U32.read_back [simplified]
  U64.read_back [simplified] Fixed.read_back Fixed32.read_back [simplified]
  Bool.read_back [simplified] Bytes.read_back
  U8.read_back_end [simplified] U16.read_back_end [simplified] U32.read_back_end [simplified]
  U64.read_back_end [simplified] Fixed.read_back_end Fixed32.read_back_end [simplified]
  Bool.read_back_end [simplified] Bytes.read_back_end

declare wire_read [simp]

text \<open>Fixed-width fields cancel, whatever follows them.\<close>

lemma U8_cancel: "w_U8 a @ s = w_U8 b @ t \<longleftrightarrow> a = b \<and> s = t"
  using U8.prefix_free [OF TrueI TrueI, of a s b t] by auto

lemma U16_cancel: "w_U16 a @ s = w_U16 b @ t \<longleftrightarrow> a = b \<and> s = t"
  using U16.prefix_free [OF TrueI TrueI, of a s b t] by auto

lemma U32_cancel: "w_U32 a @ s = w_U32 b @ t \<longleftrightarrow> a = b \<and> s = t"
  using U32.prefix_free [OF TrueI TrueI, of a s b t] by auto

lemma U64_cancel: "w_U64 a @ s = w_U64 b @ t \<longleftrightarrow> a = b \<and> s = t"
  using U64.prefix_free [OF TrueI TrueI, of a s b t] by auto

lemma Bool_cancel: "w_Bool a @ s = w_Bool b @ t \<longleftrightarrow> a = b \<and> s = t"
  using Bool.prefix_free [OF TrueI TrueI, of a s b t] by auto

lemma Fixed32_cancel: "w_Fixed32 a @ s = w_Fixed32 b @ t \<longleftrightarrow> a = b \<and> s = t"
  using Fixed32.prefix_free [OF TrueI TrueI, of a s b t] by auto

lemmas wire_cancel = U8_cancel U16_cancel U32_cancel U64_cancel Bool_cancel Fixed32_cancel

lemma wire_cancel_end:
  "w_U8 a = w_U8 b \<longleftrightarrow> a = b" "w_U16 c = w_U16 d \<longleftrightarrow> c = d" "w_U32 e = w_U32 f \<longleftrightarrow> e = f"
  "w_U64 g = w_U64 h \<longleftrightarrow> g = h" "w_Bool i = w_Bool j \<longleftrightarrow> i = j" "w_Fixed32 x = w_Fixed32 y \<longleftrightarrow> x = y"
  using U8_cancel [of a "[]" b "[]"] U16_cancel [of c "[]" d "[]"] U32_cancel [of e "[]" f "[]"]
    U64_cancel [of g "[]" h "[]"] Bool_cancel [of i "[]" j "[]"] Fixed32_cancel [of x "[]" y "[]"]
  by simp_all

subsection \<open>Complete messages\<close>

text \<open>
  The contract of a message format, whose parser must consume all of its input: it accepts exactly the
  encodings of the valid values. A message sent as a length-prefixed field of another one is again a
  field format.
\<close>

definition r_Sub :: "error \<Rightarrow> u32 \<Rightarrow> (byte list \<Rightarrow> 'a result) \<Rightarrow> reader \<Rightarrow> ('a \<times> reader) result" where
  "r_Sub e mx parse r = tryAs e (r_Bytes mx r) (\<lambda>(raw, r). tryAs e (parse raw) (\<lambda>x. Inr (x, r)))"

locale canonical_wire =
  fixes enc :: "'a \<Rightarrow> byte list"
    and parse :: "byte list \<Rightarrow> 'a result"
    and valid :: "'a \<Rightarrow> bool"
  assumes parse_iff: "parse bs = Inr x \<longleftrightarrow> valid x \<and> bs = enc x"
begin

lemma parse_enc: "valid x \<Longrightarrow> parse (enc x) = Inr x"
  by (simp add: parse_iff)

lemma enc_inject: "valid x \<Longrightarrow> valid y \<Longrightarrow> enc x = enc y \<longleftrightarrow> x = y"
  by (metis parse_iff sum.inject(2))

lemma parse_valid: "parse bs = Inr x \<Longrightarrow> valid x"
  by (simp add: parse_iff)

lemma r_Sub_iff:
  "r_Sub e mx parse r = Inr (x, s) \<longleftrightarrow> valid x \<and> length (enc x) \<le> unat mx \<and> r = w_Bytes (enc x) @ s"
  by (auto simp: r_Sub_def wire_iff parse_iff)

end

subsection \<open>Domain-separated hashing\<close>

definition str :: "string \<Rightarrow> byte list" where
  "str s = map (\<lambda>c. of_nat (of_char c)) s"

lemma length_str [simp]: "length (str s) = length s"
  by (simp add: str_def)

lemma str_inject [simp]: "str s = str t \<longleftrightarrow> s = t"
proof -
  have "unat (of_nat (of_char c) :: byte) = of_char c" for c :: char
    by (rule unat_of_nat_small) simp
  then have "inj (\<lambda>c :: char. of_nat (of_char c) :: byte)"
    by (metis injI of_char_eq_iff)
  then show ?thesis by (simp add: str_def inj_map_eq_map)
qed

definition DomainHash :: "hashfun \<Rightarrow> string \<Rightarrow> byte list \<Rightarrow> hash" where
  "DomainHash H domain payload =
     H (be_bytes 4 (of_nat (length (str domain)) :: u32) @ str domain @
        be_bytes 4 (of_nat (length payload) :: u32) @ payload)"

text \<open>The streamed framing is the one \<open>Writer.String\<close> and \<open>Writer.Bytes\<close> would produce.\<close>

definition frame :: "string \<Rightarrow> byte list \<Rightarrow> byte list" where
  "frame domain payload = w_Bytes (str domain) @ w_Bytes payload"

lemma DomainHash_framing: "DomainHash H domain payload = H (frame domain payload)"
  by (simp add: DomainHash_def frame_def w_Bytes_def w_U32_def)

lemma DomainHash_toy [simp]:
  "DomainHash toy_hash domain payload = of_nat (8 + length domain + length payload)"
  by (simp add: DomainHash_framing frame_def toy_hash_def)

lemma DomainHash_last [simp]: "payload \<noteq> [] \<Longrightarrow> DomainHash last_hash domain payload = ucast (last payload)"
  by (simp add: DomainHash_def last_hash_def)

text \<open>
  SHA-256 has collisions, so no theorem may assume it injective. The security theorems below name
  the byte strings that are hashed on each side and conclude with the property or with two
  different strings among them that have the same digest.
\<close>

definition collides :: "hashfun \<Rightarrow> byte list list \<Rightarrow> byte list list \<Rightarrow> bool" where
  "collides H xs ys \<longleftrightarrow> (\<exists>x \<in> set xs. \<exists>y \<in> set ys. x \<noteq> y \<and> H x = H y)"

lemma collidesI: "x \<in> set xs \<Longrightarrow> y \<in> set ys \<Longrightarrow> x \<noteq> y \<Longrightarrow> H x = H y \<Longrightarrow> collides H xs ys"
  by (auto simp: collides_def)

lemma collides_antimono:
  "\<not> collides H xs' ys' \<Longrightarrow> set xs \<subseteq> set xs' \<Longrightarrow> set ys \<subseteq> set ys' \<Longrightarrow> \<not> collides H xs ys"
  unfolding collides_def by blast

lemma no_collision:
  "\<not> collides H xs ys \<Longrightarrow> x \<in> set xs \<Longrightarrow> y \<in> set ys \<Longrightarrow> H x = H y \<Longrightarrow> x = y"
  by (auto simp: collides_def)

lemma w_Bytes_inject:
  assumes "w_Bytes x @ s = w_Bytes y @ t" "length x < 2 ^ 32" "length y < 2 ^ 32"
  shows "x = y \<and> s = t"
  using Bytes.prefix_free [of x "- 1" y s t] assms
  by (simp add: unsigned_minus_1_eq_mask mask_eq_exp_minus_1)

text \<open>Framing is injective on everything shorter than 4 GiB, so domains separate.\<close>

lemma frame_inject:
  assumes "frame d p = frame d' p'"
    and "length d < 2 ^ 32" "length d' < 2 ^ 32" "length p < 2 ^ 32" "length p' < 2 ^ 32"
  shows "d = d' \<and> p = p'"
  using assms w_Bytes_inject [of "str d" "w_Bytes p @ []" "str d'" "w_Bytes p' @ []"]
    w_Bytes_inject [of p "[]" p' "[]"] by (simp add: frame_def)

subsection \<open>Identifiers\<close>

definition IsZero32 :: "bytes32 \<Rightarrow> bool" where
  "IsZero32 v \<longleftrightarrow> v = 0"

definition AccountIDFromPublicKey :: "hashfun \<Rightarrow> byte list \<Rightarrow> accountid" where
  "AccountIDFromPublicKey H publicKey = DomainHash H ''zephyr/account-id/v2'' publicKey"

definition ValidatorIDFromPublicKey :: "hashfun \<Rightarrow> byte list \<Rightarrow> validatorid" where
  "ValidatorIDFromPublicKey H publicKey = DomainHash H ''zephyr/validator-id/v2'' publicKey"

definition AccountShard :: "accountid \<Rightarrow> u32 \<Rightarrow> u32" where
  "AccountShard account shardCount =
     (if shardCount \<le> 1 then 0
      else ucast ((from_be (take 8 (be_bytes 32 account)) :: u64) mod ucast shardCount))"

definition ObjectShard :: "objectid \<Rightarrow> u32" where
  "ObjectShard oid = from_be (take 4 (be_bytes 32 oid))"

definition ObjectIDForShard :: "hashfun \<Rightarrow> hash \<Rightarrow> u32 \<Rightarrow> u32 \<Rightarrow> objectid" where
  "ObjectIDForShard H txID index shardID =
     (let h = DomainHash H ''zephyr/object-id/v2'' (w_Fixed32 txID @ w_U32 index @ w_U32 shardID)
      in from_be (be_bytes 4 shardID @ drop 4 (be_bytes 32 h)))"

definition TokenIDFromTransaction :: "hashfun \<Rightarrow> hash \<Rightarrow> u32 \<Rightarrow> tokenid" where
  "TokenIDFromTransaction H txID operationIndex =
     DomainHash H ''zephyr/token-id/v2'' (w_Fixed32 txID @ w_U32 operationIndex)"

definition ContractIDFromTransaction :: "hashfun \<Rightarrow> hash \<Rightarrow> u32 \<Rightarrow> bytes32" where
  "ContractIDFromTransaction H txID operationIndex =
     DomainHash H ''zephyr/contract-id/v2'' (w_Fixed32 txID @ w_U32 operationIndex)"

definition JobIDFromTransaction :: "hashfun \<Rightarrow> hash \<Rightarrow> u32 \<Rightarrow> bytes32" where
  "JobIDFromTransaction H txID operationIndex =
     DomainHash H ''zephyr/compute-job-id/v2'' (w_Fixed32 txID @ w_U32 operationIndex)"

lemma ObjectShard_ObjectIDForShard [simp]: "ObjectShard (ObjectIDForShard H t i s) = s"
proof -
  let ?h = "DomainHash H ''zephyr/object-id/v2'' (w_Fixed32 t @ w_U32 i @ w_U32 s)"
  let ?bs = "be_bytes 4 s @ drop 4 (be_bytes 32 ?h)"
  have "be_bytes 32 (from_be ?bs :: bytes32) = ?bs"
    using be_bytes_from_be [of ?bs, where 'a = 256] by simp
  then show ?thesis
    by (simp add: ObjectShard_def ObjectIDForShard_def Let_def from_be_be_bytes_full)
qed

lemma AccountShard_less: "0 < n \<Longrightarrow> AccountShard a n < n"
proof (cases "n \<le> 1")
  case False
  let ?m = "(from_be (take 8 (be_bytes 32 a)) :: u64) mod ucast n"
  have n: "unat (ucast n :: u64) = unat n"
    by (simp add: unsigned_ucast_eq take_bit_nat_eq_self unsigned_less [THEN less_trans])
  moreover have "n \<noteq> 0" using False by auto
  then have "0 < unat n" by (simp add: unat_gt_0)
  ultimately have "unat ?m < unat n"
    by (simp add: unat_mod)
  then have "unat (ucast ?m :: u32) < unat n"
    by (simp add: unsigned_ucast_eq) (meson le_less_trans take_bit_nat_less_eq_self)
  then show ?thesis using False by (simp add: AccountShard_def word_less_nat_alt)
qed (auto simp: AccountShard_def)

end
