(* ===== verification/Merkle.thy ===== *)
theory Merkle
  imports Codec
begin

text \<open>
  The padded binary Merkle tree (\<open>internal/v2/merkle/merkle.go\<close>, \<open>wire.go\<close>). \<open>merkle_Root\<close> and
  \<open>BuildProof\<close> reduce one private buffer in place, as the code does, with the buffer as a list
  updated by index; \<open>mroot\<close> is the reference definition by halves. The lemmas show that the
  in-place loops compute the reference root, that a built proof verifies, and that an accepted
  proof names a leaf of the tree unless the hash function collides.
\<close>

record MerkleProof =
  mp_Index :: u32
  mp_LeafCount :: u32
  mp_Siblings :: "hash list"

definition Leaf :: "hashfun \<Rightarrow> string \<Rightarrow> byte list \<Rightarrow> hash" where
  "Leaf H domain payload = DomainHash H (''zephyr/merkle/leaf/v2/'' @ domain) payload"

definition branch :: "hashfun \<Rightarrow> hash \<Rightarrow> hash \<Rightarrow> hash" where
  "branch H left right =
     DomainHash H ''zephyr/merkle/branch/v2'' (be_bytes 32 left @ be_bytes 32 right)"

definition emptyLeaf :: "hashfun \<Rightarrow> hash" where
  "emptyLeaf H = DomainHash H ''zephyr/merkle/empty/v2'' []"

text \<open>The loop \<open>for p < n { p <<= 1 }\<close>; the code starts it at 1.\<close>

function double_until :: "nat \<Rightarrow> nat \<Rightarrow> nat" where
  "double_until p n = (if 0 < p \<and> p < n then double_until (2 * p) n else p)"
  by pat_completeness auto
termination
  by (relation "measure (\<lambda>(p, n). n - p)") auto

declare double_until.simps [simp del]

definition nextPowerOfTwo :: "nat \<Rightarrow> nat" where
  "nextPowerOfTwo n = (if n \<le> 1 then 1 else double_until 1 n)"

text \<open>One pass of the inner loop: parents overwrite the front of the buffer.\<close>

function reduce_level :: "hashfun \<Rightarrow> hash list \<Rightarrow> nat \<Rightarrow> nat \<Rightarrow> hash list" where
  "reduce_level H level width i =
     (if i < width
      then reduce_level H (level[i div 2 := branch H (level ! i) (level ! (i + 1))]) width (i + 2)
      else level)"
  by pat_completeness auto
termination
  by (relation "measure (\<lambda>(H, level, width, i). width - i)") auto

declare reduce_level.simps [simp del]

text \<open>The private buffer: the leaves, padded with the empty leaf up to the width.\<close>

definition padded :: "hashfun \<Rightarrow> hash list \<Rightarrow> nat \<Rightarrow> hash list" where
  "padded H leaves width = leaves @ replicate (width - length leaves) (emptyLeaf H)"

function root_loop :: "hashfun \<Rightarrow> hash list \<Rightarrow> nat \<Rightarrow> hash list" where
  "root_loop H level width =
     (if 1 < width then root_loop H (reduce_level H level width 0) (width div 2) else level)"
  by pat_completeness auto
termination
  by (relation "measure (\<lambda>(H, level, width). width)") auto

declare root_loop.simps [simp del]

definition merkle_Root :: "hashfun \<Rightarrow> hash list \<Rightarrow> hash" where
  "merkle_Root H leaves =
     (if leaves = [] then emptyLeaf H
      else let width = nextPowerOfTwo (length leaves)
           in root_loop H (padded H leaves width) width ! 0)"

function proof_loop :: "hashfun \<Rightarrow> hash list \<Rightarrow> nat \<Rightarrow> nat \<Rightarrow> hash list" where
  "proof_loop H level width position =
     (if 1 < width
      then level ! (position XOR 1) #
           proof_loop H (reduce_level H level width 0) (width div 2) (position div 2)
      else [])"
  by pat_completeness auto
termination
  by (relation "measure (\<lambda>(H, level, width, position). width)") auto

declare proof_loop.simps [simp del]

definition BuildProof :: "hashfun \<Rightarrow> hash list \<Rightarrow> int \<Rightarrow> MerkleProof result" where
  "BuildProof H leaves index =
     (if index < 0 \<or> index \<ge> int (length leaves) then Inl ErrIndex
      else let width = nextPowerOfTwo (length leaves)
           in Inr \<lparr>mp_Index = of_int index, mp_LeafCount = of_nat (length leaves),
                   mp_Siblings = proof_loop H (padded H leaves width) width (nat index)\<rparr>)"

text \<open>The loop \<open>for n := target; n > 1; n /= 2 { requiredDepth++ }\<close>.\<close>

fun halvings :: "nat \<Rightarrow> nat" where
  "halvings n = (if 1 < n then Suc (halvings (n div 2)) else 0)"

declare halvings.simps [simp del]

fun climb :: "hashfun \<Rightarrow> hash \<Rightarrow> nat \<Rightarrow> hash list \<Rightarrow> hash" where
  "climb H current position [] = current"
| "climb H current position (sibling # rest) =
     climb H (if position mod 2 = 0 then branch H current sibling else branch H sibling current)
       (position div 2) rest"

definition merkle_Verify :: "hashfun \<Rightarrow> hash \<Rightarrow> hash \<Rightarrow> MerkleProof \<Rightarrow> bool" where
  "merkle_Verify H root leaf proof =
     (if mp_LeafCount proof = 0 \<or> mp_Index proof \<ge> mp_LeafCount proof then False
      else if length (mp_Siblings proof) \<noteq> halvings (nextPowerOfTwo (unat (mp_LeafCount proof))) then False
      else climb H leaf (unat (mp_Index proof)) (mp_Siblings proof) = root)"

subsection \<open>Wire format of a proof\<close>

definition MarshalMerkleProof :: "MerkleProof \<Rightarrow> byte list" where
  "MarshalMerkleProof p =
     w_U32 (mp_Index p) @ w_U32 (mp_LeafCount p) @ w_U32 (of_nat (length (mp_Siblings p))) @
     concat (map w_Fixed32 (mp_Siblings p))"

definition ParseMerkleProof :: "byte list \<Rightarrow> MerkleProof result" where
  "ParseMerkleProof data =
     tryAs ErrIndex (r_U32 data) (\<lambda>(index, r).
     tryAs ErrIndex (r_U32 r) (\<lambda>(leafCount, r).
     if leafCount = 0 \<or> index \<ge> leafCount then Inl ErrIndex else
     tryAs ErrIndex (r_U32 r) (\<lambda>(count, r).
     if count > 32 then Inl ErrIndex else
     tryAs ErrIndex (r_many (unat count) r_Fixed32 r) (\<lambda>(siblings, r).
     tryAs ErrIndex (r_Done r) (\<lambda>_.
     Inr \<lparr>mp_Index = index, mp_LeafCount = leafCount, mp_Siblings = siblings\<rparr>)))))"

subsection \<open>The reference root\<close>

text \<open>The tree by halves: \<open>mroot H k xs\<close> is the root over the 2 ^ k leaves xs.\<close>

fun mroot :: "hashfun \<Rightarrow> nat \<Rightarrow> hash list \<Rightarrow> hash" where
  "mroot H 0 xs = hd xs"
| "mroot H (Suc k) xs = branch H (mroot H k (take (2 ^ k) xs)) (mroot H k (drop (2 ^ k) xs))"

fun pair_up :: "hashfun \<Rightarrow> hash list \<Rightarrow> hash list" where
  "pair_up H (a # b # xs) = branch H a b # pair_up H xs"
| "pair_up H xs = []"

definition depth_of :: "nat \<Rightarrow> nat" where
  "depth_of n = halvings (nextPowerOfTwo n)"

subsection \<open>What is hashed\<close>

text \<open>The byte strings a branch, a whole tree and a climb hash.\<close>

definition branch_frame :: "hash \<Rightarrow> hash \<Rightarrow> byte list" where
  "branch_frame left right =
     frame ''zephyr/merkle/branch/v2'' (be_bytes 32 left @ be_bytes 32 right)"

definition leaf_frame :: "string \<Rightarrow> byte list \<Rightarrow> byte list" where
  "leaf_frame domain payload = frame (''zephyr/merkle/leaf/v2/'' @ domain) payload"

definition empty_frame :: "byte list" where
  "empty_frame = frame ''zephyr/merkle/empty/v2'' []"

fun tree_frames :: "hashfun \<Rightarrow> nat \<Rightarrow> hash list \<Rightarrow> byte list list" where
  "tree_frames H 0 xs = []"
| "tree_frames H (Suc k) xs =
     branch_frame (mroot H k (take (2 ^ k) xs)) (mroot H k (drop (2 ^ k) xs)) #
     tree_frames H k (take (2 ^ k) xs) @ tree_frames H k (drop (2 ^ k) xs)"

fun climb_frames :: "hashfun \<Rightarrow> hash \<Rightarrow> nat \<Rightarrow> hash list \<Rightarrow> byte list list" where
  "climb_frames H current position [] = []"
| "climb_frames H current position (sibling # rest) =
     (if position mod 2 = 0 then branch_frame current sibling else branch_frame sibling current) #
     climb_frames H (if position mod 2 = 0 then branch H current sibling else branch H sibling current)
       (position div 2) rest"

definition root_frames :: "hashfun \<Rightarrow> byte list list \<Rightarrow> byte list list" where
  "root_frames H fs =
     (let k = depth_of (length fs); gs = fs @ replicate (2 ^ k - length fs) empty_frame
      in gs @ tree_frames H k (map H gs))"

subsection \<open>Powers of two\<close>

lemma one_less_double_power [simp]: "Suc 0 < 2 * 2 ^ k"
  by (induction k) simp_all

lemma halvings_power [simp]: "halvings (2 ^ k) = k"
proof (induction k)
  case (Suc k)
  then show ?case by (subst halvings.simps) simp
qed (simp add: halvings.simps)

lemma double_until_power:
  "0 < p \<Longrightarrow> \<exists>k. double_until p n = p * 2 ^ k \<and> n \<le> p * 2 ^ k"
proof (induction p n rule: double_until.induct)
  case (1 p n)
  show ?case
  proof (cases "p < n")
    case True
    then obtain k where "double_until (2 * p) n = 2 * p * 2 ^ k \<and> n \<le> 2 * p * 2 ^ k"
      using 1 by auto
    then show ?thesis
      using True "1.prems" by (intro exI [of _ "Suc k"]) (simp add: double_until.simps [of p n])
  next
    case False
    then show ?thesis by (intro exI [of _ 0]) (simp add: double_until.simps [of p n])
  qed
qed

lemma nextPowerOfTwo_power: "nextPowerOfTwo n = 2 ^ depth_of n"
proof -
  obtain k where "nextPowerOfTwo n = 2 ^ k"
    using double_until_power [of 1 n] by (cases "n \<le> 1") (auto simp: nextPowerOfTwo_def intro: that [of 0])
  then show ?thesis by (simp add: depth_of_def)
qed

lemma nextPowerOfTwo_ge: "n \<le> nextPowerOfTwo n"
  using double_until_power [of 1 n] by (auto simp: nextPowerOfTwo_def)

lemma length_padded [simp]:
  "length leaves \<le> width \<Longrightarrow> length (padded H leaves width) = width"
  by (simp add: padded_def)

lemma padded_nth [simp]: "i < length leaves \<Longrightarrow> padded H leaves width ! i = leaves ! i"
  by (simp add: padded_def nth_append)

subsection \<open>The in-place reduction\<close>

lemma length_pair_up [simp]: "length (pair_up H xs) = length xs div 2"
  by (induction H xs rule: pair_up.induct) simp_all

lemma pair_up_nth [simp]:
  "k < length xs div 2 \<Longrightarrow> pair_up H xs ! k = branch H (xs ! (2 * k)) (xs ! (2 * k + 1))"
proof (induction H xs arbitrary: k rule: pair_up.induct)
  case (1 H a b xs)
  then show ?case by (cases k) simp_all
qed simp_all

lemma length_reduce_level [simp]: "length (reduce_level H level w i) = length level"
proof (induction H level w i rule: reduce_level.induct)
  case (1 H level w i)
  then show ?case by (subst reduce_level.simps) simp
qed

lemma reduce_level_nth:
  assumes "i = 2 * j" "w = 2 * m" "w \<le> length xs" "length level = length xs"
    and "\<forall>k<j. level ! k = branch H (xs ! (2 * k)) (xs ! (2 * k + 1))"
    and "\<forall>k. j \<le> k \<longrightarrow> k < length xs \<longrightarrow> level ! k = xs ! k"
    and "k < m"
  shows "reduce_level H level w i ! k = branch H (xs ! (2 * k)) (xs ! (2 * k + 1))"
  using assms
proof (induction H level w i arbitrary: j rule: reduce_level.induct)
  case (1 H level w i)
  show ?case
  proof (cases "i < w")
    case True
    let ?l = "level[i div 2 := branch H (level ! i) (level ! (i + 1))]"
    have "reduce_level H ?l w (i + 2) ! k = branch H (xs ! (2 * k)) (xs ! (2 * k + 1))"
      using True "1.prems" by (intro "1.IH" [of "Suc j"]) (auto simp: nth_list_update less_Suc_eq)
    moreover have "reduce_level H level w i = reduce_level H ?l w (i + 2)"
      using True by (subst reduce_level.simps) simp
    ultimately show ?thesis by simp
  next
    case False
    then have "reduce_level H level w i = level" by (subst reduce_level.simps) simp
    then show ?thesis using False "1.prems" by simp
  qed
qed

lemma take_reduce_level:
  assumes "2 * m \<le> length level"
  shows "take m (reduce_level H level (2 * m) 0) = pair_up H (take (2 * m) level)"
  using assms by (intro nth_equalityI) (auto simp: reduce_level_nth [where j = 0 and xs = level])

lemma pair_up_append:
  "even (length xs) \<Longrightarrow> pair_up H (xs @ ys) = pair_up H xs @ pair_up H ys"
  by (induction H xs rule: pair_up.induct) simp_all

lemma mroot_pair_up: "length xs = 2 ^ Suc k \<Longrightarrow> mroot H (Suc k) xs = mroot H k (pair_up H xs)"
proof (induction k arbitrary: xs)
  case 0
  then show ?case by (auto simp: length_Suc_conv numeral_2_eq_2)
next
  case (Suc k)
  let ?l = "take (2 ^ Suc k) xs" and ?r = "drop (2 ^ Suc k) xs"
  have "pair_up H xs = pair_up H ?l @ pair_up H ?r"
    using pair_up_append [of ?l H ?r] Suc.prems by simp
  moreover have "length (pair_up H ?l) = 2 ^ k" using Suc.prems by simp
  moreover have "mroot H (Suc k) ?l = mroot H k (pair_up H ?l)"
    "mroot H (Suc k) ?r = mroot H k (pair_up H ?r)"
    using Suc.prems by (intro Suc.IH; simp)+
  ultimately show ?case by (simp only: mroot.simps(2) [of H "Suc k" xs] mroot.simps(2) [of H k "pair_up H xs"]) simp
qed

lemma root_loop_mroot:
  "2 ^ k \<le> length level \<Longrightarrow> root_loop H level (2 ^ k) ! 0 = mroot H k (take (2 ^ k) level)"
proof (induction k arbitrary: level)
  case 0
  then show ?case by (cases level) (simp_all add: root_loop.simps)
next
  case (Suc k)
  let ?l = "reduce_level H level (2 ^ Suc k) 0"
  have "root_loop H level (2 ^ Suc k) ! 0 = root_loop H ?l (2 ^ k) ! 0"
    by (simp add: root_loop.simps [of H level])
  also have "\<dots> = mroot H k (take (2 ^ k) ?l)" using Suc.prems by (intro Suc.IH) simp
  also have "take (2 ^ k) ?l = pair_up H (take (2 ^ Suc k) level)"
    using take_reduce_level [of "2 ^ k" level H] Suc.prems by simp
  also have "mroot H k \<dots> = mroot H (Suc k) (take (2 ^ Suc k) level)"
    using Suc.prems by (intro mroot_pair_up [symmetric]) simp
  finally show ?case .
qed

text \<open>The in-place loops of \<open>Root\<close> compute the reference root of the padded leaves.\<close>

lemma merkle_Root_mroot:
  "leaves \<noteq> [] \<Longrightarrow>
     merkle_Root H leaves = mroot H (depth_of (length leaves)) (padded H leaves (2 ^ depth_of (length leaves)))"
  using nextPowerOfTwo_ge [of "length leaves"]
  by (simp add: merkle_Root_def Let_def nextPowerOfTwo_power root_loop_mroot)

subsection \<open>Built proofs verify\<close>

lemma xor_one_nat: "(p :: nat) XOR Suc 0 = (if even p then Suc p else p - 1)"
  by (simp add: xor_Suc_0_eq)

lemma climb_proof_loop:
  assumes "2 ^ k \<le> length level" "pos < 2 ^ k"
  shows "length (proof_loop H level (2 ^ k) pos) = k \<and>
    climb H (level ! pos) pos (proof_loop H level (2 ^ k) pos) = mroot H k (take (2 ^ k) level)"
  using assms
proof (induction k arbitrary: level pos)
  case 0
  then show ?case by (cases level) (simp_all add: proof_loop.simps)
next
  case (Suc k)
  let ?l = "reduce_level H level (2 ^ Suc k) 0"
  have l: "take (2 ^ k) ?l = pair_up H (take (2 ^ Suc k) level)"
    using take_reduce_level [of "2 ^ k" level H] Suc.prems by simp
  have q: "pos div 2 < 2 ^ k" using Suc.prems by (simp add: less_mult_imp_div_less mult.commute)
  have "?l ! (pos div 2) = take (2 ^ k) ?l ! (pos div 2)" using q by simp
  also have "\<dots> = branch H (level ! (2 * (pos div 2))) (level ! (2 * (pos div 2) + 1))"
    unfolding l using q Suc.prems by simp
  finally have "?l ! (pos div 2) =
      (if pos mod 2 = 0 then branch H (level ! pos) (level ! (pos XOR 1))
       else branch H (level ! (pos XOR 1)) (level ! pos))"
    by (cases "even pos") (auto simp: xor_one_nat elim: oddE)
  moreover have "proof_loop H level (2 ^ Suc k) pos = level ! (pos XOR 1) # proof_loop H ?l (2 ^ k) (pos div 2)"
    by (simp add: proof_loop.simps [of H level])
  moreover have "mroot H k (take (2 ^ k) ?l) = mroot H (Suc k) (take (2 ^ Suc k) level)"
    unfolding l using Suc.prems by (intro mroot_pair_up [symmetric]) simp
  ultimately show ?case
    using Suc.IH [of ?l "pos div 2"] q Suc.prems by (cases "pos mod 2 = 0") simp_all
qed

subsection \<open>Accepted proofs name leaves\<close>

lemma branch_frame: "branch H l r = H (branch_frame l r)"
  by (simp add: branch_def branch_frame_def DomainHash_framing)

lemma leaf_frame: "Leaf H d p = H (leaf_frame d p)"
  by (simp add: Leaf_def leaf_frame_def DomainHash_framing)

lemma empty_frame: "emptyLeaf H = H empty_frame"
  by (simp add: emptyLeaf_def empty_frame_def DomainHash_framing)

lemma branch_frame_inject: "branch_frame a b = branch_frame c d \<Longrightarrow> a = c \<and> b = d"
  using frame_inject [of _ "be_bytes 32 a @ be_bytes 32 b" _ "be_bytes 32 c @ be_bytes 32 d"]
  by (auto simp: branch_frame_def be_bytes_inject)

lemma leaf_frame_neq_branch_frame:
  "length d + 22 < 2 ^ 32 \<Longrightarrow> length p < 2 ^ 32 \<Longrightarrow> leaf_frame d p \<noteq> branch_frame a b"
  using frame_inject [of "''zephyr/merkle/leaf/v2/'' @ d" p "''zephyr/merkle/branch/v2''" "be_bytes 32 a @ be_bytes 32 b"]
  by (auto simp: leaf_frame_def branch_frame_def)

lemma leaf_frame_neq_empty_frame:
  "length d + 22 < 2 ^ 32 \<Longrightarrow> length p < 2 ^ 32 \<Longrightarrow> leaf_frame d p \<noteq> empty_frame"
  using frame_inject [of "''zephyr/merkle/leaf/v2/'' @ d" p "''zephyr/merkle/empty/v2''" "[]"]
  by (auto simp: leaf_frame_def empty_frame_def)

lemma branch_frame_neq_empty_frame: "branch_frame a b \<noteq> empty_frame"
  using frame_inject [of "''zephyr/merkle/branch/v2''" "be_bytes 32 a @ be_bytes 32 b" "''zephyr/merkle/empty/v2''" "[]"]
  by (auto simp: branch_frame_def empty_frame_def)

lemma leaf_frame_inject:
  "leaf_frame d p = leaf_frame d q \<Longrightarrow> length d + 22 < 2 ^ 32 \<Longrightarrow> length p < 2 ^ 32 \<Longrightarrow> length q < 2 ^ 32 \<Longrightarrow> p = q"
  using frame_inject [of "''zephyr/merkle/leaf/v2/'' @ d" p "''zephyr/merkle/leaf/v2/'' @ d" q]
  by (auto simp: leaf_frame_def)

lemma climb_snoc:
  "climb H c p (ss @ [s]) =
     (if p div 2 ^ length ss mod 2 = 0 then branch H (climb H c p ss) s else branch H s (climb H c p ss))"
  by (induction ss arbitrary: c p) (simp_all add: div_mult2_eq)

lemma climb_frames_snoc:
  "climb_frames H c p (ss @ [s]) = climb_frames H c p ss @
     [if p div 2 ^ length ss mod 2 = 0 then branch_frame (climb H c p ss) s else branch_frame s (climb H c p ss)]"
  by (induction ss arbitrary: c p) (simp_all add: div_mult2_eq)

text \<open>
  A climb that ends in the root of a tree started at one of the tree's leaves: a shorter climb
  would have to start at an inner node, a longer one would have to leave the tree through a leaf,
  and the domains of leaf, branch and padding hashes exclude both.
\<close>

lemma climb_sound:
  assumes "climb H (H f) p ss = mroot H k (map H fs)" "length fs = 2 ^ k"
    and "\<forall>a b. f \<noteq> branch_frame a b" "\<forall>g \<in> set fs. \<forall>a b. g \<noteq> branch_frame a b"
    and "\<not> collides H (f # climb_frames H (H f) p ss) (fs @ tree_frames H k (map H fs))"
  shows "f \<in> set fs"
  using assms
proof (induction ss arbitrary: k fs rule: rev_induct)
  case Nil
  show ?case
  proof (cases k)
    case 0
    then obtain g where "fs = [g]" using Nil.prems(2) by (auto simp: length_Suc_conv)
    then show ?thesis using Nil.prems(1,5) 0 by (auto simp: collides_def)
  next
    case (Suc m)
    then show ?thesis
      using Nil.prems(1,3,5) by (auto simp: branch_frame collides_def)
  qed
next
  case (snoc s ss)
  let ?c = "climb H (H f) p ss"
  obtain a b where top: "climb H (H f) p (ss @ [s]) = H (branch_frame a b)"
      "branch_frame a b \<in> set (climb_frames H (H f) p (ss @ [s]))" and ab: "?c = a \<or> ?c = b"
    by (cases "p div 2 ^ length ss mod 2 = 0") (auto simp: climb_snoc climb_frames_snoc branch_frame intro: that)
  show ?case
  proof (cases k)
    case 0
    then obtain g where "fs = [g]" using snoc.prems(2) by (auto simp: length_Suc_conv)
    then show ?thesis
      using snoc.prems(1,4,5) 0 top by (force simp: collides_def)
  next
    case (Suc m)
    let ?l = "take (2 ^ m) fs" and ?r = "drop (2 ^ m) fs"
    have "branch_frame a b = branch_frame (mroot H m (map H ?l)) (mroot H m (map H ?r))"
      using no_collision [OF snoc.prems(5)] top snoc.prems(1) Suc
      by (auto simp: branch_frame take_map drop_map)
    then have "?c = mroot H m (map H ?l) \<or> ?c = mroot H m (map H ?r)"
      using ab branch_frame_inject by metis
    moreover have "\<forall>g \<in> set ?l. \<forall>a b. g \<noteq> branch_frame a b" "\<forall>g \<in> set ?r. \<forall>a b. g \<noteq> branch_frame a b"
      using snoc.prems(4) by (meson in_set_takeD in_set_dropD)+
    moreover have "\<not> collides H (f # climb_frames H (H f) p ss) (?l @ tree_frames H m (map H ?l))"
      "\<not> collides H (f # climb_frames H (H f) p ss) (?r @ tree_frames H m (map H ?r))"
      by (rule collides_antimono [OF snoc.prems(5)];
          auto simp: climb_frames_snoc take_map drop_map Suc dest: in_set_takeD in_set_dropD)+
    ultimately have "f \<in> set ?l \<or> f \<in> set ?r"
      using snoc.IH [of m ?l] snoc.IH [of m ?r] snoc.prems(2,3) Suc by auto
    then show ?thesis by (meson in_set_takeD in_set_dropD)
  qed
qed

lemma climb_mod: "climb H c (p mod 2 ^ length ss) ss = climb H c p ss"
proof (induction ss arbitrary: c p)
  case (Cons s ss)
  have "p mod 2 ^ length (s # ss) div 2 = p div 2 mod 2 ^ length ss"
    by (simp add: mod_mult2_eq)
  moreover have "p mod 2 ^ length (s # ss) mod 2 = p mod 2" by (simp add: mod_mod_cancel)
  ultimately show ?case using Cons by simp
qed simp

lemma climb_frames_mod: "climb_frames H c (p mod 2 ^ length ss) ss = climb_frames H c p ss"
proof (induction ss arbitrary: c p)
  case (Cons s ss)
  have "p mod 2 ^ length (s # ss) div 2 = p div 2 mod 2 ^ length ss"
    by (simp add: mod_mult2_eq)
  moreover have "p mod 2 ^ length (s # ss) mod 2 = p mod 2" by (simp add: mod_mod_cancel)
  ultimately show ?case using Cons by simp
qed simp

lemma climb_index_sound:
  assumes "climb H c p ss = mroot H k xs" "length xs = 2 ^ k" "length ss = k" "p < 2 ^ k"
    and "\<not> collides H (climb_frames H c p ss) (tree_frames H k xs)"
  shows "c = xs ! p"
  using assms
proof (induction ss arbitrary: k xs p rule: rev_induct)
  case Nil
  then show ?case by (cases xs) simp_all
next
  case (snoc s ss)
  define m where "m = length ss"
  let ?l = "take (2 ^ m) xs" and ?r = "drop (2 ^ m) xs"
  let ?c = "climb H c p ss"
  have k: "k = Suc m" using snoc.prems(3) by (simp add: m_def)
  have q: "p div 2 ^ m < 2" using snoc.prems(4) k by (simp add: less_mult_imp_div_less)
  define f where "f = (if p div 2 ^ m mod 2 = 0 then branch_frame ?c s else branch_frame s ?c)"
  have "H f = H (branch_frame (mroot H m ?l) (mroot H m ?r))"
    using snoc.prems(1) by (auto simp: k f_def climb_snoc branch_frame m_def)
  then have f: "f = branch_frame (mroot H m ?l) (mroot H m ?r)"
    using no_collision [OF snoc.prems(5)] by (simp add: climb_frames_snoc k f_def m_def)
  have nc: "\<not> collides H (climb_frames H c p ss) (tree_frames H m ?l)"
    "\<not> collides H (climb_frames H c p ss) (tree_frames H m ?r)"
    by (rule collides_antimono [OF snoc.prems(5)]; auto simp: climb_frames_snoc k)+
  show ?case
  proof (cases "p < 2 ^ m")
    case True
    then have "?c = mroot H m ?l" using f branch_frame_inject by (auto simp: f_def)
    then have "c = ?l ! p" using True nc(1) snoc.prems(2) k by (intro snoc.IH) (auto simp: m_def)
    then show ?thesis using True by simp
  next
    case False
    then have p: "p mod 2 ^ m = p - 2 ^ m" "p div 2 ^ m = 1"
      using q snoc.prems(4) k by (auto simp: mod_if le_div_geq)
    then have "?c = mroot H m ?r" using f branch_frame_inject by (auto simp: f_def)
    then have "climb H c (p - 2 ^ m) ss = mroot H m ?r"
      using climb_mod [of H c p ss] p by (simp add: m_def)
    moreover have "climb_frames H c (p - 2 ^ m) ss = climb_frames H c p ss"
      using climb_frames_mod [of H c p ss] p by (simp add: m_def)
    ultimately have "c = ?r ! (p - 2 ^ m)"
      using snoc.prems(2,4) k nc(2) by (intro snoc.IH) (auto simp: m_def)
    then show ?thesis using False snoc.prems(2,4) k by simp
  qed
qed

lemma merkle_Root_frames:
  "merkle_Root H (map H fs) =
     (let k = depth_of (length fs); gs = fs @ replicate (2 ^ k - length fs) empty_frame
      in mroot H k (map H gs))"
proof (cases "fs = []")
  case True
  have "depth_of 0 = 0"
    using halvings_power [of 0] by (simp add: depth_of_def nextPowerOfTwo_def)
  then show ?thesis using True by (simp add: merkle_Root_def empty_frame)
next
  case False
  then show ?thesis
    by (simp add: merkle_Root_mroot padded_def Let_def empty_frame map_replicate_const [symmetric] flip: map_replicate)
qed

lemma length_le_depth: "n \<le> 2 ^ depth_of n"
  using nextPowerOfTwo_ge [of n] by (simp add: nextPowerOfTwo_power)

lemma membership:
  assumes "merkle_Verify H (merkle_Root H (map (Leaf H d) ps)) (Leaf H d q) prf"
    and "length d + 22 < 2 ^ 32" "\<forall>p \<in> set (q # ps). length p < 2 ^ 32"
  shows "q \<in> set ps \<or>
    collides H (leaf_frame d q # climb_frames H (Leaf H d q) (unat (mp_Index prf)) (mp_Siblings prf))
      (root_frames H (map (leaf_frame d) ps))"
proof (rule disjCI)
  let ?fs = "map (leaf_frame d) ps"
  let ?k = "depth_of (length ?fs)"
  let ?gs = "?fs @ replicate (2 ^ ?k - length ?fs) empty_frame"
  assume nc: "\<not> collides H (leaf_frame d q # climb_frames H (Leaf H d q) (unat (mp_Index prf)) (mp_Siblings prf))
      (root_frames H ?fs)"
  have l: "map (Leaf H d) ps = map H ?fs" by (simp add: leaf_frame)
  have "climb H (Leaf H d q) (unat (mp_Index prf)) (mp_Siblings prf) = merkle_Root H (map (Leaf H d) ps)"
    using assms(1) by (simp add: merkle_Verify_def split: if_splits)
  also have "\<dots> = mroot H ?k (map H ?gs)"
    using merkle_Root_frames [of H ?fs] by (simp only: l Let_def)
  finally have c: "climb H (H (leaf_frame d q)) (unat (mp_Index prf)) (mp_Siblings prf) = mroot H ?k (map H ?gs)"
    by (simp only: leaf_frame)
  have len: "length ?gs = 2 ^ ?k" using length_le_depth [of "length ?fs"] by simp
  have q: "leaf_frame d q \<noteq> branch_frame a b" "leaf_frame d q \<noteq> empty_frame" for a b
    using assms(2,3) by (simp_all add: leaf_frame_neq_branch_frame leaf_frame_neq_empty_frame)
  have gs: "\<forall>g \<in> set ?gs. \<forall>a b. g \<noteq> branch_frame a b"
    using assms(2,3) by (auto simp: leaf_frame_neq_branch_frame [symmetric] branch_frame_neq_empty_frame)
  have "\<not> collides H (leaf_frame d q # climb_frames H (H (leaf_frame d q)) (unat (mp_Index prf)) (mp_Siblings prf))
      (?gs @ tree_frames H ?k (map H ?gs))"
    using nc unfolding root_frames_def Let_def leaf_frame .
  with c len _ gs have "leaf_frame d q \<in> set ?gs"
    by (rule climb_sound) (use q in blast)
  then obtain p where "p \<in> set ps" "leaf_frame d q = leaf_frame d p"
    using q by (auto split: if_splits)
  then show "q \<in> set ps"
    using assms(2,3) leaf_frame_inject [of d q p] by simp
qed

lemma BuildProof_verifies:
  assumes "i < length leaves" "length leaves < 2 ^ 32"
  shows "\<exists>p. BuildProof H leaves (int i) = Inr p \<and>
    merkle_Verify H (merkle_Root H leaves) (leaves ! i) p"
proof -
  let ?k = "depth_of (length leaves)"
  let ?p = "\<lparr>mp_Index = of_int (int i), mp_LeafCount = of_nat (length leaves),
    mp_Siblings = proof_loop H (padded H leaves (2 ^ ?k)) (2 ^ ?k) i\<rparr>"
  have b: "BuildProof H leaves (int i) = Inr ?p"
    using assms by (simp add: BuildProof_def Let_def nextPowerOfTwo_power)
  have idx: "unat (of_nat i :: u32) = i" "unat (of_nat (length leaves) :: u32) = length leaves"
    using assms by (simp_all add: unat_of_nat_small)
  have ne: "leaves \<noteq> []" using assms(1) by auto
  have len: "length leaves \<le> 2 ^ ?k" by (rule length_le_depth)
  then have "climb H (leaves ! i) i (mp_Siblings ?p) = merkle_Root H leaves"
    "length (mp_Siblings ?p) = ?k"
    using climb_proof_loop [of ?k "padded H leaves (2 ^ ?k)" i H] assms
    by (auto simp: merkle_Root_mroot [OF ne])
  then have "merkle_Verify H (merkle_Root H leaves) (leaves ! i) ?p"
    using idx assms by (auto simp: merkle_Verify_def depth_of_def word_le_nat_alt word_unat_eq_iff unat_eq_0)
  with b show ?thesis by blast
qed

text \<open>
  The strings hashed when every leaf of one tree is proved, for comparing two trees with the same root.
\<close>

definition proofs_frames :: "hashfun \<Rightarrow> string \<Rightarrow> byte list list \<Rightarrow> byte list list" where
  "proofs_frames H d ps =
     concat (map (\<lambda>i. case BuildProof H (map (Leaf H d) ps) (int i) of
         Inl _ \<Rightarrow> []
       | Inr p \<Rightarrow> leaf_frame d (ps ! i) # climb_frames H (Leaf H d (ps ! i)) (unat (mp_Index p)) (mp_Siblings p)) [0..<length ps])"

lemma roots_agree:
  assumes "merkle_Root H (map (Leaf H d) ps) = merkle_Root H (map (Leaf H d) qs)" "q \<in> set ps"
    and "length d + 22 < 2 ^ 32" "\<forall>p \<in> set (ps @ qs). length p < 2 ^ 32" "length ps < 2 ^ 32"
    and "\<not> collides H (proofs_frames H d ps) (root_frames H (map (leaf_frame d) qs))"
  shows "q \<in> set qs"
proof -
  obtain i where i: "i < length ps" "ps ! i = q" using assms(2) by (auto simp: in_set_conv_nth)
  then obtain p where p: "BuildProof H (map (Leaf H d) ps) (int i) = Inr p"
      "merkle_Verify H (merkle_Root H (map (Leaf H d) qs)) (Leaf H d q) p"
    using BuildProof_verifies [of i "map (Leaf H d) ps" H] assms(1,5) by auto
  have "set (leaf_frame d q # climb_frames H (Leaf H d q) (unat (mp_Index p)) (mp_Siblings p)) \<subseteq> set (proofs_frames H d ps)"
    using i p(1) by (force simp: proofs_frames_def)
  then have "\<not> collides H (leaf_frame d q # climb_frames H (Leaf H d q) (unat (mp_Index p)) (mp_Siblings p))
      (root_frames H (map (leaf_frame d) qs))"
    using collides_antimono [OF assms(6)] by blast
  then show ?thesis using membership [OF p(2)] assms(2,3,4) by simp
qed

lemmas merkle_eval = merkle_Verify_def merkle_Root_def nextPowerOfTwo_def double_until.simps
  halvings.simps root_loop.simps reduce_level.simps padded_def Leaf_def branch_def Let_def word_le_nat_alt

text \<open>
  C12. For every leaf of a tree with fewer than 2 ^ 32 leaves, \<open>BuildProof\<close> returns a proof and
  \<open>Verify\<close> accepts it against the root that \<open>Root\<close> computes in its in-place buffer.
\<close>

theorem merkle_proof_complete:
  assumes "i < length leaves" "length leaves < 2 ^ 32"
  shows "\<exists>p. BuildProof H leaves (int i) = Inr p \<and>
    merkle_Verify H (merkle_Root H leaves) (leaves ! i) p"
  using assms by (rule BuildProof_verifies)

theorem merkle_proof_complete_witness:
  "2 < length [10, 20, 30 :: hash] \<and> length [10, 20, 30 :: hash] < 2 ^ 32 \<and>
   (\<exists>p. BuildProof toy_hash [10, 20, 30] (int 2) = Inr p \<and>
     merkle_Verify toy_hash (merkle_Root toy_hash [10, 20, 30]) ([10, 20, 30] ! 2) p)"
  using merkle_proof_complete [of 2 "[10, 20, 30]" toy_hash] by simp

text \<open>
  C11. An accepted Merkle proof for the leaf of a payload shows that the payload is one of those
  the tree was built from, whatever leaf count and index the proof claims, unless two of the
  strings hashed by the verifier and by the builder collide. A proof cannot pass an inner node
  off as a leaf, nor descend below a leaf.
\<close>

theorem merkle_membership_sound:
  assumes "merkle_Verify H (merkle_Root H (map (Leaf H d) ps)) (Leaf H d q) prf"
    and "length d + 22 < 2 ^ 32" "\<forall>p \<in> set (q # ps). length p < 2 ^ 32"
  shows "q \<in> set ps \<or>
    collides H (leaf_frame d q # climb_frames H (Leaf H d q) (unat (mp_Index prf)) (mp_Siblings prf))
      (root_frames H (map (leaf_frame d) ps))"
  using assms by (rule membership)

theorem merkle_membership_sound_witness:
  "merkle_Verify toy_hash (merkle_Root toy_hash (map (Leaf toy_hash ''x'') [[1], [2]])) (Leaf toy_hash ''x'' [2])
     \<lparr>mp_Index = 1, mp_LeafCount = 2, mp_Siblings = [Leaf toy_hash ''x'' [1]]\<rparr> \<and>
   ([2] \<in> set [[1], [2 :: byte]] \<or>
    collides toy_hash (leaf_frame ''x'' [2] # climb_frames toy_hash (Leaf toy_hash ''x'' [2]) 1 [Leaf toy_hash ''x'' [1]])
      (root_frames toy_hash (map (leaf_frame ''x'') [[1], [2]])))"
proof -
  have v: "merkle_Verify toy_hash (merkle_Root toy_hash (map (Leaf toy_hash ''x'') [[1], [2]])) (Leaf toy_hash ''x'' [2])
     \<lparr>mp_Index = 1, mp_LeafCount = 2, mp_Siblings = [Leaf toy_hash ''x'' [1]]\<rparr>"
    by (simp add: merkle_eval)
  show ?thesis using v merkle_membership_sound [OF v] by simp
qed

text \<open>
  When the proof claims the true number of leaves, the accepted leaf is the one at the claimed
  index, unless two of the hashed strings collide.
\<close>

theorem merkle_index_sound:
  assumes "merkle_Verify H (merkle_Root H leaves) leaf prf"
    and "unat (mp_LeafCount prf) = length leaves"
  shows "leaf = leaves ! unat (mp_Index prf) \<or>
    collides H (climb_frames H leaf (unat (mp_Index prf)) (mp_Siblings prf))
      (tree_frames H (depth_of (length leaves)) (padded H leaves (2 ^ depth_of (length leaves))))"
proof (rule disjCI)
  let ?k = "depth_of (length leaves)"
  assume nc: "\<not> collides H (climb_frames H leaf (unat (mp_Index prf)) (mp_Siblings prf))
      (tree_frames H ?k (padded H leaves (2 ^ ?k)))"
  have v: "unat (mp_Index prf) < length leaves" "length (mp_Siblings prf) = ?k"
    "climb H leaf (unat (mp_Index prf)) (mp_Siblings prf) = merkle_Root H leaves"
    using assms by (auto simp: merkle_Verify_def depth_of_def word_le_nat_alt split: if_splits)
  then have ne: "leaves \<noteq> []" by auto
  have "leaf = padded H leaves (2 ^ ?k) ! unat (mp_Index prf)"
    using v nc length_le_depth [of "length leaves"] ne
    by (intro climb_index_sound [where k = ?k]) (auto simp: merkle_Root_mroot)
  then show "leaf = leaves ! unat (mp_Index prf)" using v by simp
qed

theorem merkle_index_sound_witness:
  "(10 :: hash) = [10, 20] ! 0 \<or>
    collides toy_hash (climb_frames toy_hash 10 0 [20])
      (tree_frames toy_hash (depth_of 2) (padded toy_hash [10, 20] (2 ^ depth_of 2)))"
proof -
  have v: "merkle_Verify toy_hash (merkle_Root toy_hash [10, 20]) 10
     \<lparr>mp_Index = 0, mp_LeafCount = 2, mp_Siblings = [20]\<rparr>"
    by (simp add: merkle_eval)
  show ?thesis using merkle_index_sound [OF v] by (simp add: numeral_2_eq_2)
qed

text \<open>
  The wire parser of a Merkle proof accepts exactly the canonical encodings of proofs whose
  index is below the leaf count and which have at most 32 siblings: parsing inverts
  \<open>MarshalBinary\<close> and no two byte strings parse to the same proof.
\<close>

theorem ParseMerkleProof_iff:
  "ParseMerkleProof bs = Inr p \<longleftrightarrow>
     bs = MarshalMerkleProof p \<and> mp_Index p < mp_LeafCount p \<and> length (mp_Siblings p) \<le> 32"
proof
  assume "ParseMerkleProof bs = Inr p"
  then show "bs = MarshalMerkleProof p \<and> mp_Index p < mp_LeafCount p \<and> length (mp_Siblings p) \<le> 32"
    by (auto simp: ParseMerkleProof_def MarshalMerkleProof_def wire_iff Fixed32.r_many_iff not_less not_le word_le_nat_alt word_less_nat_alt)
next
  assume p: "bs = MarshalMerkleProof p \<and> mp_Index p < mp_LeafCount p \<and> length (mp_Siblings p) \<le> 32"
  then have "unat (of_nat (length (mp_Siblings p)) :: u32) = length (mp_Siblings p)"
    by (simp add: unat_of_nat_small)
  then show "ParseMerkleProof bs = Inr p"
    using p by (auto simp: ParseMerkleProof_def MarshalMerkleProof_def Fixed32.many_back_end word_less_nat_alt not_le)
qed

end
