(* ===== verification/Objects.thy ===== *)
theory Objects
  imports Codec
begin

text \<open>
  Protocol objects and coins (\<open>internal/v2/object/object.go\<close>).

  \<open>Kind\<close> is an open \<open>uint16\<close> in the code, and the parser lets every non-zero value through,
  so it is a 16-bit word here with the named kinds as abbreviations. The message formats are
  interpretations of \<open>canonical_wire\<close>: each parser accepts exactly the encodings of valid values.
\<close>

type_synonym kind = u16

abbreviation KindUnknown :: kind where "KindUnknown \<equiv> 0"
abbreviation KindCoin :: kind where "KindCoin \<equiv> 1"
abbreviation KindTokenDefinition :: kind where "KindTokenDefinition \<equiv> 2"
abbreviation KindContract :: kind where "KindContract \<equiv> 3"
abbreviation KindContractState :: kind where "KindContractState \<equiv> 4"
abbreviation KindComputeOffer :: kind where "KindComputeOffer \<equiv> 5"
abbreviation KindComputeJob :: kind where "KindComputeJob \<equiv> 6"
abbreviation KindComputeAssignment :: kind where "KindComputeAssignment \<equiv> 7"
abbreviation KindComputeResult :: kind where "KindComputeResult \<equiv> 8"
abbreviation KindLoanOffer :: kind where "KindLoanOffer \<equiv> 9"
abbreviation KindLoan :: kind where "KindLoan \<equiv> 10"
abbreviation KindSystem :: kind where "KindSystem \<equiv> 11"
abbreviation KindDeviceCredential :: kind where "KindDeviceCredential \<equiv> 12"
abbreviation KindCrossLoanOffer :: kind where "KindCrossLoanOffer \<equiv> 13"
abbreviation KindCrossLoanAcceptance :: kind where "KindCrossLoanAcceptance \<equiv> 14"
abbreviation KindCrossLoanActivation :: kind where "KindCrossLoanActivation \<equiv> 15"
abbreviation KindCrossLoanRepayment :: kind where "KindCrossLoanRepayment \<equiv> 16"

abbreviation MaxObjectDataBytes :: nat where "MaxObjectDataBytes \<equiv> 1048576"

record Object =
  obj_ID :: objectid
  obj_Version :: u64
  obj_Owner :: accountid
  obj_Kind :: kind
  obj_Data :: "byte list"

record OutputSpec =
  os_Owner :: accountid
  os_Kind :: kind
  os_Data :: "byte list"

record Coin =
  coin_Token :: tokenid
  coin_Amount :: u64
  coin_CreatedHeight :: u64

definition validateOwnerForKind :: "accountid \<Rightarrow> kind \<Rightarrow> unit result" where
  "validateOwnerForKind owner kind =
     (if kind = KindSystem then Inr ()
      else if IsZero32 owner then Inl ErrInvalidObject else Inr ())"

definition Object_Validate :: "Object \<Rightarrow> unit result" where
  "Object_Validate o' =
     (if IsZero32 (obj_ID o') \<or> obj_Version o' = 0 \<or> obj_Kind o' = KindUnknown \<or>
         MaxObjectDataBytes < length (obj_Data o') then Inl ErrInvalidObject
      else validateOwnerForKind (obj_Owner o') (obj_Kind o'))"

definition OutputSpec_Validate :: "OutputSpec \<Rightarrow> unit result" where
  "OutputSpec_Validate o' =
     (if os_Kind o' = KindUnknown \<or> MaxObjectDataBytes < length (os_Data o') then Inl ErrInvalidObject
      else validateOwnerForKind (os_Owner o') (os_Kind o'))"

definition Object_CanonicalBytes :: "Object \<Rightarrow> byte list" where
  "Object_CanonicalBytes o' =
     w_Fixed32 (obj_ID o') @ w_U64 (obj_Version o') @ w_Fixed32 (obj_Owner o') @
     w_U16 (obj_Kind o') @ w_Bytes (obj_Data o')"

definition ParseObject :: "byte list \<Rightarrow> Object result" where
  "ParseObject data =
     tryAs ErrInvalidObject (r_Fixed32 data) (\<lambda>(oid, r).
     tryAs ErrInvalidObject (r_U64 r) (\<lambda>(version, r).
     tryAs ErrInvalidObject (r_Fixed32 r) (\<lambda>(owner, r).
     tryAs ErrInvalidObject (r_U16 r) (\<lambda>(kind, r).
     tryAs ErrInvalidObject (r_Bytes 1048576 r) (\<lambda>(payload, r).
     tryAs ErrInvalidObject (r_Done r) (\<lambda>_.
     let out = \<lparr>obj_ID = oid, obj_Version = version, obj_Owner = owner, obj_Kind = kind, obj_Data = payload\<rparr>
     in tryE (Object_Validate out) (\<lambda>_. Inr out)))))))"

definition OutputSpec_CanonicalBytes :: "OutputSpec \<Rightarrow> byte list" where
  "OutputSpec_CanonicalBytes o' =
     w_Fixed32 (os_Owner o') @ w_U16 (os_Kind o') @ w_Bytes (os_Data o')"

definition ParseOutputSpec :: "byte list \<Rightarrow> OutputSpec result" where
  "ParseOutputSpec data =
     tryAs ErrInvalidObject (r_Fixed32 data) (\<lambda>(owner, r).
     tryAs ErrInvalidObject (r_U16 r) (\<lambda>(kind, r).
     tryAs ErrInvalidObject (r_Bytes 1048576 r) (\<lambda>(payload, r).
     tryAs ErrInvalidObject (r_Done r) (\<lambda>_.
     let out = \<lparr>os_Owner = owner, os_Kind = kind, os_Data = payload\<rparr>
     in tryE (OutputSpec_Validate out) (\<lambda>_. Inr out)))))"

definition Object_Hash :: "hashfun \<Rightarrow> Object \<Rightarrow> hash" where
  "Object_Hash H o' = DomainHash H ''zephyr/object/v2'' (Object_CanonicalBytes o')"

definition OutputSpec_Hash :: "hashfun \<Rightarrow> OutputSpec \<Rightarrow> hash" where
  "OutputSpec_Hash H o' = DomainHash H ''zephyr/output-spec/v2'' (OutputSpec_CanonicalBytes o')"

definition Coin_MarshalBinary :: "Coin \<Rightarrow> byte list" where
  "Coin_MarshalBinary c =
     w_Fixed32 (coin_Token c) @ w_U64 (coin_Amount c) @ w_U64 (coin_CreatedHeight c)"

definition ParseCoin :: "byte list \<Rightarrow> Coin result" where
  "ParseCoin data =
     tryAs ErrInvalidCoin (r_Fixed32 data) (\<lambda>(token, r).
     tryAs ErrInvalidCoin (r_U64 r) (\<lambda>(amount, r).
     if amount = 0 then Inl ErrInvalidCoin else
     tryAs ErrInvalidCoin (r_U64 r) (\<lambda>(createdHeight, r).
     tryAs ErrInvalidCoin (r_Done r) (\<lambda>_.
     if IsZero32 token then Inl ErrInvalidCoin
     else Inr \<lparr>coin_Token = token, coin_Amount = amount, coin_CreatedHeight = createdHeight\<rparr>))))"

definition NewCoinOutputAtHeight :: "accountid \<Rightarrow> tokenid \<Rightarrow> u64 \<Rightarrow> u64 \<Rightarrow> OutputSpec result" where
  "NewCoinOutputAtHeight owner token amount createdHeight =
     (if IsZero32 owner \<or> IsZero32 token \<or> amount = 0 then Inl ErrInvalidCoin
      else
        let out = \<lparr>os_Owner = owner, os_Kind = KindCoin,
                   os_Data = Coin_MarshalBinary \<lparr>coin_Token = token, coin_Amount = amount,
                                                coin_CreatedHeight = createdHeight\<rparr>\<rparr>
        in tryE (OutputSpec_Validate out) (\<lambda>_. Inr out))"

definition NewCoinOutput :: "accountid \<Rightarrow> tokenid \<Rightarrow> u64 \<Rightarrow> OutputSpec result" where
  "NewCoinOutput owner token amount = NewCoinOutputAtHeight owner token amount 0"

subsection \<open>The message formats\<close>

definition object_valid :: "Object \<Rightarrow> bool" where
  "object_valid o' \<longleftrightarrow> obj_ID o' \<noteq> 0 \<and> obj_Version o' \<noteq> 0 \<and> obj_Kind o' \<noteq> KindUnknown \<and>
     length (obj_Data o') \<le> MaxObjectDataBytes \<and> (obj_Kind o' = KindSystem \<or> obj_Owner o' \<noteq> 0)"

definition output_valid :: "OutputSpec \<Rightarrow> bool" where
  "output_valid o' \<longleftrightarrow> os_Kind o' \<noteq> KindUnknown \<and>
     length (os_Data o') \<le> MaxObjectDataBytes \<and> (os_Kind o' = KindSystem \<or> os_Owner o' \<noteq> 0)"

definition coin_valid :: "Coin \<Rightarrow> bool" where
  "coin_valid c \<longleftrightarrow> coin_Token c \<noteq> 0 \<and> coin_Amount c \<noteq> 0"

lemma Object_Validate_iff: "Object_Validate o' = Inr u \<longleftrightarrow> object_valid o'"
  by (auto simp: Object_Validate_def object_valid_def validateOwnerForKind_def IsZero32_def)

lemma OutputSpec_Validate_iff: "OutputSpec_Validate o' = Inr u \<longleftrightarrow> output_valid o'"
  by (auto simp: OutputSpec_Validate_def output_valid_def validateOwnerForKind_def IsZero32_def)

lemma length_Object_CanonicalBytes:
  "length (Object_CanonicalBytes o') = 78 + length (obj_Data o')"
  by (simp add: Object_CanonicalBytes_def)

lemma length_OutputSpec_CanonicalBytes:
  "length (OutputSpec_CanonicalBytes o') = 38 + length (os_Data o')"
  by (simp add: OutputSpec_CanonicalBytes_def)

lemma length_Coin_MarshalBinary [simp]: "length (Coin_MarshalBinary c) = 48"
  by (simp add: Coin_MarshalBinary_def)

interpretation ObjectWire: canonical_wire Object_CanonicalBytes ParseObject object_valid
proof
  fix bs and x :: Object
  show "ParseObject bs = Inr x \<longleftrightarrow> object_valid x \<and> bs = Object_CanonicalBytes x"
    by (cases x) (auto simp: ParseObject_def Object_CanonicalBytes_def wire_iff Object_Validate_iff
      object_valid_def Let_def)
qed

interpretation OutputWire: canonical_wire OutputSpec_CanonicalBytes ParseOutputSpec output_valid
proof
  fix bs and x :: OutputSpec
  show "ParseOutputSpec bs = Inr x \<longleftrightarrow> output_valid x \<and> bs = OutputSpec_CanonicalBytes x"
    by (cases x) (auto simp: ParseOutputSpec_def OutputSpec_CanonicalBytes_def wire_iff
      OutputSpec_Validate_iff output_valid_def Let_def)
qed

interpretation CoinWire: canonical_wire Coin_MarshalBinary ParseCoin coin_valid
proof
  fix bs and x :: Coin
  show "ParseCoin bs = Inr x \<longleftrightarrow> coin_valid x \<and> bs = Coin_MarshalBinary x"
    by (cases x) (auto simp: ParseCoin_def Coin_MarshalBinary_def wire_iff coin_valid_def IsZero32_def)
qed

lemma NewCoinOutputAtHeight_iff:
  "NewCoinOutputAtHeight owner token amount h = Inr out \<longleftrightarrow>
     owner \<noteq> 0 \<and> token \<noteq> 0 \<and> amount \<noteq> 0 \<and>
     out = \<lparr>os_Owner = owner, os_Kind = KindCoin,
            os_Data = Coin_MarshalBinary \<lparr>coin_Token = token, coin_Amount = amount, coin_CreatedHeight = h\<rparr>\<rparr>"
  by (auto simp: NewCoinOutputAtHeight_def IsZero32_def Let_def OutputSpec_Validate_iff output_valid_def)

lemma ParseCoin_Marshal [simp]: "coin_valid c \<Longrightarrow> ParseCoin (Coin_MarshalBinary c) = Inr c"
  by (rule CoinWire.parse_enc)

end
