(* ===== verification/Sharding.thy ===== *)
theory Sharding
  imports Merkle Objects
begin

text \<open>
  Shard routing, shard commitments, global headers and cross-shard receipts (\<open>internal/v2/sharding\<close>:
  \<open>sharding.go\<close>, \<open>receipts.go\<close>, \<open>wire.go\<close>, \<open>global_header_binary.go\<close>).

  \<open>sort.Slice\<close> is \<open>sort_key\<close>: equal keys are rejected right after each sort, so that the order
  the unstable sort leaves them in cannot be observed. \<open>sort.Search\<close> is the bisection of the standard library.
  The receipt tracker is its map of consumed receipt hashes.

  The lemmas show that a commitment root does not depend on the order of the commitments, that the proofs
  handed out verify, that an accepted finalized receipt was committed to by both roots (or a collision
  is exhibited), that no receipt is consumed twice, and that the message parsers are canonical.
\<close>

subsection \<open>Routing\<close>

record Router =
  rt_ShardCount :: u32

definition ShardForAccount :: "Router \<Rightarrow> accountid \<Rightarrow> u32 result" where
  "ShardForAccount r account =
     (if rt_ShardCount r = 0 \<or> IsZero32 account then Inl ErrShardCount
      else Inr (AccountShard account (rt_ShardCount r)))"

definition ShardForObject :: "Router \<Rightarrow> objectid \<Rightarrow> u32 result" where
  "ShardForObject r oid =
     (if rt_ShardCount r = 0 \<or> IsZero32 oid then Inl ErrShardCount
      else let shard = ObjectShard oid
           in if rt_ShardCount r \<le> shard then Inl ErrShardCount else Inr shard)"

subsection \<open>Shard commitments\<close>

record Commitment =
  cm_ShardID :: u32
  cm_StateRoot :: hash
  cm_ReceiptRoot :: hash
  cm_DataRoot :: hash

definition Commitment_CanonicalBytes :: "Commitment \<Rightarrow> byte list" where
  "Commitment_CanonicalBytes c =
     w_U32 (cm_ShardID c) @ w_Fixed32 (cm_StateRoot c) @ w_Fixed32 (cm_ReceiptRoot c) @ w_Fixed32 (cm_DataRoot c)"

definition Commitment_Hash :: "hashfun \<Rightarrow> Commitment \<Rightarrow> hash" where
  "Commitment_Hash H c = Leaf H ''shard-commitment'' (Commitment_CanonicalBytes c)"

fun strictly_ordered :: "Commitment list \<Rightarrow> bool" where
  "strictly_ordered (a # b # cs) \<longleftrightarrow>
     (if cm_ShardID a \<ge> cm_ShardID b then False else strictly_ordered (b # cs))"
| "strictly_ordered _ \<longleftrightarrow> True"

fun check_commitments :: "Commitment option \<Rightarrow> Commitment list \<Rightarrow> unit result" where
  "check_commitments prev [] = Inr ()"
| "check_commitments prev (c # cs) =
     (if (case prev of None \<Rightarrow> False | Some p \<Rightarrow> cm_ShardID p = cm_ShardID c) then Inl ErrShardCount
      else if IsZero32 (cm_StateRoot c) then Inl ErrShardCount
      else check_commitments (Some c) cs)"

definition sortedCommitments :: "Commitment list \<Rightarrow> Commitment list result" where
  "sortedCommitments inp =
     (if inp = [] then Inl ErrShardCount
      else
        let out = (if strictly_ordered inp then inp else sort_key cm_ShardID inp)
        in tryE (check_commitments None out) (\<lambda>_. Inr out))"

definition CommitmentRoot :: "hashfun \<Rightarrow> Commitment list \<Rightarrow> hash result" where
  "CommitmentRoot H commitments =
     tryE (sortedCommitments commitments) (\<lambda>sorted. Inr (merkle_Root H (map (Commitment_Hash H) sorted)))"

fun find_commitment :: "u32 \<Rightarrow> nat \<Rightarrow> Commitment list \<Rightarrow> (nat \<times> Commitment) option" where
  "find_commitment shardID i [] = None"
| "find_commitment shardID i (c # cs) =
     (if cm_ShardID c = shardID then Some (i, c) else find_commitment shardID (i + 1) cs)"

definition CommitmentProof :: "hashfun \<Rightarrow> Commitment list \<Rightarrow> u32 \<Rightarrow> (Commitment \<times> MerkleProof) result" where
  "CommitmentProof H commitments shardID =
     tryE (sortedCommitments commitments) (\<lambda>sorted.
       case find_commitment shardID 0 sorted of
         None \<Rightarrow> Inl ErrReceipt
       | Some (i, c) \<Rightarrow>
           tryE (BuildProof H (map (Commitment_Hash H) sorted) (int i)) (\<lambda>proof'. Inr (c, proof')))"

definition SameCommitment :: "Commitment \<Rightarrow> Commitment \<Rightarrow> bool" where
  "SameCommitment a b \<longleftrightarrow>
     cm_ShardID a = cm_ShardID b \<and> Commitment_CanonicalBytes a = Commitment_CanonicalBytes b"

subsection \<open>Global headers\<close>

record GlobalHeader =
  hdr_Version :: u16
  hdr_Network :: networkid
  hdr_Height :: u64
  hdr_ParentHash :: hash
  hdr_ShardCommitmentRoot :: hash
  hdr_ValidatorRoot :: hash
  hdr_NextValidatorRoot :: hash
  hdr_DataRoot :: hash
  hdr_CertificateHash :: hash

definition EffectiveNextValidatorRoot :: "GlobalHeader \<Rightarrow> hash" where
  "EffectiveNextValidatorRoot h =
     (if IsZero32 (hdr_NextValidatorRoot h) then hdr_ValidatorRoot h else hdr_NextValidatorRoot h)"

definition GlobalHeader_CanonicalBytes :: "GlobalHeader \<Rightarrow> byte list" where
  "GlobalHeader_CanonicalBytes h =
     w_U16 (hdr_Version h) @ w_Fixed32 (hdr_Network h) @ w_U64 (hdr_Height h) @
     w_Fixed32 (hdr_ParentHash h) @ w_Fixed32 (hdr_ShardCommitmentRoot h) @
     w_Fixed32 (hdr_ValidatorRoot h) @ w_Fixed32 (hdr_NextValidatorRoot h) @
     w_Fixed32 (hdr_DataRoot h) @ w_Fixed32 (hdr_CertificateHash h)"

definition GlobalHeader_Hash :: "hashfun \<Rightarrow> GlobalHeader \<Rightarrow> hash" where
  "GlobalHeader_Hash H h = DomainHash H ''zephyr/global-header/v2'' (GlobalHeader_CanonicalBytes h)"

subsection \<open>Cross-shard receipts\<close>

record CrossShardReceipt =
  rc_SourceShard :: u32
  rc_DestinationShard :: u32
  rc_SourceHeight :: u64
  rc_TransactionID :: hash
  rc_OutputIndex :: u32
  rc_Output :: OutputSpec
  rc_SourceStateRoot :: hash

definition Receipt_Validate :: "CrossShardReceipt \<Rightarrow> unit result" where
  "Receipt_Validate r =
     (if rc_SourceShard r = rc_DestinationShard r \<or> rc_SourceHeight r = 0 \<or>
         IsZero32 (rc_TransactionID r) \<or> IsZero32 (rc_SourceStateRoot r) then Inl ErrReceipt
      else OutputSpec_Validate (rc_Output r))"

definition Receipt_encode :: "CrossShardReceipt \<Rightarrow> byte list" where
  "Receipt_encode r =
     w_U32 (rc_SourceShard r) @ w_U32 (rc_DestinationShard r) @ w_U64 (rc_SourceHeight r) @
     w_Fixed32 (rc_TransactionID r) @ w_U32 (rc_OutputIndex r) @
     w_Bytes (OutputSpec_CanonicalBytes (rc_Output r)) @ w_Fixed32 (rc_SourceStateRoot r)"

definition Receipt_CanonicalBytes :: "CrossShardReceipt \<Rightarrow> byte list result" where
  "Receipt_CanonicalBytes r = tryE (Receipt_Validate r) (\<lambda>_. Inr (Receipt_encode r))"

definition Receipt_Hash :: "hashfun \<Rightarrow> CrossShardReceipt \<Rightarrow> hash result" where
  "Receipt_Hash H r =
     tryE (Receipt_CanonicalBytes r) (\<lambda>payload. Inr (Leaf H ''cross-shard-receipt'' payload))"

definition DestinationObject :: "hashfun \<Rightarrow> CrossShardReceipt \<Rightarrow> Object result" where
  "DestinationObject H r =
     tryE (Receipt_Validate r) (\<lambda>_. Inr
       \<lparr>obj_ID = ObjectIDForShard H (rc_TransactionID r) (rc_OutputIndex r) (rc_DestinationShard r),
        obj_Version = 1, obj_Owner = os_Owner (rc_Output r), obj_Kind = os_Kind (rc_Output r),
        obj_Data = os_Data (rc_Output r)\<rparr>)"

subsection \<open>Receipt batches\<close>

type_synonym ReceiptBatch = "CrossShardReceipt list"

fun adjacent_equal :: "hash list \<Rightarrow> bool" where
  "adjacent_equal (a # b # hs) \<longleftrightarrow> (if b = a then True else adjacent_equal (b # hs))"
| "adjacent_equal _ \<longleftrightarrow> False"

definition sortedHashes :: "hashfun \<Rightarrow> ReceiptBatch \<Rightarrow> hash list result" where
  "sortedHashes H b =
     tryE (mapE (Receipt_Hash H) b) (\<lambda>hashes.
       let hashes = sort hashes
       in if adjacent_equal hashes then Inl ErrReceiptReplay else Inr hashes)"

definition ReceiptBatch_Root :: "hashfun \<Rightarrow> ReceiptBatch \<Rightarrow> hash result" where
  "ReceiptBatch_Root H b = tryE (sortedHashes H b) (\<lambda>hashes. Inr (merkle_Root H hashes))"

function sort_Search :: "(nat \<Rightarrow> bool) \<Rightarrow> nat \<Rightarrow> nat \<Rightarrow> nat" where
  "sort_Search f i j =
     (if i < j then
        let h = (i + j) div 2
        in if \<not> f h then sort_Search f (h + 1) j else sort_Search f i h
      else i)"
  by pat_completeness auto

termination sort_Search
  by (relation "measure (\<lambda>(f, i, j). j - i)") auto

declare sort_Search.simps [simp del]

definition ReceiptBatch_Proof :: "hashfun \<Rightarrow> ReceiptBatch \<Rightarrow> CrossShardReceipt \<Rightarrow> MerkleProof result" where
  "ReceiptBatch_Proof H b receipt =
     tryE (Receipt_Hash H receipt) (\<lambda>target.
     tryE (sortedHashes H b) (\<lambda>hashes.
     let index = sort_Search (\<lambda>i. hashes ! i \<ge> target) 0 (length hashes)
     in if index = length hashes \<or> hashes ! index \<noteq> target then Inl ErrReceiptProof
        else BuildProof H hashes (int index)))"

definition VerifyFinalizedReceipt ::
  "hashfun \<Rightarrow> GlobalHeader \<Rightarrow> Commitment \<Rightarrow> MerkleProof \<Rightarrow> CrossShardReceipt \<Rightarrow> MerkleProof \<Rightarrow> unit result" where
  "VerifyFinalizedReceipt H header commitment commitmentProof receipt receiptProof =
     tryE (Receipt_Validate receipt) (\<lambda>_.
     if cm_ShardID commitment \<noteq> rc_SourceShard receipt \<or> hdr_Height header \<noteq> rc_SourceHeight receipt
     then Inl ErrReceiptProof
     else if \<not> merkle_Verify H (hdr_ShardCommitmentRoot header) (Commitment_Hash H commitment) commitmentProof
     then Inl ErrReceiptProof
     else tryE (Receipt_Hash H receipt) (\<lambda>receiptHash.
     if \<not> merkle_Verify H (cm_ReceiptRoot commitment) receiptHash receiptProof
     then Inl ErrReceiptProof else Inr ()))"

definition ReceiptMarker :: "hashfun \<Rightarrow> CrossShardReceipt \<Rightarrow> Object result" where
  "ReceiptMarker H receipt =
     tryE (Receipt_Hash H receipt) (\<lambda>h. Inr
       \<lparr>obj_ID = ObjectIDForShard H h 0xfffffffe (rc_DestinationShard receipt), obj_Version = 1,
        obj_Owner = 0, obj_Kind = KindSystem, obj_Data = w_Fixed32 h\<rparr>)"

subsection \<open>The receipt tracker\<close>

type_synonym ReceiptTracker = "hash \<rightharpoonup> u64"

definition NewReceiptTracker :: ReceiptTracker where
  "NewReceiptTracker = Map.empty"

definition tracker_Consume ::
  "hashfun \<Rightarrow> u32 \<Rightarrow> GlobalHeader \<Rightarrow> Commitment \<Rightarrow> MerkleProof \<Rightarrow> CrossShardReceipt \<Rightarrow> MerkleProof \<Rightarrow>
   ReceiptTracker \<Rightarrow> unit result \<times> ReceiptTracker" where
  "tracker_Consume H destinationShard header commitment commitmentProof receipt receiptProof t =
     (if rc_DestinationShard receipt \<noteq> destinationShard then (Inl ErrReceiptProof, t)
      else case VerifyFinalizedReceipt H header commitment commitmentProof receipt receiptProof of
        Inl e \<Rightarrow> (Inl e, t)
      | Inr _ \<Rightarrow>
          let h = (case Receipt_Hash H receipt of Inl _ \<Rightarrow> 0 | Inr h \<Rightarrow> h)
          in if t h \<noteq> None then (Inl ErrReceiptReplay, t) else (Inr (), t(h \<mapsto> hdr_Height header)))"

definition tracker_Consumed :: "hashfun \<Rightarrow> CrossShardReceipt \<Rightarrow> ReceiptTracker \<Rightarrow> bool" where
  "tracker_Consumed H receipt t =
     (case Receipt_Hash H receipt of Inl _ \<Rightarrow> False | Inr h \<Rightarrow> t h \<noteq> None)"

subsection \<open>Messages\<close>

definition ParseCommitment :: "byte list \<Rightarrow> Commitment result" where
  "ParseCommitment data =
     tryAs ErrShardCount (r_U32 data) (\<lambda>(shardID, r).
     tryAs ErrShardCount (r_Fixed32 r) (\<lambda>(stateRoot, r).
     tryAs ErrShardCount (r_Fixed32 r) (\<lambda>(receiptRoot, r).
     tryAs ErrShardCount (r_Fixed32 r) (\<lambda>(dataRoot, r).
     tryAs ErrShardCount (r_Done r) (\<lambda>_.
     if IsZero32 stateRoot then Inl ErrShardCount
     else Inr \<lparr>cm_ShardID = shardID, cm_StateRoot = stateRoot, cm_ReceiptRoot = receiptRoot,
               cm_DataRoot = dataRoot\<rparr>)))))"

definition ParseGlobalHeader :: "byte list \<Rightarrow> GlobalHeader result" where
  "ParseGlobalHeader data =
     tryAs ErrShardCount (r_U16 data) (\<lambda>(version, r).
     if version \<noteq> 2 then Inl ErrShardCount else
     tryAs ErrShardCount (r_Fixed32 r) (\<lambda>(network, r).
     tryAs ErrShardCount (r_U64 r) (\<lambda>(height, r).
     if height = 0 then Inl ErrShardCount else
     tryAs ErrShardCount (r_Fixed32 r) (\<lambda>(parentHash, r).
     tryAs ErrShardCount (r_Fixed32 r) (\<lambda>(shardRoot, r).
     tryAs ErrShardCount (r_Fixed32 r) (\<lambda>(validatorRoot, r).
     tryAs ErrShardCount (r_Fixed32 r) (\<lambda>(nextValidatorRoot, r).
     tryAs ErrShardCount (r_Fixed32 r) (\<lambda>(dataRoot, r).
     tryAs ErrShardCount (r_Fixed32 r) (\<lambda>(certificateHash, r).
     tryAs ErrShardCount (r_Done r) (\<lambda>_.
     if IsZero32 network \<or> IsZero32 shardRoot \<or> IsZero32 validatorRoot then Inl ErrShardCount
     else Inr \<lparr>hdr_Version = version, hdr_Network = network, hdr_Height = height,
               hdr_ParentHash = parentHash, hdr_ShardCommitmentRoot = shardRoot,
               hdr_ValidatorRoot = validatorRoot, hdr_NextValidatorRoot = nextValidatorRoot,
               hdr_DataRoot = dataRoot, hdr_CertificateHash = certificateHash\<rparr>))))))))))"

definition GlobalHeader_MarshalBinary :: "GlobalHeader \<Rightarrow> byte list result" where
  "GlobalHeader_MarshalBinary h =
     (let raw = GlobalHeader_CanonicalBytes h in tryE (ParseGlobalHeader raw) (\<lambda>_. Inr raw))"

definition ParseCrossShardReceipt :: "byte list \<Rightarrow> CrossShardReceipt result" where
  "ParseCrossShardReceipt data =
     tryAs ErrReceipt (r_U32 data) (\<lambda>(source, r).
     tryAs ErrReceipt (r_U32 r) (\<lambda>(destination, r).
     tryAs ErrReceipt (r_U64 r) (\<lambda>(height, r).
     tryAs ErrReceipt (r_Fixed32 r) (\<lambda>(txHash, r).
     tryAs ErrReceipt (r_U32 r) (\<lambda>(index, r).
     tryAs ErrReceipt (r_Sub ErrReceipt (1048576 + 64) ParseOutputSpec r) (\<lambda>(output, r).
     tryAs ErrReceipt (r_Fixed32 r) (\<lambda>(stateRoot, r).
     tryAs ErrReceipt (r_Done r) (\<lambda>_.
     let receipt = \<lparr>rc_SourceShard = source, rc_DestinationShard = destination, rc_SourceHeight = height,
                    rc_TransactionID = txHash, rc_OutputIndex = index, rc_Output = output,
                    rc_SourceStateRoot = stateRoot\<rparr>
     in tryE (Receipt_Validate receipt) (\<lambda>_. Inr receipt)))))))))"

subsection \<open>Sorting and searching\<close>

lemma strictly_ordered_iff: "strictly_ordered cs \<longleftrightarrow> sorted_wrt (<) (map cm_ShardID cs)"
  by (induction cs rule: strictly_ordered.induct) (auto simp: not_le)

lemma check_commitments_iff:
  "sorted (map cm_ShardID cs) \<Longrightarrow>
   check_commitments prev cs = Inr u \<longleftrightarrow>
     (case prev of None \<Rightarrow> True | Some p \<Rightarrow> cs = [] \<or> cm_ShardID (hd cs) \<noteq> cm_ShardID p) \<and>
     distinct (map cm_ShardID cs) \<and> (\<forall>c \<in> set cs. cm_StateRoot c \<noteq> 0)"
proof (induction prev cs rule: check_commitments.induct)
  case (2 prev c cs)
  have "cm_ShardID c \<notin> cm_ShardID ` set cs \<longleftrightarrow> cs = [] \<or> cm_ShardID (hd cs) \<noteq> cm_ShardID c"
    if "sorted (map cm_ShardID cs)" "\<forall>x \<in> set cs. cm_ShardID c \<le> cm_ShardID x" "distinct (map cm_ShardID cs)"
    using that by (cases cs) (auto simp: order_le_less)
  then show ?case using 2 by (auto simp: IsZero32_def split: option.splits)
qed (auto split: option.splits)

lemma sort_key_strictly_ordered: "strictly_ordered cs \<Longrightarrow> sort_key cm_ShardID cs = cs"
  by (simp add: strictly_ordered_iff sort_key_id_if_sorted strict_sorted_iff)

lemma sortedCommitments_iff:
  "sortedCommitments inp = Inr out \<longleftrightarrow>
     inp \<noteq> [] \<and> out = sort_key cm_ShardID inp \<and> distinct (map cm_ShardID inp) \<and>
     (\<forall>c \<in> set inp. cm_StateRoot c \<noteq> 0)"
proof -
  let ?s = "sort_key cm_ShardID inp"
  have s: "(if strictly_ordered inp then inp else ?s) = ?s" by (simp add: sort_key_strictly_ordered)
  have "distinct (map cm_ShardID ?s) \<longleftrightarrow> distinct (map cm_ShardID inp)"
    by (simp add: distinct_map)
  then show ?thesis
    using check_commitments_iff [of ?s None] by (auto simp: sortedCommitments_def s Let_def)
qed

lemma sortedCommitments_Inl: "sortedCommitments inp = Inl e \<Longrightarrow> e = ErrShardCount"
proof -
  have "check_commitments prev cs = Inl e \<Longrightarrow> e = ErrShardCount" for prev cs
    by (induction prev cs rule: check_commitments.induct) (auto split: if_splits)
  then show "sortedCommitments inp = Inl e \<Longrightarrow> e = ErrShardCount"
    by (auto simp: sortedCommitments_def Let_def tryE_def split: if_splits sum.splits)
qed

lemma sort_key_set_eqI:
  assumes "set xs = set ys" "distinct (map f xs)" "distinct (map f ys)"
  shows "sort_key f xs = sort_key f ys"
  by (rule map_sorted_distinct_set_unique [where f = f]) (use assms in \<open>auto simp: distinct_map\<close>)

lemma find_commitment_iff:
  "find_commitment s n cs = Some (i, c) \<Longrightarrow>
     n \<le> i \<and> i - n < length cs \<and> cs ! (i - n) = c \<and> cm_ShardID c = s"
  by (induction s n cs rule: find_commitment.induct) (auto split: if_splits simp: nth_Cons' Suc_le_eq)

lemma find_commitment_None: "find_commitment s n cs = None \<longleftrightarrow> s \<notin> cm_ShardID ` set cs"
  by (induction s n cs rule: find_commitment.induct) auto

lemma adjacent_equal_iff: "sorted hs \<Longrightarrow> adjacent_equal hs \<longleftrightarrow> \<not> distinct hs"
  by (induction hs rule: adjacent_equal.induct) (auto simp: order_le_less)

lemma sortedHashes_iff:
  "sortedHashes H b = Inr hs \<longleftrightarrow>
     (\<exists>raw. mapE (Receipt_Hash H) b = Inr raw \<and> distinct raw \<and> hs = sort raw)"
  by (auto simp: sortedHashes_def Let_def adjacent_equal_iff)

lemma sort_Search_step:
  "\<not> i < j \<Longrightarrow> sort_Search f i j = i"
  "i < j \<Longrightarrow> f ((i + j) div 2) \<Longrightarrow> sort_Search f i j = sort_Search f i ((i + j) div 2)"
  "i < j \<Longrightarrow> \<not> f ((i + j) div 2) \<Longrightarrow> sort_Search f i j = sort_Search f ((i + j) div 2 + 1) j"
  by (simp_all add: sort_Search.simps [of f i j] Let_def)

lemma sort_Search_least:
  assumes "\<And>a b. i \<le> a \<Longrightarrow> a \<le> b \<Longrightarrow> b < j \<Longrightarrow> f a \<Longrightarrow> f b" "i \<le> j"
  shows "i \<le> sort_Search f i j \<and> sort_Search f i j \<le> j \<and>
    (\<forall>k. i \<le> k \<and> k < sort_Search f i j \<longrightarrow> \<not> f k) \<and> (sort_Search f i j < j \<longrightarrow> f (sort_Search f i j))"
  using assms
proof (induction f i j rule: sort_Search.induct)
  case (1 f i j)
  let ?h = "(i + j) div 2"
  consider "\<not> i < j" | "i < j" "f ?h" | "i < j" "\<not> f ?h" by blast
  then show ?case
  proof cases
    case 1
    then show ?thesis using \<open>i \<le> j\<close> by (auto simp: sort_Search_step(1))
  next
    case 2
    then have h: "i \<le> ?h" "?h < j" by auto
    let ?r = "sort_Search f i ?h"
    have up: "f b" if "i \<le> a" "a \<le> b" "b < ?h" "f a" for a b
      by (rule "1.prems"(1) [OF that(1,2) _ that(4)]) (use that(3) h(2) in simp)
    have "\<not> \<not> f ?h" using 2(2) by simp
    then have "i \<le> ?r \<and> ?r \<le> ?h \<and> (\<forall>k. i \<le> k \<and> k < ?r \<longrightarrow> \<not> f k) \<and> (?r < ?h \<longrightarrow> f ?r)"
      by (rule "1.IH"(2) [OF 2(1) refl _ _ h(1)]) (rule up)
    then have "i \<le> ?r" "?r < j" "\<forall>k. i \<le> k \<and> k < ?r \<longrightarrow> \<not> f k" "f ?r"
      using h(2) 2(2) by (auto simp: order_le_less)
    then show ?thesis by (simp add: sort_Search_step(2) [of i j f, OF 2])
  next
    case 3
    then have h: "i \<le> ?h" "?h < j" "?h + 1 \<le> j" by auto
    let ?r = "sort_Search f (?h + 1) j"
    have r: "?h + 1 \<le> ?r \<and> ?r \<le> j \<and> (\<forall>k. ?h + 1 \<le> k \<and> k < ?r \<longrightarrow> \<not> f k) \<and> (?r < j \<longrightarrow> f ?r)"
    proof (rule "1.IH"(1) [OF 3(1) refl 3(2) _ h(3)])
      fix a b assume "?h + 1 \<le> a" "a \<le> b" "b < j" "f a"
      then show "f b" using "1.prems"(1) [of a b] h(1) by simp
    qed
    have "\<not> f k" if "i \<le> k" "k < ?r" for k
    proof (cases "k \<le> ?h")
      case True
      then show ?thesis using "1.prems"(1) [OF that(1) True h(2)] 3(2) by blast
    next
      case False
      then show ?thesis using r that(2) by simp
    qed
    then show ?thesis using r h(1) unfolding sort_Search_step(3) [of i j f, OF 3] by simp
  qed
qed

text \<open>On a strictly sorted list the bisection finds the target exactly when it occurs.\<close>

lemma sort_Search_sorted:
  fixes x :: hash and hs :: "hash list"
  assumes "sorted hs"
  defines "i \<equiv> sort_Search (\<lambda>i. hs ! i \<ge> x) 0 (length hs)"
  shows "(i = length hs \<or> hs ! i \<noteq> x \<longleftrightarrow> x \<notin> set hs) \<and> i \<le> length hs"
proof -
  have "x \<le> hs ! b" if "a \<le> b" "b < length hs" "x \<le> hs ! a" for a b
    using that sorted_nth_mono [OF assms(1)] order_trans by blast
  then have l: "i \<le> length hs" "\<forall>k < i. hs ! k < x" "i < length hs \<longrightarrow> x \<le> hs ! i"
    using sort_Search_least [of 0 "length hs" "\<lambda>i. x \<le> hs ! i"] by (simp_all add: i_def not_le)
  have "i = length hs \<or> hs ! i \<noteq> x \<longleftrightarrow> x \<notin> set hs"
  proof
    assume a: "i = length hs \<or> hs ! i \<noteq> x"
    show "x \<notin> set hs"
    proof
      assume "x \<in> set hs"
      then obtain k where k: "k < length hs" "hs ! k = x" by (auto simp: in_set_conv_nth)
      then have ki: "i \<le> k" using l(2) by (metis less_irrefl not_le)
      then have "hs ! i \<le> x" using assms(1) k by (metis sorted_nth_mono)
      then show False using l(3) a k(1) ki by (metis antisym le_less_trans less_irrefl)
    qed
  next
    assume "x \<notin> set hs"
    then show "i = length hs \<or> hs ! i \<noteq> x" using l(1) nth_mem by (metis order_le_less)
  qed
  with l(1) show ?thesis by blast
qed

subsection \<open>The message formats\<close>

definition header_valid :: "GlobalHeader \<Rightarrow> bool" where
  "header_valid h \<longleftrightarrow> hdr_Version h = 2 \<and> hdr_Network h \<noteq> 0 \<and> hdr_Height h \<noteq> 0 \<and>
     hdr_ShardCommitmentRoot h \<noteq> 0 \<and> hdr_ValidatorRoot h \<noteq> 0"

definition receipt_valid :: "CrossShardReceipt \<Rightarrow> bool" where
  "receipt_valid r \<longleftrightarrow> rc_SourceShard r \<noteq> rc_DestinationShard r \<and> rc_SourceHeight r \<noteq> 0 \<and>
     rc_TransactionID r \<noteq> 0 \<and> rc_SourceStateRoot r \<noteq> 0 \<and> output_valid (rc_Output r)"

lemma Receipt_Validate_iff: "Receipt_Validate r = Inr u \<longleftrightarrow> receipt_valid r"
  by (auto simp: Receipt_Validate_def receipt_valid_def IsZero32_def OutputSpec_Validate_iff)

interpretation CommitmentWire: canonical_wire Commitment_CanonicalBytes ParseCommitment "\<lambda>c. cm_StateRoot c \<noteq> 0"
proof
  fix bs and x :: Commitment
  show "ParseCommitment bs = Inr x \<longleftrightarrow> cm_StateRoot x \<noteq> 0 \<and> bs = Commitment_CanonicalBytes x"
    by (cases x) (auto simp: ParseCommitment_def Commitment_CanonicalBytes_def wire_iff IsZero32_def)
qed

interpretation HeaderWire: canonical_wire GlobalHeader_CanonicalBytes ParseGlobalHeader header_valid
proof
  fix bs and x :: GlobalHeader
  show "ParseGlobalHeader bs = Inr x \<longleftrightarrow> header_valid x \<and> bs = GlobalHeader_CanonicalBytes x"
    by (cases x) (auto simp: ParseGlobalHeader_def GlobalHeader_CanonicalBytes_def wire_iff IsZero32_def header_valid_def)
qed

lemma length_GlobalHeader_CanonicalBytes [simp]: "length (GlobalHeader_CanonicalBytes h) = 234"
  by (simp add: GlobalHeader_CanonicalBytes_def)

lemma length_Commitment_CanonicalBytes [simp]: "length (Commitment_CanonicalBytes h) = 100"
  by (simp add: Commitment_CanonicalBytes_def)

interpretation ReceiptWire: canonical_wire Receipt_encode ParseCrossShardReceipt receipt_valid
proof
  fix bs and x :: CrossShardReceipt
  have fits: "output_valid o' \<Longrightarrow> length (OutputSpec_CanonicalBytes o') \<le> unat (1048576 + 64 :: u32)" for o'
    by (simp add: length_OutputSpec_CanonicalBytes output_valid_def)
  show "ParseCrossShardReceipt bs = Inr x \<longleftrightarrow> receipt_valid x \<and> bs = Receipt_encode x"
    by (cases x) (auto simp: ParseCrossShardReceipt_def Receipt_encode_def wire_iff OutputWire.r_Sub_iff
      Receipt_Validate_iff receipt_valid_def Let_def dest: fits)
qed

lemma Commitment_CanonicalBytes_inject:
  "Commitment_CanonicalBytes a = Commitment_CanonicalBytes b \<longleftrightarrow> a = (b :: Commitment)"
  by (cases a, cases b) (simp add: Commitment_CanonicalBytes_def wire_cancel wire_cancel_end)

lemma GlobalHeader_CanonicalBytes_inject:
  "GlobalHeader_CanonicalBytes a = GlobalHeader_CanonicalBytes b \<longleftrightarrow> a = (b :: GlobalHeader)"
  by (cases a, cases b) (simp add: GlobalHeader_CanonicalBytes_def wire_cancel wire_cancel_end)

lemma SameCommitment_iff: "SameCommitment a b \<longleftrightarrow> a = (b :: Commitment)"
  by (auto simp: SameCommitment_def Commitment_CanonicalBytes_inject)

lemma Receipt_Hash_iff:
  "Receipt_Hash H r = Inr h \<longleftrightarrow> receipt_valid r \<and> h = Leaf H ''cross-shard-receipt'' (Receipt_encode r)"
  by (auto simp: Receipt_Hash_def Receipt_CanonicalBytes_def Receipt_Validate_iff)

lemma length_Receipt_encode: "receipt_valid r \<Longrightarrow> length (Receipt_encode r) < 2 ^ 31"
  by (simp add: Receipt_encode_def receipt_valid_def output_valid_def length_OutputSpec_CanonicalBytes)

lemma mapE_Receipt_Hash:
  "mapE (Receipt_Hash H) rs = Inr hs \<longleftrightarrow>
     (\<forall>r \<in> set rs. receipt_valid r) \<and> hs = map (\<lambda>r. Leaf H ''cross-shard-receipt'' (Receipt_encode r)) rs"
proof (induction rs arbitrary: hs)
  case (Cons r rs)
  then show ?case by (auto simp: Receipt_Hash_iff)
qed auto

lemma sort_map: "sort (map f xs) = map f (sort_key f xs)"
  by (rule properties_for_sort) simp_all

lemma ReceiptBatch_Root_iff:
  "ReceiptBatch_Root H rs = Inr root \<longleftrightarrow>
     (\<forall>r \<in> set rs. receipt_valid r) \<and>
     distinct (map (\<lambda>r. Leaf H ''cross-shard-receipt'' (Receipt_encode r)) rs) \<and>
     root = merkle_Root H (sort (map (\<lambda>r. Leaf H ''cross-shard-receipt'' (Receipt_encode r)) rs))"
  by (auto simp: ReceiptBatch_Root_def sortedHashes_iff mapE_Receipt_Hash)

lemma CommitmentRoot_iff:
  "CommitmentRoot H cs = Inr root \<longleftrightarrow>
     cs \<noteq> [] \<and> distinct (map cm_ShardID cs) \<and> (\<forall>c \<in> set cs. cm_StateRoot c \<noteq> 0) \<and>
     root = merkle_Root H (map (Commitment_Hash H) (sort_key cm_ShardID cs))"
  by (auto simp: CommitmentRoot_def sortedCommitments_iff)

lemma ReceiptBatch_Proof_verifies:
  assumes "ReceiptBatch_Root H rs = Inr root" "Receipt_Hash H r = Inr h" "h \<in> set (map (\<lambda>r. Leaf H ''cross-shard-receipt'' (Receipt_encode r)) rs)"
    and "length rs < 2 ^ 32"
  shows "\<exists>p. ReceiptBatch_Proof H rs r = Inr p \<and> merkle_Verify H root h p"
proof -
  let ?raw = "map (\<lambda>r. Leaf H ''cross-shard-receipt'' (Receipt_encode r)) rs"
  let ?hs = "sort ?raw"
  let ?i = "sort_Search (\<lambda>i. h \<le> ?hs ! i) 0 (length ?hs)"
  have s: "sortedHashes H rs = Inr ?hs" and root: "root = merkle_Root H ?hs"
    using assms(1) by (auto simp: ReceiptBatch_Root_iff sortedHashes_iff mapE_Receipt_Hash)
  have i: "\<not> (?i = length ?hs \<or> ?hs ! ?i \<noteq> h)"
    using sort_Search_sorted [of ?hs h] assms(3) by simp
  moreover have "?i \<le> length ?hs"
    using sort_Search_sorted [of ?hs h] by simp
  ultimately have "?i < length ?hs" by linarith
  then obtain p where "BuildProof H ?hs (int ?i) = Inr p" "merkle_Verify H (merkle_Root H ?hs) (?hs ! ?i) p"
    using BuildProof_verifies [of ?i ?hs H] assms(4) by auto
  then have "ReceiptBatch_Proof H rs r = Inr p" "merkle_Verify H root h p"
    using i by (simp_all add: ReceiptBatch_Proof_def assms(2) s root Let_def)
  then show ?thesis by blast
qed

lemma CommitmentProof_verifies:
  assumes "CommitmentRoot H cs = Inr root" "c \<in> set cs" "length cs < 2 ^ 32"
  shows "\<exists>p. CommitmentProof H cs (cm_ShardID c) = Inr (c, p) \<and> merkle_Verify H root (Commitment_Hash H c) p"
proof -
  let ?s = "sort_key cm_ShardID cs" and ?ls = "map (Commitment_Hash H) (sort_key cm_ShardID cs)"
  have cs: "sortedCommitments cs = Inr ?s" "root = merkle_Root H ?ls" "distinct (map cm_ShardID cs)"
    using assms(1) by (auto simp: CommitmentRoot_iff sortedCommitments_iff)
  obtain i c' where f: "find_commitment (cm_ShardID c) 0 ?s = Some (i, c')"
    using assms(2) find_commitment_None [of "cm_ShardID c" 0 ?s] by (cases "find_commitment (cm_ShardID c) 0 ?s") auto
  then have i: "i < length ?s" "?s ! i = c'" "cm_ShardID c' = cm_ShardID c"
    using find_commitment_iff by fastforce+
  then have "c' \<in> set cs" by (metis nth_mem set_sort)
  then have c': "c' = c" using cs(3) assms(2) i(3) by (auto simp: distinct_map dest: inj_onD)
  obtain p where "BuildProof H ?ls (int i) = Inr p" "merkle_Verify H (merkle_Root H ?ls) (?ls ! i) p"
    using BuildProof_verifies [of i ?ls H] i(1) assms(3) by auto
  then show ?thesis using i c' by (simp add: CommitmentProof_def cs f)
qed

subsection \<open>Finalized receipts\<close>

lemma VerifyFinalizedReceipt_iff:
  "VerifyFinalizedReceipt H header c cp r rp = Inr u \<longleftrightarrow>
     receipt_valid r \<and> cm_ShardID c = rc_SourceShard r \<and> hdr_Height header = rc_SourceHeight r \<and>
     merkle_Verify H (hdr_ShardCommitmentRoot header) (Commitment_Hash H c) cp \<and>
     merkle_Verify H (cm_ReceiptRoot c) (Leaf H ''cross-shard-receipt'' (Receipt_encode r)) rp"
  by (auto simp: VerifyFinalizedReceipt_def Receipt_Validate_iff Receipt_Hash_iff)

definition commitment_payloads :: "Commitment list \<Rightarrow> byte list list" where
  "commitment_payloads cs = map Commitment_CanonicalBytes (sort_key cm_ShardID cs)"

definition receipt_payloads :: "hashfun \<Rightarrow> CrossShardReceipt list \<Rightarrow> byte list list" where
  "receipt_payloads H rs = map Receipt_encode (sort_key (\<lambda>r. Leaf H ''cross-shard-receipt'' (Receipt_encode r)) rs)"

text \<open>The strings hashed when a leaf is checked against a root.\<close>

definition check_frames :: "hashfun \<Rightarrow> string \<Rightarrow> byte list \<Rightarrow> MerkleProof \<Rightarrow> byte list list" where
  "check_frames H d q prf = leaf_frame d q # climb_frames H (Leaf H d q) (unat (mp_Index prf)) (mp_Siblings prf)"

text \<open>A finalized receipt, for the witnesses.\<close>

definition sample_receipt :: CrossShardReceipt where
  "sample_receipt = \<lparr>rc_SourceShard = 1, rc_DestinationShard = 2, rc_SourceHeight = 5, rc_TransactionID = 7,
     rc_OutputIndex = 0, rc_Output = \<lparr>os_Owner = 3, os_Kind = KindCoin, os_Data = []\<rparr>, rc_SourceStateRoot = 9\<rparr>"

definition sample_commitment :: Commitment where
  "sample_commitment = \<lparr>cm_ShardID = 1, cm_StateRoot = 4,
     cm_ReceiptRoot = Leaf toy_hash ''cross-shard-receipt'' (Receipt_encode sample_receipt), cm_DataRoot = 0\<rparr>"

definition sample_header :: GlobalHeader where
  "sample_header = \<lparr>hdr_Version = 2, hdr_Network = 1, hdr_Height = 5, hdr_ParentHash = 0,
     hdr_ShardCommitmentRoot = Commitment_Hash toy_hash sample_commitment, hdr_ValidatorRoot = 1,
     hdr_NextValidatorRoot = 0, hdr_DataRoot = 0, hdr_CertificateHash = 0\<rparr>"

lemma sample_roots:
  "CommitmentRoot toy_hash [sample_commitment] = Inr (hdr_ShardCommitmentRoot sample_header)"
  "ReceiptBatch_Root toy_hash [sample_receipt] = Inr (cm_ReceiptRoot sample_commitment)"
  "VerifyFinalizedReceipt toy_hash sample_header sample_commitment \<lparr>mp_Index = 0, mp_LeafCount = 1, mp_Siblings = []\<rparr>
     sample_receipt \<lparr>mp_Index = 0, mp_LeafCount = 1, mp_Siblings = []\<rparr> = Inr ()"
proof -
  have root: "merkle_Root toy_hash [x] = x" for x by (simp add: merkle_eval)
  have ver: "merkle_Verify toy_hash x x \<lparr>mp_Index = 0, mp_LeafCount = 1, mp_Siblings = []\<rparr>" for x
    by (simp add: merkle_eval)
  have v: "receipt_valid sample_receipt" by (simp add: receipt_valid_def sample_receipt_def output_valid_def)
  show "CommitmentRoot toy_hash [sample_commitment] = Inr (hdr_ShardCommitmentRoot sample_header)"
    by (simp add: CommitmentRoot_iff root sample_header_def) (simp add: sample_commitment_def)
  show "ReceiptBatch_Root toy_hash [sample_receipt] = Inr (cm_ReceiptRoot sample_commitment)"
    using v by (simp add: ReceiptBatch_Root_iff root sample_commitment_def)
  show "VerifyFinalizedReceipt toy_hash sample_header sample_commitment \<lparr>mp_Index = 0, mp_LeafCount = 1, mp_Siblings = []\<rparr>
     sample_receipt \<lparr>mp_Index = 0, mp_LeafCount = 1, mp_Siblings = []\<rparr> = Inr ()"
    using v by (simp add: VerifyFinalizedReceipt_iff ver sample_header_def)
      (simp add: sample_commitment_def ver, simp add: sample_receipt_def)
qed

text \<open>
  C17. A destination shard accepts only receipts that were finalized: when \<open>VerifyFinalizedReceipt\<close>
  accepts against a header whose commitment root was built from cs and a commitment whose receipt root was
  built from the batch rs, the commitment is one of cs and the receipt one of rs, from the shard and
  the height it claims, unless two strings hashed by the verifier and by the builders collide.
\<close>

theorem receipt_finality_sound:
  assumes "VerifyFinalizedReceipt H header c cp r rp = Inr ()"
    and "CommitmentRoot H cs = Inr (hdr_ShardCommitmentRoot header)"
    and "ReceiptBatch_Root H rs = Inr (cm_ReceiptRoot c)"
  shows "c \<in> set cs \<and> r \<in> set rs \<and> cm_ShardID c = rc_SourceShard r \<and> hdr_Height header = rc_SourceHeight r \<or>
    collides H (check_frames H ''shard-commitment'' (Commitment_CanonicalBytes c) cp)
      (root_frames H (map (leaf_frame ''shard-commitment'') (commitment_payloads cs))) \<or>
    collides H (check_frames H ''cross-shard-receipt'' (Receipt_encode r) rp)
      (root_frames H (map (leaf_frame ''cross-shard-receipt'') (receipt_payloads H rs)))"
proof -
  let ?d = "''shard-commitment''" and ?e = "''cross-shard-receipt''"
  have v: "receipt_valid r" "cm_ShardID c = rc_SourceShard r" "hdr_Height header = rc_SourceHeight r"
    "merkle_Verify H (hdr_ShardCommitmentRoot header) (Leaf H ?d (Commitment_CanonicalBytes c)) cp"
    "merkle_Verify H (cm_ReceiptRoot c) (Leaf H ?e (Receipt_encode r)) rp"
    using assms(1) by (simp_all add: VerifyFinalizedReceipt_iff Commitment_Hash_def)
  have root: "hdr_ShardCommitmentRoot header = merkle_Root H (map (Leaf H ?d) (commitment_payloads cs))"
    using assms(2) by (simp add: CommitmentRoot_iff commitment_payloads_def comp_def Commitment_Hash_def [abs_def])
  have rroot: "cm_ReceiptRoot c = merkle_Root H (map (Leaf H ?e) (receipt_payloads H rs))"
    and rs: "\<forall>r \<in> set rs. receipt_valid r"
    using assms(3) by (simp_all add: ReceiptBatch_Root_iff receipt_payloads_def comp_def sort_map)
  have "Commitment_CanonicalBytes c \<in> set (commitment_payloads cs) \<or>
    collides H (check_frames H ?d (Commitment_CanonicalBytes c) cp) (root_frames H (map (leaf_frame ?d) (commitment_payloads cs)))"
    using membership [OF v(4) [unfolded root]] by (simp add: check_frames_def commitment_payloads_def)
  moreover have "Receipt_encode r \<in> set (receipt_payloads H rs) \<or>
    collides H (check_frames H ?e (Receipt_encode r) rp) (root_frames H (map (leaf_frame ?e) (receipt_payloads H rs)))"
  proof -
    have "\<forall>p \<in> set (Receipt_encode r # receipt_payloads H rs). length p < 2 ^ 32"
      using length_Receipt_encode rs v(1) by (fastforce simp: receipt_payloads_def)
    then show ?thesis
      using membership [OF v(5) [unfolded rroot]] by (simp add: check_frames_def)
  qed
  moreover have "Commitment_CanonicalBytes c \<in> set (commitment_payloads cs) \<Longrightarrow> c \<in> set cs"
    by (auto simp: commitment_payloads_def Commitment_CanonicalBytes_inject)
  moreover have "Receipt_encode r \<in> set (receipt_payloads H rs) \<Longrightarrow> r \<in> set rs"
    using ReceiptWire.enc_inject [OF v(1)] rs by (auto simp: receipt_payloads_def)
  ultimately show ?thesis using v(2,3) by blast
qed

theorem receipt_finality_sound_witness:
  "sample_commitment \<in> set [sample_commitment] \<and> sample_receipt \<in> set [sample_receipt] \<and>
     cm_ShardID sample_commitment = rc_SourceShard sample_receipt \<and>
     hdr_Height sample_header = rc_SourceHeight sample_receipt \<or>
   collides toy_hash (check_frames toy_hash ''shard-commitment'' (Commitment_CanonicalBytes sample_commitment)
        \<lparr>mp_Index = 0, mp_LeafCount = 1, mp_Siblings = []\<rparr>)
      (root_frames toy_hash (map (leaf_frame ''shard-commitment'') (commitment_payloads [sample_commitment]))) \<or>
   collides toy_hash (check_frames toy_hash ''cross-shard-receipt'' (Receipt_encode sample_receipt)
        \<lparr>mp_Index = 0, mp_LeafCount = 1, mp_Siblings = []\<rparr>)
      (root_frames toy_hash (map (leaf_frame ''cross-shard-receipt'') (receipt_payloads toy_hash [sample_receipt])))"
  by (rule receipt_finality_sound [OF sample_roots(3,1,2)])

text \<open>
  C18. Conversely, for a commitment and a receipt that were included, \<open>CommitmentProof\<close> and
  \<open>ReceiptBatch.Proof\<close> return proofs, and \<open>VerifyFinalizedReceipt\<close> accepts them.
\<close>

theorem receipt_finality_complete:
  assumes "CommitmentRoot H cs = Inr (hdr_ShardCommitmentRoot header)"
    and "ReceiptBatch_Root H rs = Inr (cm_ReceiptRoot c)"
    and "c \<in> set cs" "r \<in> set rs" "length cs < 2 ^ 32" "length rs < 2 ^ 32"
    and "cm_ShardID c = rc_SourceShard r" "hdr_Height header = rc_SourceHeight r"
  shows "\<exists>cp rp. CommitmentProof H cs (cm_ShardID c) = Inr (c, cp) \<and> ReceiptBatch_Proof H rs r = Inr rp \<and>
    VerifyFinalizedReceipt H header c cp r rp = Inr ()"
proof -
  have r: "receipt_valid r" using assms(2,4) by (auto simp: ReceiptBatch_Root_iff)
  obtain cp where "CommitmentProof H cs (cm_ShardID c) = Inr (c, cp)"
      "merkle_Verify H (hdr_ShardCommitmentRoot header) (Commitment_Hash H c) cp"
    using CommitmentProof_verifies [OF assms(1,3,5)] by blast
  moreover obtain rp where "ReceiptBatch_Proof H rs r = Inr rp"
      "merkle_Verify H (cm_ReceiptRoot c) (Leaf H ''cross-shard-receipt'' (Receipt_encode r)) rp"
    using ReceiptBatch_Proof_verifies [OF assms(2), of r "Leaf H ''cross-shard-receipt'' (Receipt_encode r)"] assms(4,6) r
    by (auto simp: Receipt_Hash_iff)
  ultimately show ?thesis using r assms(7,8) by (auto simp: VerifyFinalizedReceipt_iff)
qed

theorem receipt_finality_complete_witness:
  "\<exists>cp rp. CommitmentProof toy_hash [sample_commitment] (cm_ShardID sample_commitment) = Inr (sample_commitment, cp) \<and>
     ReceiptBatch_Proof toy_hash [sample_receipt] sample_receipt = Inr rp \<and>
     VerifyFinalizedReceipt toy_hash sample_header sample_commitment cp sample_receipt rp = Inr ()"
  by (rule receipt_finality_complete [OF sample_roots(1,2)])
    (simp_all add: sample_header_def sample_commitment_def sample_receipt_def)

text \<open>
  The commitment root of a set of shards, and the error for an invalid set, do not depend on the order
  in which the commitments arrive: the path that skips sorting agrees with the sorting one.
\<close>

theorem commitment_root_order:
  assumes "mset cs = mset cs'"
  shows "CommitmentRoot H cs = CommitmentRoot H cs'"
proof -
  have same: "set cs = set cs'" "cs = [] \<longleftrightarrow> cs' = []"
    "distinct (map cm_ShardID cs) \<longleftrightarrow> distinct (map cm_ShardID cs')"
    using assms mset_eq_imp_distinct_iff [of "map cm_ShardID cs" "map cm_ShardID cs'"]
    by (auto dest: mset_eq_setD)
  have "sortedCommitments cs = sortedCommitments cs'"
  proof (cases "sortedCommitments cs")
    case (Inl e)
    then have "\<nexists>out. sortedCommitments cs' = Inr out" using same sortedCommitments_iff [of cs] by (auto simp: sortedCommitments_iff)
    then show ?thesis using Inl sortedCommitments_Inl by (metis sum.exhaust)
  next
    case (Inr out)
    moreover from Inr have "sortedCommitments cs' = Inr out"
      using same sort_key_set_eqI [of cs cs' cm_ShardID] by (simp add: sortedCommitments_iff)
    ultimately show ?thesis by simp
  qed
  then show ?thesis by (simp add: CommitmentRoot_def)
qed

theorem commitment_root_order_witness:
  "CommitmentRoot toy_hash
     [\<lparr>cm_ShardID = 2, cm_StateRoot = 4, cm_ReceiptRoot = 0, cm_DataRoot = 0\<rparr>,
      \<lparr>cm_ShardID = 1, cm_StateRoot = 5, cm_ReceiptRoot = 0, cm_DataRoot = 0\<rparr>] =
   CommitmentRoot toy_hash
     [\<lparr>cm_ShardID = 1, cm_StateRoot = 5, cm_ReceiptRoot = 0, cm_DataRoot = 0\<rparr>,
      \<lparr>cm_ShardID = 2, cm_StateRoot = 4, cm_ReceiptRoot = 0, cm_DataRoot = 0\<rparr>]"
  by (rule commitment_root_order) simp

text \<open>A sequence of calls of the tracker, and the receipts it accepts.\<close>

record ConsumeCall =
  call_shard :: u32
  call_header :: GlobalHeader
  call_commitment :: Commitment
  call_commitmentProof :: MerkleProof
  call_receipt :: CrossShardReceipt
  call_receiptProof :: MerkleProof

definition consume :: "hashfun \<Rightarrow> ConsumeCall \<Rightarrow> ReceiptTracker \<Rightarrow> unit result \<times> ReceiptTracker" where
  "consume H k t = tracker_Consume H (call_shard k) (call_header k) (call_commitment k)
     (call_commitmentProof k) (call_receipt k) (call_receiptProof k) t"

primrec consumeAll :: "hashfun \<Rightarrow> ConsumeCall list \<Rightarrow> ReceiptTracker \<Rightarrow> CrossShardReceipt list" where
  "consumeAll H [] t = []"
| "consumeAll H (k # ks) t =
     (if is_ok (fst (consume H k t)) then [call_receipt k] else []) @ consumeAll H ks (snd (consume H k t))"

primrec trackerAfter :: "hashfun \<Rightarrow> ConsumeCall list \<Rightarrow> ReceiptTracker \<Rightarrow> ReceiptTracker" where
  "trackerAfter H [] t = t"
| "trackerAfter H (k # ks) t = trackerAfter H ks (snd (consume H k t))"

lemma tracker_Consume_ok:
  assumes "tracker_Consume H s header c cp r rp t = (Inr u, t')"
  shows "\<exists>h. Receipt_Hash H r = Inr h \<and> t h = None \<and> t' = t(h \<mapsto> hdr_Height header) \<and>
    rc_DestinationShard r = s \<and> VerifyFinalizedReceipt H header c cp r rp = Inr ()"
proof -
  have v: "rc_DestinationShard r = s" "VerifyFinalizedReceipt H header c cp r rp = Inr ()"
    using assms by (auto simp: tracker_Consume_def Let_def split: if_splits sum.splits)
  then obtain h where "Receipt_Hash H r = Inr h" by (auto simp: VerifyFinalizedReceipt_iff Receipt_Hash_iff)
  then show ?thesis using assms v by (auto simp: tracker_Consume_def split: if_splits)
qed

lemma tracker_Consume_error: "tracker_Consume H s header c cp r rp t = (Inl e, t') \<Longrightarrow> t' = t"
  by (auto simp: tracker_Consume_def Let_def split: if_splits sum.splits)

lemma consume_cases:
  obtains (error) e where "consume H k t = (Inl e, t)"
  | (ok) h where "Receipt_Hash H (call_receipt k) = Inr h" "t h = None"
      "consume H k t = (Inr (), t(h \<mapsto> hdr_Height (call_header k)))"
proof (cases "fst (consume H k t)")
  case (Inl e)
  then show ?thesis
    using error tracker_Consume_error unfolding consume_def by (metis prod.collapse)
next
  case (Inr u)
  then have "consume H k t = (Inr (), snd (consume H k t))" by (metis prod.collapse unit.exhaust)
  then show ?thesis
    using ok tracker_Consume_ok [of H "call_shard k"] unfolding consume_def by metis
qed

lemma consumeAll_fresh:
  "distinct (map (Receipt_Hash H) (consumeAll H ks t)) \<and>
   (\<forall>r \<in> set (consumeAll H ks t). \<exists>h. Receipt_Hash H r = Inr h \<and> t h = None)"
proof (induction ks arbitrary: t)
  case (Cons k ks)
  show ?case
  proof (cases rule: consume_cases [of H k t])
    case (error e)
    then show ?thesis using Cons [of t] by simp
  next
    case (ok h)
    define t' where "t' = t(h \<mapsto> hdr_Height (call_header k))"
    have t': "t' x = None \<Longrightarrow> t x = None \<and> x \<noteq> h" for x by (auto simp: t'_def split: if_splits)
    have k: "consume H k t = (Inr (), t')" using ok(3) by (simp add: t'_def)
    have "\<forall>r \<in> set (consumeAll H ks t'). \<exists>h'. Receipt_Hash H r = Inr h' \<and> t h' = None \<and> h' \<noteq> h"
      using Cons [of t'] t' by blast
    moreover from this have "Receipt_Hash H (call_receipt k) \<notin> Receipt_Hash H ` set (consumeAll H ks t')"
      using ok(1) by auto
    ultimately show ?thesis using Cons [of t'] ok(1,2) k by auto
  qed
qed simp

lemma consumeAll_append: "consumeAll H (ks @ ls) t = consumeAll H ks t @ consumeAll H ls (trackerAfter H ks t)"
  by (induction ks arbitrary: t) simp_all

lemma trackerAfter_mono: "t \<subseteq>\<^sub>m trackerAfter H ks t"
proof (induction ks arbitrary: t)
  case (Cons k ks)
  show ?case
  proof (cases rule: consume_cases [of H k t])
    case (ok h)
    then have "t \<subseteq>\<^sub>m snd (consume H k t)" by (auto simp: map_le_def)
    then show ?thesis using Cons [of "snd (consume H k t)"] by (auto intro: map_le_trans)
  qed (use Cons in simp)
qed simp

lemma consume_again:
  assumes "snd (consume H k t) \<subseteq>\<^sub>m t'"
  shows "\<exists>e. consume H k t' = (Inl e, t')"
proof (cases rule: consume_cases [of H k t'])
  case (ok h)
  have "VerifyFinalizedReceipt H (call_header k) (call_commitment k) (call_commitmentProof k) (call_receipt k) (call_receiptProof k) = Inr ()"
    "rc_DestinationShard (call_receipt k) = call_shard k"
    using tracker_Consume_ok ok(3) unfolding consume_def by blast+
  then have "snd (consume H k t) h \<noteq> None"
    using ok(1) by (simp add: consume_def tracker_Consume_def Let_def)
  then have "t' h \<noteq> None" using assms by (metis domI domIff map_le_def)
  with ok(2) show ?thesis by simp
qed auto

lemma consumeAll_again: "trackerAfter H ks t \<subseteq>\<^sub>m t' \<Longrightarrow> consumeAll H ks t' = []"
proof (induction ks arbitrary: t)
  case (Cons k ks)
  have "snd (consume H k t) \<subseteq>\<^sub>m t'"
    using Cons.prems trackerAfter_mono map_le_trans by fastforce
  then obtain e where "consume H k t' = (Inl e, t')" using consume_again by blast
  then show ?case using Cons.IH [of "snd (consume H k t)"] Cons.prems by simp
qed simp

text \<open>
  C19. However often and in whatever order receipts are delivered, the tracker accepts each at most once,
  and a second delivery of everything is accepted nowhere.
\<close>

theorem tracker_no_replay:
  "distinct (map (Receipt_Hash H) (consumeAll H ks NewReceiptTracker)) \<and>
   consumeAll H (ks @ ks) NewReceiptTracker = consumeAll H ks NewReceiptTracker"
  using consumeAll_fresh [of H ks NewReceiptTracker] consumeAll_again [of H ks NewReceiptTracker]
  by (simp add: consumeAll_append map_le_refl)

text \<open>
  C29. Receipts, global headers and shard commitments have one encoding. The parser of receipts accepts exactly the byte
  strings that \<open>CanonicalBytes\<close> produces, the parser of global headers those of \<open>MarshalBinary\<close>, and the parser of
  commitments those that \<open>CanonicalBytes\<close>, which checks nothing, produces of a commitment whose state root is not zero.
\<close>

theorem sharding_wire_canonical:
  "(ParseCrossShardReceipt bs = Inr r \<longleftrightarrow> Receipt_CanonicalBytes r = Inr bs) \<and>
   (ParseGlobalHeader bs = Inr h \<longleftrightarrow> GlobalHeader_MarshalBinary h = Inr bs) \<and>
   (ParseCommitment bs = Inr c \<longleftrightarrow> Commitment_CanonicalBytes c = bs \<and> cm_StateRoot c \<noteq> 0)"
  by (auto simp: ReceiptWire.parse_iff HeaderWire.parse_iff CommitmentWire.parse_iff Receipt_CanonicalBytes_def Receipt_Validate_iff
    GlobalHeader_MarshalBinary_def GlobalHeader_CanonicalBytes_inject Let_def)

end
