(* ===== verification/Signatures.thy ===== *)
theory Signatures
  imports Codec
begin

text \<open>
  Signatures over P-256 (\<open>verifyDigest\<close>, \<open>signDigest\<close> and their helpers in
  \<open>internal/v2/consensus/consensus.go\<close>; \<open>verifySignature\<close>, \<open>normalizeLowS\<close> and \<open>pad32\<close> in
  \<open>internal/v2/tx/transaction.go\<close>).

  SHA-256, the decoding of curve points and ECDSA itself belong to the standard library of the platform:
  they are the fields of the record \<open>crypto\<close>, a parameter of every definition that uses them. A private
  key is a record of its curve test, its public key and its signing function. The \<open>big.Int\<close> values are
  natural numbers. The range checks and the low-S rule around the primitive are the code's own and are
  modelled; the order of the P-256 group is a constant.
\<close>

record crypto =
  sha256 :: hashfun
  unmarshal_ok :: "byte list \<Rightarrow> bool"
  ecdsa_verify :: "byte list \<Rightarrow> hash \<Rightarrow> nat \<Rightarrow> nat \<Rightarrow> bool"

record signer =
  sk_P256 :: bool
  sk_public :: "byte list"
  sk_sign :: "hash \<Rightarrow> (nat \<times> nat) option"

definition p256_order :: nat where
  "p256_order = 0xffffffff00000000ffffffffffffffffbce6faada7179e84f3b9cac2fc632551"

definition halfOrder :: nat where
  "halfOrder = p256_order div 2"

definition big_SetBytes :: "byte list \<Rightarrow> nat" where
  "big_SetBytes bs = foldl (\<lambda>n b. n * 256 + unat b) 0 bs"

definition verifyDigest :: "crypto \<Rightarrow> byte list \<Rightarrow> hash \<Rightarrow> byte list \<Rightarrow> unit result" where
  "verifyDigest C publicKey digest signature =
     (if length publicKey \<noteq> 65 \<or> length signature \<noteq> 64 then Inl ErrVote
      else if \<not> unmarshal_ok C publicKey then Inl ErrVote
      else
        let r = big_SetBytes (take 32 signature); s = big_SetBytes (drop 32 signature); order = p256_order
        in if r = 0 \<or> s = 0 \<or> order \<le> r \<or> order \<le> s \<or> halfOrder < s then Inl ErrVote
           else if \<not> ecdsa_verify C publicKey digest r s then Inl ErrVote
           else Inr ())"

text \<open>The variant of the transaction package, which is given a public key that was decoded already.\<close>

definition verifySignature :: "crypto \<Rightarrow> byte list \<Rightarrow> hash \<Rightarrow> byte list \<Rightarrow> unit result" where
  "verifySignature C publicKey digest signature =
     (if length signature \<noteq> 64 then Inl ErrSignature
      else
        let r = big_SetBytes (take 32 signature); s = big_SetBytes (drop 32 signature); order = p256_order
        in if r = 0 \<or> s = 0 \<or> order \<le> r \<or> order \<le> s then Inl ErrSignature
           else if order div 2 < s then Inl ErrCanonicalSig
           else if \<not> ecdsa_verify C publicKey digest r s then Inl ErrSignature
           else Inr ())"

definition normalizeLowS :: "nat \<Rightarrow> nat" where
  "normalizeLowS s = (if p256_order div 2 < s then p256_order - s else s)"

text \<open>
  \<open>pad32\<close>: the last 32 bytes of the minimal big-endian form, padded with zeros in front. That is the value
  modulo 2 ^ 256 in 32 bytes; the values padded are below the order.
\<close>

definition pad32 :: "nat \<Rightarrow> byte list" where
  "pad32 v = be_bytes 32 (of_nat v :: bytes32)"

definition signDigest :: "signer \<Rightarrow> hash \<Rightarrow> byte list result" where
  "signDigest k digest =
     (case sk_sign k digest of
        None \<Rightarrow> Inl ErrSign
      | Some (r, s) \<Rightarrow>
          let s = (if halfOrder < s then p256_order - s else s)
          in Inr (pad32 r @ pad32 s))"

definition signerIdentity :: "crypto \<Rightarrow> signer option \<Rightarrow> (byte list \<times> validatorid) result" where
  "signerIdentity C privateKey =
     (case privateKey of
        None \<Rightarrow> Inl ErrValidatorSet
      | Some k \<Rightarrow>
          if \<not> sk_P256 k then Inl ErrValidatorSet
          else Inr (sk_public k, ValidatorIDFromPublicKey (sha256 C) (sk_public k)))"

subsection \<open>Signatures have one form\<close>

lemma p256_order_bounds: "2 < p256_order" "p256_order < 2 ^ 256" "odd p256_order" "2 * halfOrder + 1 = p256_order"
  by (simp_all add: p256_order_def halfOrder_def)

lemma big_SetBytes_from_be:
  "length bs \<le> 32 \<Longrightarrow> big_SetBytes bs = unat (from_be bs :: bytes32) \<and> big_SetBytes bs < 2 ^ (8 * length bs)"
proof (induction bs rule: rev_induct)
  case (snoc b bs)
  let ?v = "from_be bs :: bytes32"
  have IH: "big_SetBytes bs = unat ?v" "big_SetBytes bs < 2 ^ (8 * length bs)" using snoc by auto
  have b: "unat b < 256" using unsigned_less [of b] by simp
  have e: "big_SetBytes (bs @ [b]) = unat ?v * 256 + unat b" using IH by (simp add: big_SetBytes_def)
  have lt: "unat ?v * 256 + unat b < 2 ^ (8 * length (bs @ [b]))"
    using IH b by (simp add: power_add)
  also have "\<dots> \<le> 2 ^ 256" using snoc.prems by (intro power_increasing) auto
  finally have fits: "unat ?v * 256 + unat b < 2 ^ 256" .
  have "(from_be (bs @ [b]) :: bytes32) = push_bit 8 ?v + ucast b"
  proof -
    have "\<not> (bit (push_bit 8 ?v) n \<and> bit (ucast b :: bytes32) n)" for n
      by (auto simp: bit_simps dest: bit_imp_le_length)
    then have "push_bit 8 ?v OR ucast b = push_bit 8 ?v + (ucast b :: bytes32)"
      by (intro disjunctive_add [symmetric]) auto
    then show ?thesis by (simp add: from_be_def shift_in_def)
  qed
  also have "unat \<dots> = unat ?v * 256 + unat b"
    using fits by (simp add: unat_word_ariths push_bit_eq_mult unsigned_ucast_eq take_bit_nat_eq_self b less_trans [OF b] mult.commute)
  finally show ?case using e lt by simp
qed (simp add: big_SetBytes_def from_be_def)

lemma big_SetBytes_pad32: "v < 2 ^ 256 \<Longrightarrow> big_SetBytes (pad32 v) = v"
  using big_SetBytes_from_be [of "pad32 v"]
  by (simp add: pad32_def from_be_be_bytes_full unat_of_nat_small)

lemma length_pad32 [simp]: "length (pad32 v) = 32"
  by (simp add: pad32_def)

text \<open>The other signature that ECDSA would accept: the same r with s replaced by its negative.\<close>

definition malleated :: "byte list \<Rightarrow> byte list" where
  "malleated signature = take 32 signature @ pad32 (p256_order - big_SetBytes (drop 32 signature))"

lemma malleated_s:
  assumes "length signature = 64"
  shows "take 32 (malleated signature) = take 32 signature"
    "big_SetBytes (drop 32 (malleated signature)) = p256_order - big_SetBytes (drop 32 signature)"
    "length (malleated signature) = 64"
proof -
  have "p256_order - big_SetBytes (drop 32 signature) < 2 ^ 256"
    using p256_order_bounds(2) by (rule le_less_trans [OF diff_le_self])
  then show "big_SetBytes (drop 32 (malleated signature)) = p256_order - big_SetBytes (drop 32 signature)"
    using assms by (simp add: malleated_def big_SetBytes_pad32)
qed (use assms in \<open>simp_all add: malleated_def\<close>)

lemma high_s: "s \<le> halfOrder \<Longrightarrow> halfOrder < p256_order - s"
  using p256_order_bounds(4) by linarith

text \<open>
  C28. Signatures are not malleable: when a vote or proposal signature is accepted, the twin that plain ECDSA
  would accept as well is refused, and for transactions it is refused with the low-S error.
\<close>

theorem signature_not_malleable:
  "(verifyDigest C pk d sig = Inr () \<longrightarrow> verifyDigest C pk d (malleated sig) = Inl ErrVote) \<and>
   (verifySignature C pk d sig = Inr () \<longrightarrow> verifySignature C pk d (malleated sig) = Inl ErrCanonicalSig)"
proof -
  let ?s = "big_SetBytes (drop 32 sig)"
  have "verifyDigest C pk d (malleated sig) = Inl ErrVote" if "verifyDigest C pk d sig = Inr ()"
  proof -
    have "length sig = 64" "?s \<le> halfOrder"
      using that by (auto simp: verifyDigest_def Let_def split: if_splits)
    then show ?thesis
      using high_s by (simp add: verifyDigest_def Let_def malleated_s)
  qed
  moreover have "verifySignature C pk d (malleated sig) = Inl ErrCanonicalSig" if "verifySignature C pk d sig = Inr ()"
  proof -
    have v: "length sig = 64" "?s \<le> halfOrder" "?s \<noteq> 0" "big_SetBytes (take 32 sig) \<noteq> 0" "big_SetBytes (take 32 sig) < p256_order"
      using that by (auto simp: verifySignature_def Let_def halfOrder_def split: if_splits)
    then have "halfOrder < p256_order - ?s" "p256_order - ?s < p256_order" "p256_order - ?s \<noteq> 0"
      using high_s [of ?s] p256_order_bounds(1) by linarith+
    then show ?thesis
      using v by (simp add: verifySignature_def Let_def malleated_s halfOrder_def)
  qed
  ultimately show ?thesis by blast
qed

text \<open>What the standard library documents of signing with a private key and verifying with its public key.\<close>

definition ecdsa_contract :: "crypto \<Rightarrow> signer \<Rightarrow> bool" where
  "ecdsa_contract C k \<longleftrightarrow>
     (\<forall>d r s. sk_sign k d = Some (r, s) \<longrightarrow>
        0 < r \<and> r < p256_order \<and> 0 < s \<and> s < p256_order \<and>
        ecdsa_verify C (sk_public k) d r s \<and> ecdsa_verify C (sk_public k) d r (p256_order - s))"

lemma signDigest_verifies:
  assumes "ecdsa_contract C k" "length (sk_public k) = 65" "unmarshal_ok C (sk_public k)" "signDigest k d = Inr sig"
  shows "verifyDigest C (sk_public k) d sig = Inr () \<and> length sig = 64"
proof -
  obtain r s where rs: "sk_sign k d = Some (r, s)" and sig: "sig = pad32 r @ pad32 (if halfOrder < s then p256_order - s else s)"
    using assms(4) by (auto simp: signDigest_def Let_def split: option.splits)
  let ?s = "if halfOrder < s then p256_order - s else s"
  have c: "0 < r" "r < p256_order" "0 < s" "s < p256_order" "ecdsa_verify C (sk_public k) d r ?s"
    using assms(1) rs by (auto simp: ecdsa_contract_def)
  have bs: "?s \<le> halfOrder" "0 < ?s" "?s < p256_order"
    using c p256_order_bounds(4) by (auto split: if_splits)
  have "big_SetBytes (take 32 sig) = r" "big_SetBytes (drop 32 sig) = ?s"
    using c(2) bs(3) p256_order_bounds(2) by (simp_all only: sig) (simp_all add: big_SetBytes_pad32)
  then show ?thesis
    using assms(2,3) c bs by (simp add: verifyDigest_def Let_def sig)
qed

text \<open>
  Whatever \<open>signDigest\<close> returns, after its normalisation to low S, \<open>verifyDigest\<close> accepts
  for the same key and digest.
\<close>

theorem sign_verify_roundtrip:
  assumes "ecdsa_contract C k" "length (sk_public k) = 65" "unmarshal_ok C (sk_public k)"
    and "signDigest k d = Inr sig"
  shows "verifyDigest C (sk_public k) d sig = Inr () \<and> length sig = 64"
  using assms by (rule signDigest_verifies)

definition toy_crypto :: crypto where
  "toy_crypto = \<lparr>sha256 = toy_hash, unmarshal_ok = (\<lambda>_. True), ecdsa_verify = (\<lambda>_ _ _ _. True)\<rparr>"

definition toy_signer :: "byte \<Rightarrow> signer" where
  "toy_signer b = \<lparr>sk_P256 = True, sk_public = replicate 65 b, sk_sign = (\<lambda>_. Some (1, p256_order - 1))\<rparr>"

lemma toy_crypto_sel [simp]:
  "sha256 toy_crypto = toy_hash" "unmarshal_ok toy_crypto pk" "ecdsa_verify toy_crypto pk d r s"
  by (simp_all add: toy_crypto_def)

lemma toy_contract: "ecdsa_contract toy_crypto (toy_signer b)"
  using p256_order_bounds(1) by (simp add: ecdsa_contract_def toy_signer_def)

theorem sign_verify_roundtrip_witness:
  "verifyDigest toy_crypto (replicate 65 4) 9 (pad32 1 @ pad32 1) = Inr () \<and> length (pad32 1 @ pad32 1) = 64"
proof -
  have "halfOrder < p256_order - 1" "p256_order - (p256_order - 1) = 1"
    using p256_order_bounds(1,4) by linarith+
  then have "signDigest (toy_signer 4) 9 = Inr (pad32 1 @ pad32 1)"
    by (simp add: signDigest_def toy_signer_def Let_def)
  from sign_verify_roundtrip [OF toy_contract _ _ this] show ?thesis
    by (simp add: toy_signer_def)
qed

theorem signature_not_malleable_witness:
  "verifyDigest toy_crypto (replicate 65 4) 9 (malleated (pad32 1 @ pad32 1)) = Inl ErrVote \<and>
   verifySignature toy_crypto (replicate 65 4) 9 (malleated (pad32 1 @ pad32 1)) = Inl ErrCanonicalSig"
proof -
  have "0 < halfOrder" using p256_order_bounds(1,4) by linarith
  then have "verifyDigest toy_crypto (replicate 65 4) 9 (pad32 1 @ pad32 1) = Inr ()"
    "verifySignature toy_crypto (replicate 65 4) 9 (pad32 1 @ pad32 1) = Inr ()"
    using p256_order_bounds(1)
    by (simp_all add: verifyDigest_def verifySignature_def Let_def big_SetBytes_pad32 flip: halfOrder_def)
  then show ?thesis using signature_not_malleable [of toy_crypto "replicate 65 4" 9 "pad32 1 @ pad32 1"] by blast
qed

end
