(* ===== verification/Consensus.thy ===== *)
theory Consensus
  imports Sharding Signatures
begin

text \<open>
  Validator sets, proposals, votes and quorum certificates (\<open>internal/v2/consensus\<close>: \<open>consensus.go\<close>,
  \<open>validator_root.go\<close>, \<open>transition.go\<close>).

  Voting powers are 64-bit words and every sum wraps as in Go; \<open>Validate\<close> refuses the sets on which it
  would. The Go maps used as sets of identities are lists of the identities seen. The map of members is a
  partial function built by the same loop.

  The lemmas show that the certificate check, which indexes the members once, accepts exactly what the check
  of each vote on its own would; that two certificates of one set for different headers of one round expose
  equivocating validators holding more than a third of the power; and that the proposer exists and takes turns
  in proportion to power.
\<close>

record Validator =
  val_ID :: validatorid
  val_PublicKey :: "byte list"
  val_Power :: u64

record ValidatorSet =
  vs_Network :: networkid
  vs_Validators :: "Validator list"

record Proposal =
  prop_Header :: GlobalHeader
  prop_Round :: u64
  prop_Proposer :: validatorid
  prop_PublicKey :: "byte list"
  prop_Signature :: "byte list"

record Vote =
  vote_Network :: networkid
  vote_Height :: u64
  vote_Round :: u64
  vote_HeaderHash :: hash
  vote_Voter :: validatorid
  vote_PublicKey :: "byte list"
  vote_Signature :: "byte list"

record Certificate =
  cert_Network :: networkid
  cert_Height :: u64
  cert_Round :: u64
  cert_HeaderHash :: hash
  cert_Votes :: "Vote list"

subsection \<open>Validator sets\<close>

definition validate_step :: "crypto \<Rightarrow> validatorid list \<times> u64 \<Rightarrow> Validator \<Rightarrow> (validatorid list \<times> u64) result" where
  "validate_step C st v =
     (let seen = fst st; total = snd st
      in if val_Power v = 0 \<or> length (val_PublicKey v) \<noteq> 65 \<or>
            ValidatorIDFromPublicKey (sha256 C) (val_PublicKey v) \<noteq> val_ID v then Inl ErrValidatorSet
         else if \<not> unmarshal_ok C (val_PublicKey v) then Inl ErrValidatorSet
         else if val_ID v \<in> set seen then Inl ErrValidatorSet
         else if overflows total (val_Power v) then Inl ErrValidatorSet
         else Inr (val_ID v # seen, total + val_Power v))"

definition VS_Validate :: "crypto \<Rightarrow> ValidatorSet \<Rightarrow> unit result" where
  "VS_Validate C s =
     (if IsZero32 (vs_Network s) \<or> vs_Validators s = [] then Inl ErrValidatorSet
      else tryE (foldE (validate_step C) ([], 0) (vs_Validators s)) (\<lambda>_. Inr ()))"

definition add_powers :: "Validator list \<Rightarrow> u64" where
  "add_powers vs = foldl (\<lambda>total v. total + val_Power v) 0 vs"

definition TotalPower :: "crypto \<Rightarrow> ValidatorSet \<Rightarrow> u64 result" where
  "TotalPower C s = tryE (VS_Validate C s) (\<lambda>_. Inr (add_powers (vs_Validators s)))"

definition QuorumPower :: "u64 \<Rightarrow> u64" where
  "QuorumPower t =
     (if t = 0 then 0
      else let q = t div 3; r = t mod 3 in q * 2 + (r * 2) div 3 + 1)"

primrec pick_proposer :: "u64 \<Rightarrow> u64 \<Rightarrow> Validator list \<Rightarrow> Validator result" where
  "pick_proposer slot cumulative [] = Inl ErrValidatorSet"
| "pick_proposer slot cumulative (v # vs) =
     (let cumulative = cumulative + val_Power v
      in if slot < cumulative then Inr v else pick_proposer slot cumulative vs)"

definition proposer_slot :: "u64 \<Rightarrow> u64 \<Rightarrow> u64 \<Rightarrow> u64" where
  "proposer_slot t height round' = ((height - 1) mod t + round' mod t) mod t"

definition Proposer :: "crypto \<Rightarrow> ValidatorSet \<Rightarrow> u64 \<Rightarrow> u64 \<Rightarrow> Validator result" where
  "Proposer C s height round' =
     tryAs ErrValidatorSet (TotalPower C s) (\<lambda>total.
     if height = 0 then Inl ErrValidatorSet
     else pick_proposer (proposer_slot total height round') 0 (sort_key val_ID (vs_Validators s)))"

definition validator_leaf :: "hashfun \<Rightarrow> Validator \<Rightarrow> hash" where
  "validator_leaf H v = Leaf H ''validator'' (w_Fixed32 (val_ID v) @ w_Bytes (val_PublicKey v) @ w_U64 (val_Power v))"

definition VS_Root :: "crypto \<Rightarrow> ValidatorSet \<Rightarrow> hash result" where
  "VS_Root C s =
     tryE (VS_Validate C s) (\<lambda>_.
       Inr (merkle_Root (sha256 C) (map (validator_leaf (sha256 C)) (sort_key val_ID (vs_Validators s)))))"

primrec find_validator :: "validatorid \<Rightarrow> Validator list \<Rightarrow> Validator option" where
  "find_validator vid [] = None"
| "find_validator vid (v # vs) = (if val_ID v = vid then Some v else find_validator vid vs)"

subsection \<open>Digests and signing\<close>

definition HeaderConsensusHash :: "hashfun \<Rightarrow> GlobalHeader \<Rightarrow> hash" where
  "HeaderConsensusHash H header =
     DomainHash H ''zephyr/global-header-consensus/v2'' (GlobalHeader_CanonicalBytes (header\<lparr>hdr_CertificateHash := 0\<rparr>))"

definition Proposal_SigningDigest :: "hashfun \<Rightarrow> Proposal \<Rightarrow> hash" where
  "Proposal_SigningDigest H p =
     DomainHash H ''zephyr/consensus/proposal/v2''
       (w_Fixed32 (HeaderConsensusHash H (prop_Header p)) @ w_U64 (prop_Round p) @ w_Fixed32 (prop_Proposer p))"

definition vote_body :: "Vote \<Rightarrow> byte list" where
  "vote_body v = w_Fixed32 (vote_Network v) @ w_U64 (vote_Height v) @ w_U64 (vote_Round v) @
     w_Fixed32 (vote_HeaderHash v) @ w_Fixed32 (vote_Voter v)"

definition Vote_SigningDigest :: "hashfun \<Rightarrow> Vote \<Rightarrow> hash" where
  "Vote_SigningDigest H v = DomainHash H ''zephyr/consensus/vote/v2'' (vote_body v)"

definition SignProposal :: "crypto \<Rightarrow> signer option \<Rightarrow> GlobalHeader \<Rightarrow> u64 \<Rightarrow> Proposal result" where
  "SignProposal C privateKey header round' =
     tryE (signerIdentity C privateKey) (\<lambda>(publicKey, validatorID).
     let proposal = \<lparr>prop_Header = header, prop_Round = round', prop_Proposer = validatorID,
                     prop_PublicKey = publicKey, prop_Signature = []\<rparr>
     in tryE (signDigest (the privateKey) (Proposal_SigningDigest (sha256 C) proposal)) (\<lambda>sig.
        Inr (proposal\<lparr>prop_Signature := sig\<rparr>)))"

definition SignVote :: "crypto \<Rightarrow> signer option \<Rightarrow> networkid \<Rightarrow> u64 \<Rightarrow> u64 \<Rightarrow> hash \<Rightarrow> Vote result" where
  "SignVote C privateKey network height round' headerHash =
     tryE (signerIdentity C privateKey) (\<lambda>(publicKey, validatorID).
     let vote = \<lparr>vote_Network = network, vote_Height = height, vote_Round = round', vote_HeaderHash = headerHash,
                 vote_Voter = validatorID, vote_PublicKey = publicKey, vote_Signature = []\<rparr>
     in tryE (signDigest (the privateKey) (Vote_SigningDigest (sha256 C) vote)) (\<lambda>sig.
        Inr (vote\<lparr>vote_Signature := sig\<rparr>)))"

subsection \<open>Verification\<close>

definition VerifyProposal :: "crypto \<Rightarrow> ValidatorSet \<Rightarrow> Proposal \<Rightarrow> unit result" where
  "VerifyProposal C s p =
     (if \<not> is_ok (VS_Validate C s) \<or> hdr_Network (prop_Header p) \<noteq> vs_Network s \<or>
         hdr_Height (prop_Header p) = 0 \<or> hdr_CertificateHash (prop_Header p) \<noteq> 0 then Inl ErrProposal
      else
        tryAs ErrProposal (VS_Root C s) (\<lambda>validatorRoot.
        if validatorRoot \<noteq> hdr_ValidatorRoot (prop_Header p) then Inl ErrProposal else
        tryAs ErrProposal (Proposer C s (hdr_Height (prop_Header p)) (prop_Round p)) (\<lambda>expected.
        if val_ID expected \<noteq> prop_Proposer p \<or> val_PublicKey expected \<noteq> prop_PublicKey p then Inl ErrProposal
        else if ValidatorIDFromPublicKey (sha256 C) (prop_PublicKey p) \<noteq> prop_Proposer p \<or>
          \<not> is_ok (verifyDigest C (prop_PublicKey p) (Proposal_SigningDigest (sha256 C) p) (prop_Signature p))
        then Inl ErrProposal else Inr ())))"

definition VerifyVote :: "crypto \<Rightarrow> ValidatorSet \<Rightarrow> Vote \<Rightarrow> unit result" where
  "VerifyVote C s vote =
     (if vote_Network vote \<noteq> vs_Network s \<or> vote_Height vote = 0 \<or> IsZero32 (vote_HeaderHash vote) \<or>
         ValidatorIDFromPublicKey (sha256 C) (vote_PublicKey vote) \<noteq> vote_Voter vote then Inl ErrVote
      else case find_validator (vote_Voter vote) (vs_Validators s) of
        None \<Rightarrow> Inl ErrVote
      | Some v \<Rightarrow>
          if val_PublicKey v \<noteq> vote_PublicKey vote \<or>
             \<not> is_ok (verifyDigest C (vote_PublicKey vote) (Vote_SigningDigest (sha256 C) vote) (vote_Signature vote))
          then Inl ErrVote else Inr ())"

definition members_of :: "Validator list \<Rightarrow> validatorid \<rightharpoonup> Validator" where
  "members_of vs = foldl (\<lambda>m v. m(val_ID v \<mapsto> v)) Map.empty vs"

definition count_vote :: "crypto \<Rightarrow> (validatorid \<rightharpoonup> Validator) \<Rightarrow> Certificate \<Rightarrow> validatorid list \<times> u64 \<Rightarrow> Vote \<Rightarrow>
    (validatorid list \<times> u64) result" where
  "count_vote C members c st vote =
     (let seen = fst st; power = snd st
      in if vote_Network vote \<noteq> cert_Network c \<or> vote_Height vote \<noteq> cert_Height c \<or>
            vote_Round vote \<noteq> cert_Round c \<or> vote_HeaderHash vote \<noteq> cert_HeaderHash c then Inl ErrCertificate
         else if vote_Voter vote \<in> set seen then Inl ErrCertificate
         else case members (vote_Voter vote) of
           None \<Rightarrow> Inl ErrCertificate
         | Some v \<Rightarrow>
             if ValidatorIDFromPublicKey (sha256 C) (vote_PublicKey vote) \<noteq> vote_Voter vote \<or>
                val_PublicKey v \<noteq> vote_PublicKey vote \<or>
                \<not> is_ok (verifyDigest C (vote_PublicKey vote) (Vote_SigningDigest (sha256 C) vote) (vote_Signature vote))
             then Inl ErrCertificate
             else Inr (vote_Voter vote # seen, power + val_Power v))"

definition VerifyCertificate :: "crypto \<Rightarrow> ValidatorSet \<Rightarrow> Certificate \<Rightarrow> unit result" where
  "VerifyCertificate C s c =
     (if \<not> is_ok (VS_Validate C s) \<or> cert_Network c \<noteq> vs_Network s \<or> cert_Height c = 0 \<or>
         IsZero32 (cert_HeaderHash c) then Inl ErrCertificate
      else
        let members = members_of (vs_Validators s); total = add_powers (vs_Validators s);
            quorum = QuorumPower total
        in tryE (foldE (count_vote C members c) ([], 0) (cert_Votes c)) (\<lambda>(seen, power).
           if power < quorum then Inl ErrInsufficientPower else Inr ()))"

definition BuildCertificate :: "crypto \<Rightarrow> ValidatorSet \<Rightarrow> Proposal \<Rightarrow> Vote list \<Rightarrow> Certificate result" where
  "BuildCertificate C s p votes =
     tryE (VerifyProposal C s p) (\<lambda>_.
     let certificate = \<lparr>cert_Network = vs_Network s, cert_Height = hdr_Height (prop_Header p),
           cert_Round = prop_Round p, cert_HeaderHash = HeaderConsensusHash (sha256 C) (prop_Header p),
           cert_Votes = votes\<rparr>
     in tryE (VerifyCertificate C s certificate) (\<lambda>_. Inr certificate))"

definition Certificate_Hash :: "hashfun \<Rightarrow> Certificate \<Rightarrow> hash" where
  "Certificate_Hash H c =
     (let votes = sort_key vote_Voter (cert_Votes c)
      in DomainHash H ''zephyr/quorum-certificate/v2''
           (w_Fixed32 (cert_Network c) @ w_U64 (cert_Height c) @ w_U64 (cert_Round c) @
            w_Fixed32 (cert_HeaderHash c) @ w_U32 (of_nat (length votes)) @
            concat (map (\<lambda>v. w_Fixed32 (vote_Voter v) @ w_Bytes (vote_PublicKey v) @ w_Bytes (vote_Signature v)) votes)))"

definition VerifyCertifiedTransition ::
  "crypto \<Rightarrow> GlobalHeader \<Rightarrow> Certificate \<Rightarrow> ValidatorSet \<Rightarrow> ValidatorSet \<Rightarrow> unit result" where
  "VerifyCertifiedTransition C header certificate current next =
     tryAs ErrValidatorSet (VS_Root C current) (\<lambda>currentRoot.
     if vs_Network current \<noteq> hdr_Network header \<or> currentRoot \<noteq> hdr_ValidatorRoot header then Inl ErrValidatorSet
     else if cert_Network certificate \<noteq> hdr_Network header \<or> cert_Height certificate \<noteq> hdr_Height header \<or>
       cert_HeaderHash certificate \<noteq> HeaderConsensusHash (sha256 C) header \<or>
       hdr_CertificateHash header \<noteq> Certificate_Hash (sha256 C) certificate then Inl ErrCertificate
     else tryE (VerifyCertificate C current certificate) (\<lambda>_.
       tryAs ErrValidatorSet (VS_Root C next) (\<lambda>nextRoot.
       if vs_Network next \<noteq> hdr_Network header \<or> nextRoot \<noteq> EffectiveNextValidatorRoot header
       then Inl ErrValidatorSet else Inr ())))"

subsection \<open>Powers as natural numbers\<close>

definition npow :: "Validator list \<Rightarrow> nat" where
  "npow vs = sum_list (map (\<lambda>v. unat (val_Power v)) vs)"

lemma npow_simps [simp]: "npow [] = 0" "npow (v # vs) = unat (val_Power v) + npow vs" "npow (vs @ ws) = npow vs + npow ws"
  by (simp_all add: npow_def)

lemma npow_filter_le: "npow (filter P vs) \<le> npow vs"
  by (induction vs) auto

lemma npow_mset: "mset vs = mset ws \<Longrightarrow> npow vs = npow ws"
proof -
  assume "mset vs = mset ws"
  then have "mset (map (\<lambda>v. unat (val_Power v)) vs) = mset (map (\<lambda>v. unat (val_Power v)) ws)" by simp
  then show ?thesis unfolding npow_def by (metis sum_mset_sum_list)
qed

lemma npow_sort [simp]: "npow (sort_key f vs) = npow vs"
  by (rule npow_mset) simp

definition validator_ok :: "crypto \<Rightarrow> Validator \<Rightarrow> bool" where
  "validator_ok C v \<longleftrightarrow> val_Power v \<noteq> 0 \<and> length (val_PublicKey v) = 65 \<and>
     ValidatorIDFromPublicKey (sha256 C) (val_PublicKey v) = val_ID v \<and> unmarshal_ok C (val_PublicKey v)"

definition valid_set :: "crypto \<Rightarrow> ValidatorSet \<Rightarrow> bool" where
  "valid_set C s \<longleftrightarrow> vs_Network s \<noteq> 0 \<and> vs_Validators s \<noteq> [] \<and> list_all (validator_ok C) (vs_Validators s) \<and>
     distinct (map val_ID (vs_Validators s)) \<and> npow (vs_Validators s) < 2 ^ 64"

lemma validate_step_iff:
  "validate_step C (seen, t) v = Inr st \<longleftrightarrow>
     validator_ok C v \<and> val_ID v \<notin> set seen \<and> unat t + unat (val_Power v) < 2 ^ 64 \<and>
     st = (val_ID v # seen, t + val_Power v)"
  by (auto simp: validate_step_def validator_ok_def Let_def overflows_iff)

lemma foldE_validate:
  "(\<exists>st. foldE (validate_step C) (seen, t) vs = Inr st) \<longleftrightarrow>
     list_all (validator_ok C) vs \<and> distinct (map val_ID vs) \<and> set (map val_ID vs) \<inter> set seen = {} \<and>
     unat t + npow vs < 2 ^ 64"
proof (induction vs arbitrary: seen t)
  case Nil
  show ?case using unsigned_less [of t] by simp
next
  case (Cons v vs)
  have "(\<exists>st. foldE (validate_step C) (seen, t) (v # vs) = Inr st) \<longleftrightarrow>
      validator_ok C v \<and> val_ID v \<notin> set seen \<and> unat t + unat (val_Power v) < 2 ^ 64 \<and>
      (\<exists>st. foldE (validate_step C) (val_ID v # seen, t + val_Power v) vs = Inr st)"
    by (auto simp: validate_step_iff)
  also have "\<dots> \<longleftrightarrow> validator_ok C v \<and> val_ID v \<notin> set seen \<and> unat t + unat (val_Power v) < 2 ^ 64 \<and>
      list_all (validator_ok C) vs \<and> distinct (map val_ID vs) \<and> set (map val_ID vs) \<inter> set (val_ID v # seen) = {} \<and>
      unat t + unat (val_Power v) + npow vs < 2 ^ 64"
  proof -
    have "unat (t + val_Power v) = unat t + unat (val_Power v)" if "unat t + unat (val_Power v) < 2 ^ 64"
      using that by (simp add: unat_word_ariths)
    then show ?thesis unfolding Cons by auto
  qed
  also have "\<dots> \<longleftrightarrow> list_all (validator_ok C) (v # vs) \<and> distinct (map val_ID (v # vs)) \<and>
      set (map val_ID (v # vs)) \<inter> set seen = {} \<and> unat t + npow (v # vs) < 2 ^ 64"
    by auto
  finally show ?case .
qed

lemma VS_Validate_iff: "VS_Validate C s = Inr u \<longleftrightarrow> valid_set C s"
  using foldE_validate [of C "[]" 0 "vs_Validators s"]
  by (auto simp: VS_Validate_def valid_set_def IsZero32_def)

lemma is_ok_VS_Validate [simp]: "is_ok (VS_Validate C s) \<longleftrightarrow> valid_set C s"
  by (auto simp: is_ok_iff VS_Validate_iff)

lemma foldl_powers: "unat t + npow vs < 2 ^ 64 \<Longrightarrow> unat (foldl (\<lambda>total v. total + val_Power v) t vs) = unat t + npow vs"
proof (induction vs arbitrary: t)
  case (Cons v vs)
  then have "unat (t + val_Power v) = unat t + unat (val_Power v)"
    by (simp add: unat_word_ariths)
  then show ?case using Cons by simp
qed simp

lemma add_powers_unat: "npow vs < 2 ^ 64 \<Longrightarrow> unat (add_powers vs) = npow vs"
  using foldl_powers [of 0 vs] by (simp add: add_powers_def)

lemma valid_set_total: "valid_set C s \<Longrightarrow> unat (add_powers (vs_Validators s)) = npow (vs_Validators s) \<and> 0 < npow (vs_Validators s)"
proof -
  assume v: "valid_set C s"
  then obtain x xs where "vs_Validators s = x # xs" "val_Power x \<noteq> 0"
    by (cases "vs_Validators s") (auto simp: valid_set_def validator_ok_def)
  then have "0 < npow (vs_Validators s)" by (simp add: unat_gt_0)
  with v show ?thesis by (simp add: valid_set_def add_powers_unat)
qed

subsection \<open>Quorums\<close>

text \<open>
  What a quorum threshold promises: more than two thirds of the total, and no more than the total. Any two
  sets of members that reach it then share more than a third of the weight.
\<close>

locale quorum_threshold =
  fixes Q :: "u64 \<Rightarrow> u64"
  assumes two_thirds: "t \<noteq> 0 \<Longrightarrow> 2 * unat t < 3 * unat (Q t)"
    and attainable: "unat (Q t) \<le> unat t"
begin

lemma intersection:
  assumes "finite M" "A \<subseteq> M" "B \<subseteq> M" "sum w M = unat t" "t \<noteq> 0" "unat (Q t) \<le> sum w A" "unat (Q t) \<le> sum w B"
  shows "unat t < 3 * sum w (A \<inter> B)"
proof -
  have fin: "finite A" "finite B" using assms(1,2,3) by (auto dest: finite_subset)
  have "sum w (A \<union> B) \<le> sum w M" by (rule sum_mono2) (use assms in auto)
  moreover have "sum w (A \<union> B) + sum w (A \<inter> B) = sum w A + sum w B"
    using sum.union_inter [OF fin, of w] by simp
  ultimately show ?thesis using two_thirds [OF assms(5)] assms(4,6,7) by linarith
qed

lemma everyone_suffices: "sum w M = unat t \<Longrightarrow> unat (Q t) \<le> sum w M"
  using attainable by simp

end

lemma unat_QuorumPower: "t \<noteq> 0 \<Longrightarrow> unat (QuorumPower t) = unat t div 3 * 2 + (unat t mod 3 * 2) div 3 + 1"
proof -
  assume t: "t \<noteq> 0"
  let ?n = "unat t"
  have q: "unat (t div 3) = ?n div 3" and r: "unat (t mod 3) = ?n mod 3"
    by (simp_all add: unat_div unat_mod)
  have n: "?n < 2 ^ 64" "0 < ?n" using unsigned_less [of t] t by (simp_all add: unat_gt_0)
  have r2: "unat (t mod 3 * 2) = ?n mod 3 * 2"
    by (simp add: unat_word_ariths r)
  then have r3: "unat (t mod 3 * 2 div 3) = ?n mod 3 * 2 div 3" by (simp add: unat_div)
  have q2: "unat (t div 3 * 2) = ?n div 3 * 2"
    using n by (simp add: unat_word_ariths q)
  have s: "?n div 3 * 2 + ?n mod 3 * 2 div 3 + 1 \<le> ?n" using n(2) by presburger
  have "unat (t div 3 * 2 + t mod 3 * 2 div 3) = ?n div 3 * 2 + ?n mod 3 * 2 div 3"
    using s n(1) by (simp add: unat_word_ariths(1) q2 r3)
  then show ?thesis
    using t s n(1) by (simp add: QuorumPower_def Let_def unat_word_ariths(1))
qed

interpretation quorum: quorum_threshold QuorumPower
proof
  fix t :: u64
  show "t \<noteq> 0 \<Longrightarrow> 2 * unat t < 3 * unat (QuorumPower t)"
    using unat_QuorumPower [of t] by presburger
  show "unat (QuorumPower t) \<le> unat t"
  proof (cases "t = 0")
    case False
    then have "0 < unat t" by (simp add: unat_gt_0)
    then show ?thesis using unat_QuorumPower [OF False] by presburger
  qed (simp add: QuorumPower_def)
qed

subsection \<open>The certificate check\<close>

lemma foldl_members: "foldl (\<lambda>m v. m(val_ID v \<mapsto> v)) m vs k =
    (case find_validator k (rev vs) of None \<Rightarrow> m k | Some v \<Rightarrow> Some v)"
proof (induction vs arbitrary: m)
  case (Cons v vs)
  have "find_validator k (xs @ [v]) = (case find_validator k xs of None \<Rightarrow> (if val_ID v = k then Some v else None) | Some w \<Rightarrow> Some w)" for xs
    by (induction xs) auto
  then show ?case using Cons by (simp split: option.split)
qed simp

lemma find_validator_iff:
  "distinct (map val_ID vs) \<Longrightarrow> find_validator k vs = Some v \<longleftrightarrow> v \<in> set vs \<and> val_ID v = k"
  by (induction vs) force+

lemma find_validator_None: "find_validator k vs = None \<longleftrightarrow> k \<notin> val_ID ` set vs"
  by (induction vs) auto

lemma members_of_find: "distinct (map val_ID vs) \<Longrightarrow> members_of vs k = find_validator k vs"
proof -
  assume d: "distinct (map val_ID vs)"
  then have "find_validator k (rev vs) = find_validator k vs"
    using find_validator_iff [of vs k] find_validator_iff [of "rev vs" k] find_validator_None [of k vs] find_validator_None [of k "rev vs"]
    by (cases "find_validator k vs") (auto simp: rev_map [symmetric])
  then show ?thesis by (simp add: members_of_def foldl_members split: option.split)
qed

definition vote_matches :: "Certificate \<Rightarrow> Vote \<Rightarrow> bool" where
  "vote_matches c w \<longleftrightarrow> vote_Network w = cert_Network c \<and> vote_Height w = cert_Height c \<and>
     vote_Round w = cert_Round c \<and> vote_HeaderHash w = cert_HeaderHash c"

definition member_vote :: "crypto \<Rightarrow> (validatorid \<rightharpoonup> Validator) \<Rightarrow> Vote \<Rightarrow> bool" where
  "member_vote C M w \<longleftrightarrow> (\<exists>v. M (vote_Voter w) = Some v \<and> val_PublicKey v = vote_PublicKey w) \<and>
     ValidatorIDFromPublicKey (sha256 C) (vote_PublicKey w) = vote_Voter w \<and>
     is_ok (verifyDigest C (vote_PublicKey w) (Vote_SigningDigest (sha256 C) w) (vote_Signature w))"

definition vote_power :: "(validatorid \<rightharpoonup> Validator) \<Rightarrow> Vote \<Rightarrow> u64" where
  "vote_power M w = val_Power (the (M (vote_Voter w)))"

lemma count_vote_iff:
  "count_vote C M c (seen, p) w = Inr st \<longleftrightarrow>
     vote_matches c w \<and> vote_Voter w \<notin> set seen \<and> member_vote C M w \<and> st = (vote_Voter w # seen, p + vote_power M w)"
  by (auto simp: count_vote_def vote_matches_def member_vote_def vote_power_def Let_def split: option.splits if_splits)

lemma count_vote_error: "count_vote C M c st w = Inl e \<Longrightarrow> e = ErrCertificate"
  by (auto simp: count_vote_def Let_def split: option.splits if_splits)

lemma foldE_count_error: "foldE (count_vote C M c) st ws = Inl e \<Longrightarrow> e = ErrCertificate"
proof (induction ws arbitrary: st)
  case (Cons w ws)
  then show ?case by (cases "count_vote C M c st w") (auto dest: count_vote_error)
qed simp

lemma foldE_count:
  "foldE (count_vote C M c) (seen, p) ws = Inr (seen', p') \<longleftrightarrow>
     (\<forall>w \<in> set ws. vote_matches c w \<and> member_vote C M w) \<and> distinct (map vote_Voter ws) \<and>
     vote_Voter ` set ws \<inter> set seen = {} \<and> seen' = rev (map vote_Voter ws) @ seen \<and>
     p' = p + sum_list (map (vote_power M) ws)"
proof (induction ws arbitrary: seen p)
  case (Cons w ws)
  have "foldE (count_vote C M c) (seen, p) (w # ws) = Inr (seen', p') \<longleftrightarrow>
      vote_matches c w \<and> vote_Voter w \<notin> set seen \<and> member_vote C M w \<and>
      foldE (count_vote C M c) (vote_Voter w # seen, p + vote_power M w) ws = Inr (seen', p')"
    by (auto simp: count_vote_iff)
  then show ?case unfolding Cons by (auto simp: add.assoc)
qed auto

definition voters :: "Vote list \<Rightarrow> validatorid set" where
  "voters ws = vote_Voter ` set ws"

definition power_of_voters :: "ValidatorSet \<Rightarrow> Vote list \<Rightarrow> nat" where
  "power_of_voters s ws = npow (filter (\<lambda>v. val_ID v \<in> voters ws) (vs_Validators s))"

lemma npow_sum: "distinct (map val_ID vs) \<Longrightarrow> npow vs = (\<Sum>v \<in> set vs. unat (val_Power v))"
  by (simp add: npow_def sum_list_distinct_conv_sum_set distinct_map)

lemma sum_list_words:
  "sum_list (map (\<lambda>w. unat (f w)) ws) < 2 ^ 64 \<Longrightarrow>
   unat (sum_list (map f ws) :: u64) = sum_list (map (\<lambda>w. unat (f w)) ws)"
proof (induction ws)
  case (Cons w ws)
  then show ?case by (simp add: unat_word_ariths)
qed simp

lemma vote_powers:
  assumes "distinct (map val_ID vs)" "distinct (map vote_Voter ws)" "\<forall>w \<in> set ws. vote_Voter w \<in> val_ID ` set vs"
  shows "sum_list (map (\<lambda>w. unat (vote_power (members_of vs) w)) ws) = npow (filter (\<lambda>v. val_ID v \<in> voters ws) vs)"
proof -
  let ?M = "members_of vs" and ?A = "filter (\<lambda>v. val_ID v \<in> voters ws) vs"
  let ?pw = "\<lambda>k. unat (val_Power (the (?M k)))"
  have M: "?M (val_ID v) = Some v" if "v \<in> set vs" for v
    using that assms(1) by (simp add: members_of_find find_validator_iff)
  have "sum_list (map (\<lambda>w. unat (vote_power ?M w)) ws) = sum_list (map ?pw (map vote_Voter ws))"
    by (simp add: vote_power_def comp_def)
  also have "\<dots> = sum ?pw (set (map vote_Voter ws))"
    using assms(2) by (rule sum_list_distinct_conv_sum_set)
  also have "set (map vote_Voter ws) = val_ID ` set ?A"
    using assms(3) by (force simp: voters_def image_iff)
  also have "sum ?pw (val_ID ` set ?A) = sum (?pw \<circ> val_ID) (set ?A)"
    using assms(1) by (intro sum.reindex) (auto simp: distinct_map inj_on_def)
  also have "\<dots> = (\<Sum>v \<in> set ?A. unat (val_Power v))"
    using M by (intro sum.cong) auto
  also have "\<dots> = npow ?A"
    using assms(1) by (simp add: npow_sum distinct_map_filter)
  finally show ?thesis .
qed

lemma member_vote_VerifyVote:
  assumes "distinct (map val_ID (vs_Validators s))" "cert_Network c = vs_Network s" "cert_Height c \<noteq> 0"
    "cert_HeaderHash c \<noteq> 0" "vote_matches c w"
  shows "member_vote C (members_of (vs_Validators s)) w \<longleftrightarrow> VerifyVote C s w = Inr ()"
  using assms
  by (auto simp: member_vote_def VerifyVote_def vote_matches_def members_of_find IsZero32_def split: option.splits)

text \<open>The check of a certificate by its votes: the reference for the indexed loop.\<close>

definition certificate_spec :: "crypto \<Rightarrow> ValidatorSet \<Rightarrow> Certificate \<Rightarrow> bool" where
  "certificate_spec C s c \<longleftrightarrow>
     valid_set C s \<and> cert_Network c = vs_Network s \<and> cert_Height c \<noteq> 0 \<and> cert_HeaderHash c \<noteq> 0 \<and>
     (\<forall>w \<in> set (cert_Votes c). vote_matches c w \<and> VerifyVote C s w = Inr ()) \<and>
     distinct (map vote_Voter (cert_Votes c))"

definition quorum_reached :: "ValidatorSet \<Rightarrow> Vote list \<Rightarrow> bool" where
  "quorum_reached s ws \<longleftrightarrow> unat (QuorumPower (add_powers (vs_Validators s))) \<le> power_of_voters s ws"

lemma VerifyVote_member: "VerifyVote C s w = Inr u \<Longrightarrow> vote_Voter w \<in> val_ID ` set (vs_Validators s)"
  using find_validator_None [of "vote_Voter w" "vs_Validators s"]
  by (auto simp: VerifyVote_def split: if_splits option.splits)

lemma counted_power:
  assumes "valid_set C s" "distinct (map vote_Voter ws)" "\<forall>w \<in> set ws. vote_Voter w \<in> val_ID ` set (vs_Validators s)"
  shows "unat (sum_list (map (vote_power (members_of (vs_Validators s))) ws)) = power_of_voters s ws"
proof -
  let ?vs = "vs_Validators s"
  have v: "distinct (map val_ID ?vs)" "npow ?vs < 2 ^ 64" using assms(1) by (auto simp: valid_set_def)
  have e: "sum_list (map (\<lambda>w. unat (vote_power (members_of ?vs) w)) ws) = power_of_voters s ws"
    using vote_powers [OF v(1) assms(2,3)] by (simp add: power_of_voters_def)
  moreover have "power_of_voters s ws < 2 ^ 64"
    using npow_filter_le v(2) unfolding power_of_voters_def by (rule le_less_trans)
  ultimately show ?thesis using sum_list_words [of "vote_power (members_of ?vs)" ws] by simp
qed

lemma VerifyCertificate_cases:
  "VerifyCertificate C s c =
     (if \<not> certificate_spec C s c then Inl ErrCertificate
      else if quorum_reached s (cert_Votes c) then Inr () else Inl ErrInsufficientPower)"
proof (cases "valid_set C s \<and> cert_Network c = vs_Network s \<and> cert_Height c \<noteq> 0 \<and> cert_HeaderHash c \<noteq> 0")
  case False
  then show ?thesis by (auto simp: VerifyCertificate_def certificate_spec_def IsZero32_def)
next
  case True
  let ?M = "members_of (vs_Validators s)" and ?ws = "cert_Votes c"
  let ?Q = "QuorumPower (add_powers (vs_Validators s))"
  have d: "distinct (map val_ID (vs_Validators s))" using True by (simp add: valid_set_def)
  have spec: "certificate_spec C s c \<longleftrightarrow> (\<forall>w \<in> set ?ws. vote_matches c w \<and> member_vote C ?M w) \<and> distinct (map vote_Voter ?ws)"
    using True member_vote_VerifyVote [OF d] by (auto simp: certificate_spec_def)
  have V: "VerifyCertificate C s c = tryE (foldE (count_vote C ?M c) ([], 0) ?ws) (\<lambda>(seen, power).
           if power < ?Q then Inl ErrInsufficientPower else Inr ())"
    using True by (simp add: VerifyCertificate_def IsZero32_def Let_def)
  show ?thesis
  proof (cases "foldE (count_vote C ?M c) ([], 0) ?ws")
    case (Inl e)
    then have "e = ErrCertificate" by (rule foldE_count_error)
    moreover have "\<not> certificate_spec C s c"
      using Inl foldE_count [of C ?M c "[]" 0 ?ws] unfolding spec by force
    ultimately show ?thesis by (simp add: V Inl)
  next
    case (Inr st)
    then have ok: "foldE (count_vote C ?M c) ([], 0) ?ws = Inr (fst st, snd st)" by simp
    then have s: "certificate_spec C s c" and p: "snd st = sum_list (map (vote_power ?M) ?ws)"
      unfolding spec foldE_count by auto
    have "\<forall>w \<in> set ?ws. vote_Voter w \<in> val_ID ` set (vs_Validators s)"
      using s VerifyVote_member by (auto simp: certificate_spec_def)
    then have "unat (snd st) = power_of_voters s ?ws"
      unfolding p using True s by (intro counted_power) (auto simp: certificate_spec_def)
    then show ?thesis
      using s by (auto simp: V Inr quorum_reached_def word_less_nat_alt split: prod.split)
  qed
qed

subsection \<open>Safety, proposers and signed votes\<close>

lemma pick_proposer_iff:
  "unat c + npow (as @ v # bs) < 2 ^ 64 \<Longrightarrow> unat c \<le> unat slot \<Longrightarrow> distinct (as @ v # bs) \<Longrightarrow>
   pick_proposer slot c (as @ v # bs) = Inr v \<longleftrightarrow>
     unat c + npow as \<le> unat slot \<and> unat slot < unat c + npow as + unat (val_Power v)"
proof (induction as arbitrary: c)
  case Nil
  have c: "unat (c + val_Power v) = unat c + unat (val_Power v)"
    using Nil by (simp add: unat_word_ariths)
  have "pick_proposer slot c' bs \<noteq> Inr v" for c'
    using Nil.prems(3) by (induction bs arbitrary: c') (auto simp: Let_def)
  then show ?case using Nil.prems(2) c by (simp add: Let_def word_less_nat_alt)
next
  case (Cons a as)
  have c: "unat (c + val_Power a) = unat c + unat (val_Power a)"
    using Cons.prems by (simp add: unat_word_ariths)
  show ?case
  proof (cases "slot < c + val_Power a")
    case True
    then show ?thesis using Cons.prems c by (simp add: Let_def word_less_nat_alt)
  next
    case False
    then show ?thesis
      using Cons.prems Cons.IH [of "c + val_Power a"] c by (simp add: Let_def word_less_nat_alt add.assoc)
  qed
qed

lemma pick_proposer_exists:
  "unat c + npow vs < 2 ^ 64 \<Longrightarrow> unat slot < unat c + npow vs \<Longrightarrow> unat c \<le> unat slot \<Longrightarrow>
   \<exists>v \<in> set vs. pick_proposer slot c vs = Inr v"
proof (induction vs arbitrary: c)
  case (Cons v vs)
  have c: "unat (c + val_Power v) = unat c + unat (val_Power v)"
    using Cons.prems by (simp add: unat_word_ariths)
  show ?case
  proof (cases "slot < c + val_Power v")
    case False
    then show ?thesis using Cons.prems Cons.IH [of "c + val_Power v"] c by (simp add: Let_def word_less_nat_alt)
  qed (simp add: Let_def)
qed simp

lemma proposer_slot_unat:
  "unat t \<le> 2 ^ 63 \<Longrightarrow> t \<noteq> 0 \<Longrightarrow> unat (proposer_slot t h r) = (unat (h - 1) + unat r) mod unat t"
proof -
  assume t: "unat t \<le> 2 ^ 63" "t \<noteq> 0"
  then have p: "0 < unat t" by (simp add: unat_gt_0)
  let ?a = "unat (h - 1) mod unat t" and ?b = "unat r mod unat t"
  have "?a < unat t" "?b < unat t" using p by simp_all
  moreover have "(2 :: nat) ^ 63 + 2 ^ 63 = 2 ^ 64" by simp
  ultimately have "?a + ?b < 2 ^ 64" using t(1) by linarith
  then have "unat ((h - 1) mod t + r mod t) = ?a + ?b"
    by (simp add: unat_word_ariths(1) unat_mod)
  then show ?thesis by (simp add: proposer_slot_def unat_mod mod_add_eq)
qed

lemma card_rotation:
  assumes "S \<subseteq> {0..<t}" "0 < (t :: nat)"
  shows "card {r. r < t \<and> (a + r) mod t \<in> S} = card S"
proof -
  let ?f = "\<lambda>r. (a + r) mod t"
  have inj: "inj_on ?f {0..<t}"
  proof (rule inj_onI)
    fix x y assume xy: "x \<in> {0..<t}" "y \<in> {0..<t}" "?f x = ?f y"
    have "x mod t = y mod t"
      using xy(3) unfolding nat_mod_eq_iff by (metis add.assoc add_left_cancel)
    then show "x = y" using xy by simp
  qed
  have "?f ` {0..<t} = {0..<t}"
    using inj assms(2) by (intro endo_inj_surj) auto
  then have "card {r \<in> {0..<t}. ?f r \<in> S} = card (?f ` {r \<in> {0..<t}. ?f r \<in> S})"
    using inj by (intro card_image [symmetric]) (auto intro: inj_on_subset)
  also have "?f ` {r \<in> {0..<t}. ?f r \<in> S} = S"
    using \<open>?f ` {0..<t} = {0..<t}\<close> assms(1) by (auto simp: image_iff) (metis (no_types, lifting) atLeastLessThan_iff imageE subset_iff)
  finally show ?thesis by (simp add: conj_commute)
qed

definition equivocates :: "crypto \<Rightarrow> Vote list \<Rightarrow> Vote list \<Rightarrow> Validator \<Rightarrow> bool" where
  "equivocates C ws ws' v \<longleftrightarrow>
     list_ex (\<lambda>w. list_ex (\<lambda>w'.
        vote_Voter w = val_ID v \<and> vote_Voter w' = val_ID v \<and>
        vote_Network w = vote_Network w' \<and> vote_Height w = vote_Height w' \<and> vote_Round w = vote_Round w' \<and>
        vote_HeaderHash w \<noteq> vote_HeaderHash w' \<and>
        is_ok (verifyDigest C (val_PublicKey v) (Vote_SigningDigest (sha256 C) w) (vote_Signature w)) \<and>
        is_ok (verifyDigest C (val_PublicKey v) (Vote_SigningDigest (sha256 C) w') (vote_Signature w'))) ws') ws"

lemma VerifyVote_key:
  assumes "VerifyVote C s w = Inr u" "valid_set C s" "v \<in> set (vs_Validators s)" "val_ID v = vote_Voter w"
  shows "is_ok (verifyDigest C (val_PublicKey v) (Vote_SigningDigest (sha256 C) w) (vote_Signature w))"
proof -
  have "find_validator (vote_Voter w) (vs_Validators s) = Some v"
    using assms(2,3,4) by (simp add: valid_set_def find_validator_iff)
  then show ?thesis using assms(1) by (auto simp: VerifyVote_def split: if_splits)
qed

lemma power_of_voters_sum:
  "valid_set C s \<Longrightarrow> power_of_voters s ws = (\<Sum>v \<in> {v \<in> set (vs_Validators s). val_ID v \<in> voters ws}. unat (val_Power v))"
  by (simp add: power_of_voters_def valid_set_def npow_sum distinct_map_filter)

lemma equivocatesI:
  assumes "certificate_spec C s c" "certificate_spec C s c'"
    and "cert_Height c = cert_Height c'" "cert_Round c = cert_Round c'" "cert_HeaderHash c \<noteq> cert_HeaderHash c'"
    and "v \<in> set (vs_Validators s)" "val_ID v \<in> voters (cert_Votes c)" "val_ID v \<in> voters (cert_Votes c')"
  shows "equivocates C (cert_Votes c) (cert_Votes c') v"
proof -
  obtain w w' where w: "w \<in> set (cert_Votes c)" "vote_Voter w = val_ID v" "w' \<in> set (cert_Votes c')" "vote_Voter w' = val_ID v"
    using assms(7,8) by (auto simp: voters_def)
  moreover have "vote_matches c w" "vote_matches c' w'" "VerifyVote C s w = Inr ()" "VerifyVote C s w' = Inr ()"
    "valid_set C s" "cert_Network c = cert_Network c'"
    using assms(1,2) w by (auto simp: certificate_spec_def)
  moreover have "is_ok (verifyDigest C (val_PublicKey v) (Vote_SigningDigest (sha256 C) w) (vote_Signature w))"
    "is_ok (verifyDigest C (val_PublicKey v) (Vote_SigningDigest (sha256 C) w') (vote_Signature w'))"
    by (rule VerifyVote_key; use calculation assms(6) in simp)+
  ultimately show ?thesis
    using assms(3,4,5) unfolding equivocates_def list_ex_iff vote_matches_def by metis
qed

text \<open>Two quorums of one set share more than a third of its power.\<close>

lemma conflicting_quorums:
  assumes "VerifyCertificate C s c = Inr ()" "VerifyCertificate C s c' = Inr ()"
    and "cert_Height c = cert_Height c'" "cert_Round c = cert_Round c'" "cert_HeaderHash c \<noteq> cert_HeaderHash c'"
  shows "npow (vs_Validators s) < 3 * npow (filter (equivocates C (cert_Votes c) (cert_Votes c')) (vs_Validators s))"
proof -
  let ?M = "set (vs_Validators s)" and ?w = "\<lambda>v. unat (val_Power v)"
  let ?A = "{v \<in> ?M. val_ID v \<in> voters (cert_Votes c)}" and ?B = "{v \<in> ?M. val_ID v \<in> voters (cert_Votes c')}"
  have spec: "certificate_spec C s c" "certificate_spec C s c'" "quorum_reached s (cert_Votes c)" "quorum_reached s (cert_Votes c')"
    using assms(1,2) by (auto simp: VerifyCertificate_cases split: if_splits)
  then have v: "valid_set C s" by (simp add: certificate_spec_def)
  then have d: "distinct (map val_ID (vs_Validators s))" by (simp add: valid_set_def)
  have total: "unat (add_powers (vs_Validators s)) = sum ?w ?M" "add_powers (vs_Validators s) \<noteq> 0"
    using valid_set_total [OF v] npow_sum [OF d] by (auto simp: unat_gt_0)
  have "unat (add_powers (vs_Validators s)) < 3 * sum ?w (?A \<inter> ?B)"
    using spec(3,4) total
    by (intro quorum.intersection [where M = ?M]) (auto simp: quorum_reached_def power_of_voters_sum [OF v])
  also have "sum ?w (?A \<inter> ?B) \<le> sum ?w (set (filter (equivocates C (cert_Votes c) (cert_Votes c')) (vs_Validators s)))"
    using equivocatesI [OF spec(1,2) assms(3,4,5)] by (intro sum_mono2) auto
  also have "\<dots> = npow (filter (equivocates C (cert_Votes c) (cert_Votes c')) (vs_Validators s))"
    using d by (simp add: npow_sum distinct_map_filter)
  finally show ?thesis using total(1) npow_sum [OF d] by simp
qed

text \<open>
  C13. Accountable safety. If a validator set verifies two certificates for the same height and round but
  for different headers, then validators holding more than a third of its voting power have signed two conflicting
  votes, which the certificates exhibit.
\<close>

theorem quorum_accountability:
  assumes "VerifyCertificate C s c = Inr ()" "VerifyCertificate C s c' = Inr ()"
    and "cert_Height c = cert_Height c'" "cert_Round c = cert_Round c'" "cert_HeaderHash c \<noteq> cert_HeaderHash c'"
  shows "npow (vs_Validators s) < 3 * npow (filter (equivocates C (cert_Votes c) (cert_Votes c')) (vs_Validators s))"
  using assms by (rule conflicting_quorums)

lemma Proposer_valid:
  assumes "valid_set C s" "h \<noteq> 0"
  shows "Proposer C s h r =
    pick_proposer (proposer_slot (add_powers (vs_Validators s)) h r) 0 (sort_key val_ID (vs_Validators s))"
  using assms VS_Validate_iff [of C s "()"] by (simp add: Proposer_def TotalPower_def)

lemma valid_set_sorted:
  assumes "valid_set C s"
  shows "distinct (sort_key val_ID (vs_Validators s))" "npow (sort_key val_ID (vs_Validators s)) < 2 ^ 64"
  using assms by (simp_all add: valid_set_def distinct_map)

text \<open>
  C20. A valid set has a proposer for every height and round, and it is a member of the set.
\<close>

theorem proposer_exists:
  assumes "VS_Validate C s = Inr ()" "h \<noteq> 0"
  shows "\<exists>v \<in> set (vs_Validators s). Proposer C s h r = Inr v"
proof -
  have v: "valid_set C s" using assms(1) by (simp add: VS_Validate_iff)
  let ?t = "add_powers (vs_Validators s)"
  have t: "unat ?t = npow (vs_Validators s)" "0 < unat ?t" using valid_set_total [OF v] by simp_all
  then have "unat (proposer_slot ?t h r) < unat ?t" by (simp add: proposer_slot_def unat_mod)
  then show ?thesis
    using pick_proposer_exists [of 0 "sort_key val_ID (vs_Validators s)" "proposer_slot ?t h r"] valid_set_sorted [OF v] t
    by (simp add: Proposer_valid [OF v assms(2)])
qed

lemma card_window:
  "card {r. a \<le> r \<and> r < a + t \<and> P r} = card {r. r < (t :: nat) \<and> P (a + r)}"
proof -
  have "{r. a \<le> r \<and> r < a + t \<and> P r} = (\<lambda>r. a + r) ` {r. r < t \<and> P (a + r)}"
    by (auto simp: image_iff) (metis le_add_diff_inverse nat_add_left_cancel_less)
  then show ?thesis by (simp add: card_image)
qed

text \<open>
  C21. The rotation is fair: with a total power of at most 2 ^ 63, in any window of as many consecutive rounds as the
  total power, wherever it starts among the 64-bit round numbers, each validator is the proposer exactly as often as its
  power says.
\<close>

theorem proposer_fair:
  assumes "VS_Validate C s = Inr ()" "h \<noteq> 0" "npow (vs_Validators s) \<le> 2 ^ 63" "v \<in> set (vs_Validators s)"
    and "start + npow (vs_Validators s) \<le> 2 ^ 64"
  shows "card {r. start \<le> r \<and> r < start + npow (vs_Validators s) \<and> Proposer C s h (of_nat r) = Inr v} = unat (val_Power v)"
proof -
  have vs: "valid_set C s" using assms(1) by (simp add: VS_Validate_iff)
  let ?s = "sort_key val_ID (vs_Validators s)" and ?t = "add_powers (vs_Validators s)"
  have t: "unat ?t = npow (vs_Validators s)" "0 < npow (vs_Validators s)" using valid_set_total [OF vs] by simp_all
  then have t0: "?t \<noteq> 0" by (metis less_irrefl unat_0)
  obtain as bs where ab: "?s = as @ v # bs" using assms(4) by (metis set_sort split_list)
  let ?S = "{npow as ..< npow as + unat (val_Power v)}"
  have sub: "?S \<subseteq> {0..<npow (vs_Validators s)}"
    using arg_cong [OF ab, of npow] by auto
  have "Proposer C s h (of_nat (start + r)) = Inr v \<longleftrightarrow> (unat (h - 1) + start + r) mod npow (vs_Validators s) \<in> ?S"
    if "r < npow (vs_Validators s)" for r
  proof -
    have "unat (of_nat (start + r) :: u64) = start + r" using that assms(5) by (intro unat_of_nat_small) simp
    then have "unat (proposer_slot ?t h (of_nat (start + r))) = (unat (h - 1) + start + r) mod npow (vs_Validators s)"
      using proposer_slot_unat [of ?t h "of_nat (start + r)"] t t0 assms(3) by (simp add: add.assoc del: of_nat_add)
    then show ?thesis
      using pick_proposer_iff [of 0 as v bs "proposer_slot ?t h (of_nat (start + r))"] valid_set_sorted [OF vs] ab
      by (simp add: Proposer_valid [OF vs assms(2)] del: of_nat_add)
  qed
  then have "{r. r < npow (vs_Validators s) \<and> Proposer C s h (of_nat (start + r)) = Inr v} =
      {r. r < npow (vs_Validators s) \<and> (unat (h - 1) + start + r) mod npow (vs_Validators s) \<in> ?S}" by blast
  then show ?thesis unfolding card_window using card_rotation [OF sub t(2), of "unat (h - 1) + start"] by simp
qed

text \<open>
  C22. The quorum is \<lfloor>2 t / 3\<rfloor> + 1 for every total power t of 64 bits, with no intermediate overflow: it is more than two
  thirds of the total and never more than the total.
\<close>

theorem QuorumPower_exact:
  "unat (QuorumPower t) = (if t = 0 then 0 else 2 * unat t div 3 + 1) \<and>
   2 * unat t \<le> 3 * unat (QuorumPower t) \<and> unat (QuorumPower t) \<le> unat t"
proof (cases "t = 0")
  case False
  have "unat t div 3 * 2 + unat t mod 3 * 2 div 3 = 2 * unat t div 3" by presburger
  then show ?thesis
    using False unat_QuorumPower [OF False] quorum.two_thirds [OF False] quorum.attainable [of t] by simp
qed (simp add: QuorumPower_def)

text \<open>
  \<open>VerifyCertificate\<close> validates the set once and indexes its members once. It accepts exactly when the
  certificate is well formed, every vote passes \<open>VerifyVote\<close> on its own, no validator votes twice and the voters hold
  the quorum; and it reports insufficient power exactly when only the last condition fails.
\<close>

theorem certificate_check_equiv:
  "VerifyCertificate C s c =
     (if \<not> certificate_spec C s c then Inl ErrCertificate
      else if quorum_reached s (cert_Votes c) then Inr () else Inl ErrInsufficientPower)"
  by (rule VerifyCertificate_cases)

text \<open>
  A vote that a member of a valid set signs is accepted by \<open>VerifyVote\<close> and carries the intended
  height, round and header.
\<close>

theorem signed_vote_verifies:
  assumes "ecdsa_contract C k" "VS_Validate C s = Inr ()" "v \<in> set (vs_Validators s)" "val_PublicKey v = sk_public k"
    and "height \<noteq> 0" "headerHash \<noteq> 0" "SignVote C (Some k) (vs_Network s) height round' headerHash = Inr w"
  shows "VerifyVote C s w = Inr () \<and> vote_Voter w = val_ID v \<and> vote_Height w = height \<and> vote_Round w = round' \<and>
    vote_HeaderHash w = headerHash"
proof -
  have vs: "valid_set C s" using assms(2) by (simp add: VS_Validate_iff)
  then have v: "length (sk_public k) = 65" "unmarshal_ok C (sk_public k)"
    "ValidatorIDFromPublicKey (sha256 C) (sk_public k) = val_ID v"
    using assms(3,4) by (auto simp: valid_set_def validator_ok_def list_all_iff)
  have f: "find_validator (val_ID v) (vs_Validators s) = Some v"
    using vs assms(3) by (simp add: valid_set_def find_validator_iff)
  obtain sig where sig: "signDigest k (Vote_SigningDigest (sha256 C) w) = Inr sig"
    and w: "w = \<lparr>vote_Network = vs_Network s, vote_Height = height, vote_Round = round', vote_HeaderHash = headerHash,
      vote_Voter = val_ID v, vote_PublicKey = sk_public k, vote_Signature = sig\<rparr>"
    using assms(7) v(3) by (auto simp: SignVote_def signerIdentity_def Let_def Vote_SigningDigest_def vote_body_def split: if_splits)
  have "verifyDigest C (sk_public k) (Vote_SigningDigest (sha256 C) w) sig = Inr ()"
    using signDigest_verifies [OF assms(1) v(1,2) sig] by simp
  then show ?thesis
    using assms(4-6) v(3) f by (simp add: VerifyVote_def w IsZero32_def)
qed

subsection \<open>A concrete validator set\<close>

definition last_crypto :: crypto where
  "last_crypto = \<lparr>sha256 = last_hash, unmarshal_ok = (\<lambda>_. True), ecdsa_verify = (\<lambda>_ _ _ _. True)\<rparr>"

definition sample_validator :: "byte \<Rightarrow> Validator" where
  "sample_validator b = \<lparr>val_ID = ucast b, val_PublicKey = replicate 65 b, val_Power = 1\<rparr>"

definition sample_set :: ValidatorSet where
  "sample_set = \<lparr>vs_Network = 7, vs_Validators = map sample_validator [1, 2, 3, 4]\<rparr>"

definition sample_vote :: "hash \<Rightarrow> byte \<Rightarrow> Vote" where
  "sample_vote h b = \<lparr>vote_Network = 7, vote_Height = 5, vote_Round = 0, vote_HeaderHash = h, vote_Voter = ucast b,
     vote_PublicKey = replicate 65 b, vote_Signature = pad32 2 @ pad32 2\<rparr>"

definition sample_certificate :: "hash \<Rightarrow> byte list \<Rightarrow> Certificate" where
  "sample_certificate h bs = \<lparr>cert_Network = 7, cert_Height = 5, cert_Round = 0, cert_HeaderHash = h,
     cert_Votes = map (sample_vote h) bs\<rparr>"

lemma last_crypto_sel [simp]: "sha256 last_crypto = last_hash" "unmarshal_ok last_crypto pk" "ecdsa_verify last_crypto pk d r s'"
  by (simp_all add: last_crypto_def)

lemma sample_signature [simp]: "length pk = 65 \<Longrightarrow> verifyDigest last_crypto pk d (pad32 2 @ pad32 2) = Inr ()"
  by (simp add: verifyDigest_def Let_def big_SetBytes_pad32) (simp add: p256_order_def halfOrder_def)

lemma sample_id [simp]: "ValidatorIDFromPublicKey last_hash (replicate 65 b) = ucast b"
  by (simp add: ValidatorIDFromPublicKey_def)

lemma sample_set_valid: "valid_set last_crypto sample_set"
  by (simp add: valid_set_def sample_set_def sample_validator_def validator_ok_def)

lemma sample_quorum: "npow (vs_Validators sample_set) = 4" "unat (QuorumPower (add_powers (vs_Validators sample_set))) = 3"
proof -
  show "npow (vs_Validators sample_set) = 4" by (simp add: sample_set_def sample_validator_def)
  have "add_powers (vs_Validators sample_set) = 4" by (simp add: add_powers_def sample_set_def sample_validator_def)
  then show "unat (QuorumPower (add_powers (vs_Validators sample_set))) = 3" by (simp add: QuorumPower_def)
qed

lemma sample_certificate_ok:
  assumes "h \<noteq> 0" "distinct (map (ucast :: byte \<Rightarrow> validatorid) bs)" "set bs \<subseteq> {1, 2, 3, 4}"
    and "3 \<le> npow (filter (\<lambda>v. val_ID v \<in> ucast ` set bs) (vs_Validators sample_set))"
  shows "VerifyCertificate last_crypto sample_set (sample_certificate h bs) = Inr ()"
proof -
  have "VerifyVote last_crypto sample_set (sample_vote h b) = Inr ()" if "b \<in> {1, 2, 3, 4}" for b
    using that assms(1)
    by (auto simp: VerifyVote_def sample_vote_def sample_set_def sample_validator_def IsZero32_def)
  then have "certificate_spec last_crypto sample_set (sample_certificate h bs)"
    using assms(1,2,3) sample_set_valid
    by (auto simp: certificate_spec_def sample_certificate_def vote_matches_def sample_vote_def [of _ _] comp_def sample_set_def)
  moreover have "voters (map (sample_vote h) bs) = ucast ` set bs"
    by (auto simp: voters_def sample_vote_def image_image)
  ultimately show ?thesis
    using assms(4) sample_quorum(2)
    by (simp add: VerifyCertificate_cases quorum_reached_def power_of_voters_def sample_certificate_def)
qed

lemma sample_certificates:
  "VerifyCertificate last_crypto sample_set (sample_certificate 1 [1, 2, 3]) = Inr ()"
  "VerifyCertificate last_crypto sample_set (sample_certificate 2 [2, 3, 4]) = Inr ()"
  by (rule sample_certificate_ok; simp add: sample_set_def sample_validator_def)+

theorem quorum_accountability_witness:
  "npow (vs_Validators sample_set) <
     3 * npow (filter (equivocates last_crypto (map (sample_vote 1) [1, 2, 3]) (map (sample_vote 2) [2, 3, 4])) (vs_Validators sample_set))"
  using quorum_accountability [OF sample_certificates] by (simp add: sample_certificate_def)

theorem proposer_exists_witness: "\<exists>v \<in> set (vs_Validators sample_set). Proposer last_crypto sample_set 9 2 = Inr v"
  by (rule proposer_exists) (simp_all add: VS_Validate_iff sample_set_valid)

theorem proposer_fair_witness:
  "card {r. 100 \<le> r \<and> r < 100 + npow (vs_Validators sample_set) \<and> Proposer last_crypto sample_set 9 (of_nat r) = Inr (sample_validator 2)} = 1"
  using proposer_fair [of last_crypto sample_set 9 "sample_validator 2" 100] sample_set_valid
  by (simp add: VS_Validate_iff sample_quorum) (simp add: sample_set_def sample_validator_def)

theorem signed_vote_verifies_witness:
  "\<exists>w. SignVote last_crypto (Some (toy_signer 2)) 7 5 0 1 = Inr w \<and> VerifyVote last_crypto sample_set w = Inr ()"
proof -
  have k: "ecdsa_contract last_crypto (toy_signer 2)"
    using p256_order_bounds(1) by (simp add: ecdsa_contract_def toy_signer_def)
  obtain w where w: "SignVote last_crypto (Some (toy_signer 2)) (vs_Network sample_set) 5 0 1 = Inr w"
    by (simp add: SignVote_def signerIdentity_def toy_signer_def signDigest_def Let_def)
  have "VS_Validate last_crypto sample_set = Inr ()" by (simp add: VS_Validate_iff sample_set_valid)
  moreover have "sample_validator 2 \<in> set (vs_Validators sample_set)" "val_PublicKey (sample_validator 2) = sk_public (toy_signer 2)"
    by (simp_all add: sample_set_def sample_validator_def toy_signer_def)
  ultimately have "VerifyVote last_crypto sample_set w = Inr ()"
    using signed_vote_verifies [OF k _ _ _ _ _ w, of "sample_validator 2"] by simp
  then show ?thesis using w by (auto simp: sample_set_def)
qed

end
