(* ===== verification/ConsensusWire.thy ===== *)
theory ConsensusWire
  imports Consensus
begin

text \<open>
  The messages of consensus (\<open>internal/v2/consensus\<close>: \<open>wire.go\<close>, \<open>validator_wire.go\<close>,
  \<open>certificate_binary.go\<close>), and what the root of a validator set commits to.

  Votes, certificates and validator sets have one encoding each. A header that is certified together with a
  validator root authorizes one successor set, up to a hash collision.
\<close>

subsection \<open>Messages\<close>

definition Proposal_encode :: "Proposal \<Rightarrow> byte list" where
  "Proposal_encode p =
     w_Bytes (GlobalHeader_CanonicalBytes (prop_Header p)) @ w_U64 (prop_Round p) @ w_Fixed32 (prop_Proposer p) @
     w_Bytes (prop_PublicKey p) @ w_Bytes (prop_Signature p)"

definition Proposal_MarshalBinary :: "Proposal \<Rightarrow> byte list result" where
  "Proposal_MarshalBinary p =
     (if length (prop_PublicKey p) \<noteq> 65 \<or> length (prop_Signature p) \<noteq> 64 \<or> IsZero32 (prop_Proposer p)
      then Inl ErrProposal else Inr (Proposal_encode p))"

definition ParseProposal :: "byte list \<Rightarrow> Proposal result" where
  "ParseProposal data =
     tryAs ErrProposal (r_Sub ErrProposal 512 ParseGlobalHeader data) (\<lambda>(header, r).
     tryAs ErrProposal (r_U64 r) (\<lambda>(round', r).
     tryAs ErrProposal (r_Fixed32 r) (\<lambda>(proposer, r).
     tryAs ErrProposal (r_Bytes 65 r) (\<lambda>(publicKey, r).
     if length publicKey \<noteq> 65 then Inl ErrProposal else
     tryAs ErrProposal (r_Bytes 64 r) (\<lambda>(signature, r).
     if length signature \<noteq> 64 \<or> \<not> is_ok (r_Done r) then Inl ErrProposal
     else Inr \<lparr>prop_Header = header, prop_Round = round', prop_Proposer = proposer,
               prop_PublicKey = publicKey, prop_Signature = signature\<rparr>)))))"

definition Vote_encode :: "Vote \<Rightarrow> byte list" where
  "Vote_encode v = w_Fixed32 (vote_Network v) @ w_U64 (vote_Height v) @ w_U64 (vote_Round v) @
     w_Fixed32 (vote_HeaderHash v) @ w_Fixed32 (vote_Voter v) @ w_Bytes (vote_PublicKey v) @ w_Bytes (vote_Signature v)"

definition Vote_MarshalBinary :: "Vote \<Rightarrow> byte list result" where
  "Vote_MarshalBinary v =
     (if length (vote_PublicKey v) \<noteq> 65 \<or> length (vote_Signature v) \<noteq> 64 \<or> vote_Height v = 0 \<or>
         IsZero32 (vote_Network v) \<or> IsZero32 (vote_HeaderHash v) \<or> IsZero32 (vote_Voter v)
      then Inl ErrVote else Inr (Vote_encode v))"

definition ParseVote :: "byte list \<Rightarrow> Vote result" where
  "ParseVote data =
     tryAs ErrVote (r_Fixed32 data) (\<lambda>(network, r).
     tryAs ErrVote (r_U64 r) (\<lambda>(height, r).
     if height = 0 then Inl ErrVote else
     tryAs ErrVote (r_U64 r) (\<lambda>(round', r).
     tryAs ErrVote (r_Fixed32 r) (\<lambda>(headerHash, r).
     tryAs ErrVote (r_Fixed32 r) (\<lambda>(voter, r).
     tryAs ErrVote (r_Bytes 65 r) (\<lambda>(publicKey, r).
     if length publicKey \<noteq> 65 then Inl ErrVote else
     tryAs ErrVote (r_Bytes 64 r) (\<lambda>(signature, r).
     if length signature \<noteq> 64 \<or> \<not> is_ok (r_Done r) then Inl ErrVote
     else if IsZero32 network \<or> IsZero32 headerHash \<or> IsZero32 voter then Inl ErrVote
     else Inr \<lparr>vote_Network = network, vote_Height = height, vote_Round = round', vote_HeaderHash = headerHash,
               vote_Voter = voter, vote_PublicKey = publicKey, vote_Signature = signature\<rparr>)))))))"

definition MaxCertificateVotes :: nat where
  "MaxCertificateVotes = 4096"

definition Certificate_MarshalBinary :: "Certificate \<Rightarrow> byte list result" where
  "Certificate_MarshalBinary c =
     (if cert_Votes c = [] \<or> MaxCertificateVotes < length (cert_Votes c) \<or> cert_Height c = 0 \<or>
         IsZero32 (cert_Network c) \<or> IsZero32 (cert_HeaderHash c) then Inl ErrCertificate
      else tryE (mapE Vote_MarshalBinary (cert_Votes c)) (\<lambda>raws.
        Inr (w_Fixed32 (cert_Network c) @ w_U64 (cert_Height c) @ w_U64 (cert_Round c) @
             w_Fixed32 (cert_HeaderHash c) @ w_U32 (of_nat (length (cert_Votes c))) @ concat (map w_Bytes raws))))"

definition MarshalCertificate :: "Certificate \<Rightarrow> byte list result" where
  "MarshalCertificate c = Certificate_MarshalBinary c"

definition read_vote :: "reader \<Rightarrow> (Vote \<times> reader) result" where
  "read_vote r = tryAs ErrCertificate (r_Bytes 512 r) (\<lambda>(voteBytes, r). tryE (ParseVote voteBytes) (\<lambda>v. Inr (v, r)))"

definition ParseCertificate :: "byte list \<Rightarrow> Certificate result" where
  "ParseCertificate data =
     tryAs ErrCertificate (r_Fixed32 data) (\<lambda>(network, r).
     tryAs ErrCertificate (r_U64 r) (\<lambda>(height, r).
     if height = 0 then Inl ErrCertificate else
     tryAs ErrCertificate (r_U64 r) (\<lambda>(round', r).
     tryAs ErrCertificate (r_Fixed32 r) (\<lambda>(headerHash, r).
     tryAs ErrCertificate (r_U32 r) (\<lambda>(cnt, r).
     if cnt = 0 \<or> MaxCertificateVotes < unat cnt then Inl ErrCertificate else
     tryE (r_many (unat cnt) read_vote r) (\<lambda>(votes, r).
     if \<not> is_ok (r_Done r) \<or> IsZero32 network \<or> IsZero32 headerHash then Inl ErrCertificate
     else Inr \<lparr>cert_Network = network, cert_Height = height, cert_Round = round',
               cert_HeaderHash = headerHash, cert_Votes = votes\<rparr>))))))"

definition validator_bytes :: "Validator \<Rightarrow> byte list" where
  "validator_bytes v = w_Fixed32 (val_ID v) @ w_Bytes (val_PublicKey v) @ w_U64 (val_Power v)"

definition VS_MarshalBinary :: "crypto \<Rightarrow> ValidatorSet \<Rightarrow> byte list result" where
  "VS_MarshalBinary C s =
     (if \<not> is_ok (VS_Validate C s) \<or> MaxCertificateVotes < length (vs_Validators s) then Inl ErrValidatorWire
      else Inr (w_Fixed32 (vs_Network s) @ w_U32 (of_nat (length (vs_Validators s))) @
                concat (map validator_bytes (vs_Validators s))))"

definition read_validator :: "reader \<Rightarrow> (Validator \<times> reader) result" where
  "read_validator r =
     tryAs ErrValidatorWire (r_Fixed32 r) (\<lambda>(vid, r).
     tryAs ErrValidatorWire (r_Bytes 65 r) (\<lambda>(publicKey, r).
     if length publicKey \<noteq> 65 then Inl ErrValidatorWire else
     tryAs ErrValidatorWire (r_U64 r) (\<lambda>(power, r).
     Inr (\<lparr>val_ID = vid, val_PublicKey = publicKey, val_Power = power\<rparr>, r))))"

definition ParseValidatorSet :: "crypto \<Rightarrow> byte list \<Rightarrow> ValidatorSet result" where
  "ParseValidatorSet C data =
     tryAs ErrValidatorWire (r_Fixed32 data) (\<lambda>(network, r).
     tryAs ErrValidatorWire (r_U32 r) (\<lambda>(cnt, r).
     if cnt = 0 \<or> MaxCertificateVotes < unat cnt then Inl ErrValidatorWire else
     tryE (r_many (unat cnt) read_validator r) (\<lambda>(validators, r).
     let vset = \<lparr>vs_Network = network, vs_Validators = validators\<rparr>
     in if \<not> is_ok (r_Done r) \<or> \<not> is_ok (VS_Validate C vset) then Inl ErrValidatorWire else Inr vset)))"

subsection \<open>The message formats\<close>

definition vote_wf :: "Vote \<Rightarrow> bool" where
  "vote_wf v \<longleftrightarrow> length (vote_PublicKey v) = 65 \<and> length (vote_Signature v) = 64 \<and> vote_Height v \<noteq> 0 \<and>
     vote_Network v \<noteq> 0 \<and> vote_HeaderHash v \<noteq> 0 \<and> vote_Voter v \<noteq> 0"

lemma Vote_MarshalBinary_iff: "Vote_MarshalBinary v = Inr bs \<longleftrightarrow> vote_wf v \<and> bs = Vote_encode v"
  by (auto simp: Vote_MarshalBinary_def vote_wf_def IsZero32_def)

interpretation VoteWire: canonical_wire Vote_encode ParseVote vote_wf
proof
  fix bs and x :: Vote
  show "ParseVote bs = Inr x \<longleftrightarrow> vote_wf x \<and> bs = Vote_encode x"
    by (cases x) (auto simp: ParseVote_def Vote_encode_def wire_iff IsZero32_def vote_wf_def)
qed

interpretation VoteField: wire_format "\<lambda>v. w_Bytes (Vote_encode v)" read_vote vote_wf
proof
  fix r x s
  have "vote_wf x \<Longrightarrow> length (Vote_encode x) \<le> 512" for x by (simp add: Vote_encode_def vote_wf_def)
  then show "read_vote r = Inr (x, s) \<longleftrightarrow> vote_wf x \<and> r = w_Bytes (Vote_encode x) @ s"
    by (auto simp: read_vote_def wire_iff VoteWire.parse_iff)
qed

interpretation ValidatorField: wire_format validator_bytes read_validator "\<lambda>v. length (val_PublicKey v) = 65"
proof
  fix r s and x :: Validator
  show "read_validator r = Inr (x, s) \<longleftrightarrow> length (val_PublicKey x) = 65 \<and> r = validator_bytes x @ s"
    by (cases x) (auto simp: read_validator_def validator_bytes_def wire_iff)
qed

lemma mapE_Vote_MarshalBinary:
  "mapE Vote_MarshalBinary ws = Inr raws \<longleftrightarrow> list_all vote_wf ws \<and> raws = map Vote_encode ws"
proof (induction ws arbitrary: raws)
  case (Cons w ws)
  then show ?case by (auto simp: Vote_MarshalBinary_iff)
qed auto

lemma count_prefix: "n \<le> 4096 \<Longrightarrow> unat (of_nat n :: u32) = n" "n \<le> 4096 \<Longrightarrow> n \<noteq> 0 \<Longrightarrow> (of_nat n :: u32) \<noteq> 0"
proof -
  show u: "n \<le> 4096 \<Longrightarrow> unat (of_nat n :: u32) = n" by (simp add: unat_of_nat_small)
  then show "n \<le> 4096 \<Longrightarrow> n \<noteq> 0 \<Longrightarrow> (of_nat n :: u32) \<noteq> 0" by (metis unat_0)
qed

definition Certificate_encode :: "Certificate \<Rightarrow> byte list" where
  "Certificate_encode c = w_Fixed32 (cert_Network c) @ w_U64 (cert_Height c) @ w_U64 (cert_Round c) @
     w_Fixed32 (cert_HeaderHash c) @ w_U32 (of_nat (length (cert_Votes c))) @ concat (map (\<lambda>v. w_Bytes (Vote_encode v)) (cert_Votes c))"

definition certificate_wf :: "Certificate \<Rightarrow> bool" where
  "certificate_wf c \<longleftrightarrow> cert_Votes c \<noteq> [] \<and> length (cert_Votes c) \<le> 4096 \<and> cert_Height c \<noteq> 0 \<and>
     cert_Network c \<noteq> 0 \<and> cert_HeaderHash c \<noteq> 0 \<and> list_all vote_wf (cert_Votes c)"

lemma Certificate_MarshalBinary_iff: "Certificate_MarshalBinary c = Inr bs \<longleftrightarrow> certificate_wf c \<and> bs = Certificate_encode c"
  by (auto simp: Certificate_MarshalBinary_def certificate_wf_def Certificate_encode_def IsZero32_def
    mapE_Vote_MarshalBinary MaxCertificateVotes_def comp_def)

interpretation CertificateWire: canonical_wire Certificate_encode ParseCertificate certificate_wf
proof
  fix bs and c :: Certificate
  show "ParseCertificate bs = Inr c \<longleftrightarrow> certificate_wf c \<and> bs = Certificate_encode c"
  proof
    assume "ParseCertificate bs = Inr c"
    then show "certificate_wf c \<and> bs = Certificate_encode c"
      by (auto simp: ParseCertificate_def wire_iff VoteField.r_many_iff certificate_wf_def Certificate_encode_def
        IsZero32_def MaxCertificateVotes_def unat_eq_0)
  next
    assume c: "certificate_wf c \<and> bs = Certificate_encode c"
    then show "ParseCertificate bs = Inr c"
      using VoteField.many_back_end [of "cert_Votes c"] count_prefix [of "length (cert_Votes c)"]
      by (simp add: ParseCertificate_def Certificate_encode_def certificate_wf_def IsZero32_def MaxCertificateVotes_def)
  qed
qed

lemma ParseValidatorSet_iff: "ParseValidatorSet C bs = Inr s \<longleftrightarrow> VS_MarshalBinary C s = Inr bs"
proof
  assume "ParseValidatorSet C bs = Inr s"
  then show "VS_MarshalBinary C s = Inr bs"
    by (auto simp: ParseValidatorSet_def VS_MarshalBinary_def wire_iff ValidatorField.r_many_iff MaxCertificateVotes_def Let_def)
next
  assume m: "VS_MarshalBinary C s = Inr bs"
  then have s: "valid_set C s" "length (vs_Validators s) \<le> 4096"
    "bs = w_Fixed32 (vs_Network s) @ w_U32 (of_nat (length (vs_Validators s))) @ concat (map validator_bytes (vs_Validators s))"
    by (auto simp: VS_MarshalBinary_def MaxCertificateVotes_def split: if_splits)
  then have "list_all (\<lambda>v. length (val_PublicKey v) = 65) (vs_Validators s)" "vs_Validators s \<noteq> []"
    by (auto simp: valid_set_def validator_ok_def list_all_iff)
  then show "ParseValidatorSet C bs = Inr s"
    using ValidatorField.many_back_end [of "vs_Validators s"] count_prefix [of "length (vs_Validators s)"] s
    by (cases s) (simp add: ParseValidatorSet_def MaxCertificateVotes_def Let_def)
qed

lemma ParseProposal_iff:
  "ParseProposal bs = Inr p \<longleftrightarrow>
     header_valid (prop_Header p) \<and> length (prop_PublicKey p) = 65 \<and> length (prop_Signature p) = 64 \<and> bs = Proposal_encode p"
  by (cases p) (auto simp: ParseProposal_def Proposal_encode_def wire_iff HeaderWire.r_Sub_iff)

lemma header_MarshalBinary_ok: "is_ok (GlobalHeader_MarshalBinary h) \<longleftrightarrow> header_valid h"
  by (auto simp: is_ok_iff GlobalHeader_MarshalBinary_def HeaderWire.parse_iff GlobalHeader_CanonicalBytes_inject Let_def)

text \<open>
  C30. Certificates, validator sets, votes and proposals have one encoding. The parsers of certificates, validator sets
  and votes accept exactly what \<open>MarshalBinary\<close> produces, and return what was encoded. For proposals the two sides check
  different things: \<open>ParseProposal\<close> alone refuses an invalid header, and \<open>MarshalBinary\<close> alone a zero proposer. On
  proposals that pass both checks they are inverse to each other.
\<close>

theorem consensus_wire_canonical:
  "(ParseCertificate bs = Inr c \<longleftrightarrow> MarshalCertificate c = Inr bs) \<and>
   (ParseValidatorSet C bs = Inr s \<longleftrightarrow> VS_MarshalBinary C s = Inr bs) \<and>
   (ParseVote bs = Inr v \<longleftrightarrow> Vote_MarshalBinary v = Inr bs) \<and>
   (ParseProposal bs = Inr p \<and> prop_Proposer p \<noteq> 0 \<longleftrightarrow>
      Proposal_MarshalBinary p = Inr bs \<and> is_ok (GlobalHeader_MarshalBinary (prop_Header p)))"
  by (auto simp: CertificateWire.parse_iff MarshalCertificate_def Certificate_MarshalBinary_iff ParseValidatorSet_iff
    VoteWire.parse_iff Vote_MarshalBinary_iff ParseProposal_iff Proposal_MarshalBinary_def header_MarshalBinary_ok IsZero32_def)

subsection \<open>Certified transitions\<close>

lemma VS_Root_iff:
  "VS_Root C s = Inr root \<longleftrightarrow> valid_set C s \<and>
     root = merkle_Root (sha256 C) (map (validator_leaf (sha256 C)) (sort_key val_ID (vs_Validators s)))"
  using VS_Validate_iff [of C s] by (auto simp: VS_Root_def)

lemma validator_bytes_inject:
  assumes "length (val_PublicKey v) = 65" "length (val_PublicKey w) = 65" "validator_bytes v = validator_bytes w"
  shows "v = w"
  using ValidatorField.prefix_free [OF assms(1,2), of "[]" "[]"] assms(3) by simp

definition validator_payloads :: "ValidatorSet \<Rightarrow> byte list list" where
  "validator_payloads s = map validator_bytes (sort_key val_ID (vs_Validators s))"

lemma VS_Root_payloads:
  "VS_Root C s = Inr root \<Longrightarrow> root = merkle_Root (sha256 C) (map (Leaf (sha256 C) ''validator'') (validator_payloads s))"
  by (simp add: VS_Root_iff validator_payloads_def validator_leaf_def [abs_def] validator_bytes_def comp_def)

lemma validators_agree:
  assumes "VS_Root C s = Inr root" "VS_Root C s' = Inr root" "length (vs_Validators s) < 2 ^ 32"
  shows "set (vs_Validators s) \<subseteq> set (vs_Validators s') \<or>
    collides (sha256 C) (proofs_frames (sha256 C) ''validator'' (validator_payloads s))
      (root_frames (sha256 C) (map (leaf_frame ''validator'') (validator_payloads s')))"
proof (rule disjCI)
  let ?H = "sha256 C"
  assume nc: "\<not> collides ?H (proofs_frames ?H ''validator'' (validator_payloads s))
      (root_frames ?H (map (leaf_frame ''validator'') (validator_payloads s')))"
  have ok: "length (val_PublicKey v) = 65" if "v \<in> set (vs_Validators s) \<union> set (vs_Validators s')" for v
    using assms(1,2) that by (auto simp: VS_Root_iff valid_set_def validator_ok_def list_all_iff)
  then have len: "\<forall>p \<in> set (validator_payloads s @ validator_payloads s'). length p < 2 ^ 32"
    by (auto simp: validator_payloads_def validator_bytes_def)
  show "set (vs_Validators s) \<subseteq> set (vs_Validators s')"
  proof
    fix v assume v: "v \<in> set (vs_Validators s)"
    then have "validator_bytes v \<in> set (validator_payloads s)" by (simp add: validator_payloads_def)
    then have "validator_bytes v \<in> set (validator_payloads s')"
      using roots_agree [of ?H "''validator''" "validator_payloads s" "validator_payloads s'" "validator_bytes v"]
        VS_Root_payloads assms nc len by (auto simp: validator_payloads_def)
    then obtain w where "w \<in> set (vs_Validators s')" "validator_bytes v = validator_bytes w"
      by (auto simp: validator_payloads_def)
    then show "v \<in> set (vs_Validators s')" using validator_bytes_inject ok v by (metis UnCI)
  qed
qed

text \<open>
  C25. A finalized header authorizes one committee: two validator sets that \<open>VerifyCertifiedTransition\<close> accepts
  as the successors under the same header have the same members, keys and powers, unless two of the strings hashed for
  the two roots collide. And the header was certified by a quorum of the current set, over the hash of the header itself.
\<close>

theorem certified_next_set_unique:
  assumes "VerifyCertifiedTransition C header c s n = Inr ()" "VerifyCertifiedTransition C header c' s' n' = Inr ()"
    and "length (vs_Validators n) < 2 ^ 32" "length (vs_Validators n') < 2 ^ 32"
  shows "VerifyCertificate C s c = Inr () \<and> cert_HeaderHash c = HeaderConsensusHash (sha256 C) header \<and>
    (set (vs_Validators n) = set (vs_Validators n') \<or>
     collides (sha256 C) (proofs_frames (sha256 C) ''validator'' (validator_payloads n))
       (root_frames (sha256 C) (map (leaf_frame ''validator'') (validator_payloads n'))) \<or>
     collides (sha256 C) (proofs_frames (sha256 C) ''validator'' (validator_payloads n'))
       (root_frames (sha256 C) (map (leaf_frame ''validator'') (validator_payloads n))))"
proof -
  have c: "VerifyCertificate C s c = Inr ()" "cert_HeaderHash c = HeaderConsensusHash (sha256 C) header"
    and "VS_Root C n = Inr (EffectiveNextValidatorRoot header)" "VS_Root C n' = Inr (EffectiveNextValidatorRoot header)"
    using assms(1,2) by (auto simp: VerifyCertifiedTransition_def)
  then show ?thesis
    using validators_agree [of C n _ n'] validators_agree [of C n' _ n] assms(3,4) by blast
qed

text \<open>A committee of one that hands over to itself.\<close>

definition solo_set :: ValidatorSet where
  "solo_set = \<lparr>vs_Network = 7, vs_Validators =
     [\<lparr>val_ID = ValidatorIDFromPublicKey toy_hash (replicate 65 4), val_PublicKey = replicate 65 4, val_Power = 1\<rparr>]\<rparr>"

definition solo_header0 :: GlobalHeader where
  "solo_header0 = \<lparr>hdr_Version = 2, hdr_Network = 7, hdr_Height = 5, hdr_ParentHash = 0, hdr_ShardCommitmentRoot = 1,
     hdr_ValidatorRoot = validator_leaf toy_hash (hd (vs_Validators solo_set)), hdr_NextValidatorRoot = 0,
     hdr_DataRoot = 0, hdr_CertificateHash = 0\<rparr>"

definition solo_certificate :: Certificate where
  "solo_certificate = \<lparr>cert_Network = 7, cert_Height = 5, cert_Round = 0,
     cert_HeaderHash = HeaderConsensusHash toy_hash solo_header0,
     cert_Votes = [\<lparr>vote_Network = 7, vote_Height = 5, vote_Round = 0,
       vote_HeaderHash = HeaderConsensusHash toy_hash solo_header0,
       vote_Voter = ValidatorIDFromPublicKey toy_hash (replicate 65 4), vote_PublicKey = replicate 65 4,
       vote_Signature = pad32 2 @ pad32 2\<rparr>]\<rparr>"

definition solo_header :: GlobalHeader where
  "solo_header = solo_header0\<lparr>hdr_CertificateHash := Certificate_Hash toy_hash solo_certificate\<rparr>"

lemma toy_signature [simp]: "length pk = 65 \<Longrightarrow> verifyDigest toy_crypto pk d (pad32 2 @ pad32 2) = Inr ()"
  by (simp add: verifyDigest_def Let_def big_SetBytes_pad32) (simp add: p256_order_def halfOrder_def)

lemma solo_header_hash: "HeaderConsensusHash toy_hash solo_header = HeaderConsensusHash toy_hash solo_header0"
  "HeaderConsensusHash toy_hash solo_header0 \<noteq> 0"
proof -
  show "HeaderConsensusHash toy_hash solo_header = HeaderConsensusHash toy_hash solo_header0"
    by (simp add: HeaderConsensusHash_def solo_header_def)
  show "HeaderConsensusHash toy_hash solo_header0 \<noteq> 0"
    by (simp add: HeaderConsensusHash_def)
qed

lemma solo_valid: "valid_set toy_crypto solo_set"
  by (simp add: valid_set_def solo_set_def validator_ok_def)

lemma solo_root: "VS_Root toy_crypto solo_set = Inr (hdr_ValidatorRoot solo_header)"
proof -
  have "merkle_Root toy_hash [x] = x" for x by (simp add: merkle_eval)
  then show ?thesis using solo_valid by (simp add: VS_Root_iff solo_header_def solo_header0_def) (simp add: solo_set_def)
qed

lemma solo_certified: "VerifyCertificate toy_crypto solo_set solo_certificate = Inr ()"
proof -
  have "VerifyVote toy_crypto solo_set w = Inr ()" if "w \<in> set (cert_Votes solo_certificate)" for w
    using that solo_header_hash(2) by (simp add: VerifyVote_def solo_certificate_def solo_set_def IsZero32_def)
  then have "certificate_spec toy_crypto solo_set solo_certificate"
    using solo_valid solo_header_hash(2)
    by (simp add: certificate_spec_def vote_matches_def) (simp add: solo_certificate_def solo_set_def)
  moreover have "quorum_reached solo_set (cert_Votes solo_certificate)"
    by (simp add: quorum_reached_def power_of_voters_def voters_def solo_set_def solo_certificate_def add_powers_def QuorumPower_def)
  ultimately show ?thesis by (simp add: VerifyCertificate_cases)
qed

lemma solo_transition: "VerifyCertifiedTransition toy_crypto solo_header solo_certificate solo_set solo_set = Inr ()"
proof -
  have n: "vs_Network solo_set = hdr_Network solo_header" "cert_Network solo_certificate = hdr_Network solo_header"
    "cert_Height solo_certificate = hdr_Height solo_header" "hdr_CertificateHash solo_header = Certificate_Hash toy_hash solo_certificate"
    "cert_HeaderHash solo_certificate = HeaderConsensusHash toy_hash solo_header"
    "EffectiveNextValidatorRoot solo_header = hdr_ValidatorRoot solo_header"
    by (simp_all add: solo_header_hash) (simp_all add: solo_set_def solo_header_def solo_header0_def solo_certificate_def
      EffectiveNextValidatorRoot_def IsZero32_def)
  then show ?thesis by (simp add: VerifyCertifiedTransition_def solo_root solo_certified)
qed

theorem certified_next_set_unique_witness:
  "VerifyCertificate toy_crypto solo_set solo_certificate = Inr () \<and>
   cert_HeaderHash solo_certificate = HeaderConsensusHash toy_hash solo_header \<and>
    (set (vs_Validators solo_set) = set (vs_Validators solo_set) \<or>
     collides toy_hash (proofs_frames toy_hash ''validator'' (validator_payloads solo_set))
       (root_frames toy_hash (map (leaf_frame ''validator'') (validator_payloads solo_set))) \<or>
     collides toy_hash (proofs_frames toy_hash ''validator'' (validator_payloads solo_set))
       (root_frames toy_hash (map (leaf_frame ''validator'') (validator_payloads solo_set))))"
  using certified_next_set_unique [OF solo_transition solo_transition] by (simp add: solo_set_def)

end
