(* ===== verification/Checkpoint.thy ===== *)
theory Checkpoint
  imports ConsensusWire
begin

text \<open>
  The chain of finalized headers that a client keeps (\<open>internal/v2/checkpoint/chain.go\<close>): from a trusted committee,
  each header is appended with the certificate of the committee that its predecessor authorized. The mutex is not modelled:
  each operation is one step. \<open>cloneSet\<close> copies, so a set is a value here.

  The lemmas show that a chain only holds verified headers, linked by hash and by committee, and that two chains from one
  committee agree unless validators with more than a third of the power signed twice in a round, certificates of different
  rounds finalized different headers, or hashes collide.
\<close>

record Entry =
  ce_Header :: GlobalHeader
  ce_Certificate :: Certificate
  ce_Validators :: ValidatorSet

record Chain =
  ch_network :: networkid
  ch_currentRoot :: hash
  ch_lastHeight :: u64
  ch_lastHash :: hash
  ch_entries :: "u64 \<rightharpoonup> Entry"
  ch_sets :: "hash \<rightharpoonup> ValidatorSet"

definition chain_New :: "crypto \<Rightarrow> networkid \<Rightarrow> ValidatorSet \<Rightarrow> Chain result" where
  "chain_New C network genesis =
     (if IsZero32 network \<or> vs_Network genesis \<noteq> network then Inl ErrCheckpointConfig
      else tryAs ErrCheckpointConfig (VS_Root C genesis) (\<lambda>root.
        if IsZero32 root then Inl ErrCheckpointConfig
        else Inr \<lparr>ch_network = network, ch_currentRoot = root, ch_lastHeight = 0, ch_lastHash = 0, ch_entries = Map.empty,
                  ch_sets = [root \<mapsto> genesis]\<rparr>))"

text \<open>The committee after the header: the change of the map of sets, or the error.\<close>

definition next_sets :: "crypto \<Rightarrow> networkid \<Rightarrow> hash \<Rightarrow> hash \<Rightarrow> ValidatorSet option \<Rightarrow> (hash \<rightharpoonup> ValidatorSet) \<Rightarrow>
    (hash \<rightharpoonup> ValidatorSet) result" where
  "next_sets C network currentRoot nextRoot next sets =
     (if nextRoot \<noteq> currentRoot then
        (case next of
           None \<Rightarrow> Inl ErrCheckpointValidators
         | Some n \<Rightarrow>
             if vs_Network n \<noteq> network then Inl ErrCheckpointValidators
             else tryAs ErrCheckpointValidators (VS_Root C n) (\<lambda>computed.
               if computed \<noteq> nextRoot then Inl ErrCheckpointValidators else Inr (sets(nextRoot \<mapsto> n))))
      else
        (case next of
           None \<Rightarrow> Inr sets
         | Some n \<Rightarrow>
             tryAs ErrCheckpointValidators (VS_Root C n) (\<lambda>computed.
             if computed \<noteq> nextRoot then Inl ErrCheckpointValidators else Inr (sets(nextRoot \<mapsto> n)))))"

definition chain_append :: "crypto \<Rightarrow> GlobalHeader \<Rightarrow> Certificate \<Rightarrow> ValidatorSet \<Rightarrow> ValidatorSet option \<Rightarrow> Chain \<Rightarrow> Chain result" where
  "chain_append C header certificate current next c =
     (if hdr_Network header \<noteq> ch_network c \<or> cert_Network certificate \<noteq> ch_network c \<or> vs_Network current \<noteq> ch_network c
      then Inl ErrCheckpointSequence
      else if hdr_Height header \<noteq> ch_lastHeight c + 1 \<or> (0 < ch_lastHeight c \<and> hdr_ParentHash header \<noteq> ch_lastHash c)
      then Inl ErrCheckpointSequence
      else tryAs ErrCheckpointValidators (VS_Root C current) (\<lambda>currentRoot.
        if currentRoot \<noteq> ch_currentRoot c \<or> hdr_ValidatorRoot header \<noteq> currentRoot then Inl ErrCheckpointValidators
        else if cert_Height certificate \<noteq> hdr_Height header \<or> cert_HeaderHash certificate \<noteq> HeaderConsensusHash (sha256 C) header \<or>
                hdr_CertificateHash header \<noteq> Certificate_Hash (sha256 C) certificate
        then Inl ErrCheckpointCert
        else tryAs ErrCheckpointCert (VerifyCertificate C current certificate) (\<lambda>_.
          let nextRoot = EffectiveNextValidatorRoot header
          in tryE (next_sets C (ch_network c) currentRoot nextRoot next (ch_sets c)) (\<lambda>sets.
             Inr (c\<lparr>ch_sets := sets(currentRoot \<mapsto> current),
                    ch_entries := (ch_entries c)(hdr_Height header \<mapsto>
                      \<lparr>ce_Header = header, ce_Certificate = certificate, ce_Validators = current\<rparr>),
                    ch_currentRoot := nextRoot, ch_lastHeight := hdr_Height header,
                    ch_lastHash := HeaderConsensusHash (sha256 C) header\<rparr>)))))"

text \<open>Every error is returned before the first assignment, so a refused header leaves the chain as it was.\<close>

definition Append :: "crypto \<Rightarrow> GlobalHeader \<Rightarrow> Certificate \<Rightarrow> ValidatorSet \<Rightarrow> ValidatorSet option \<Rightarrow> Chain \<Rightarrow> unit result \<times> Chain" where
  "Append C header certificate current next c =
     (case chain_append C header certificate current next c of Inl e \<Rightarrow> (Inl e, c) | Inr c' \<Rightarrow> (Inr (), c'))"

definition chain_Entry :: "Chain \<Rightarrow> u64 \<Rightarrow> Entry option" where
  "chain_Entry c height = ch_entries c height"

definition chain_ValidatorSet :: "Chain \<Rightarrow> hash \<Rightarrow> ValidatorSet option" where
  "chain_ValidatorSet c root = ch_sets c root"

definition VerifyEntry :: "crypto \<Rightarrow> Chain \<Rightarrow> u64 \<Rightarrow> unit result" where
  "VerifyEntry C c height =
     (case ch_entries c height of
        None \<Rightarrow> Inl ErrCheckpointSequence
      | Some entry \<Rightarrow>
          tryAs ErrCheckpointValidators (VS_Root C (ce_Validators entry)) (\<lambda>root.
          if root \<noteq> hdr_ValidatorRoot (ce_Header entry) then Inl ErrCheckpointValidators
          else if cert_HeaderHash (ce_Certificate entry) \<noteq> HeaderConsensusHash (sha256 C) (ce_Header entry) \<or>
                  hdr_CertificateHash (ce_Header entry) \<noteq> Certificate_Hash (sha256 C) (ce_Certificate entry)
          then Inl ErrCheckpointCert
          else tryAs ErrCheckpointCert (VerifyCertificate C (ce_Validators entry) (ce_Certificate entry)) (\<lambda>_. Inr ())))"

subsection \<open>The invariant of a chain\<close>

text \<open>An entry as \<open>Append\<close> checked it.\<close>

definition entry_ok :: "crypto \<Rightarrow> networkid \<Rightarrow> u64 \<Rightarrow> Entry \<Rightarrow> bool" where
  "entry_ok C network h x \<longleftrightarrow>
     hdr_Height (ce_Header x) = h \<and> cert_Height (ce_Certificate x) = h \<and> vs_Network (ce_Validators x) = network \<and>
     VS_Root C (ce_Validators x) = Inr (hdr_ValidatorRoot (ce_Header x)) \<and>
     cert_HeaderHash (ce_Certificate x) = HeaderConsensusHash (sha256 C) (ce_Header x) \<and>
     hdr_CertificateHash (ce_Header x) = Certificate_Hash (sha256 C) (ce_Certificate x) \<and>
     VerifyCertificate C (ce_Validators x) (ce_Certificate x) = Inr ()"

text \<open>The entry \<open>x\<close> follows \<open>y\<close>: it names its hash, and it is the work of the committee that \<open>y\<close> authorized.\<close>

definition follows :: "crypto \<Rightarrow> Entry \<Rightarrow> Entry \<Rightarrow> bool" where
  "follows C x y \<longleftrightarrow> hdr_ParentHash (ce_Header x) = HeaderConsensusHash (sha256 C) (ce_Header y) \<and>
     hdr_ValidatorRoot (ce_Header x) = EffectiveNextValidatorRoot (ce_Header y)"

definition chain_inv :: "crypto \<Rightarrow> networkid \<Rightarrow> hash \<Rightarrow> Chain \<Rightarrow> bool" where
  "chain_inv C network genesisRoot c \<longleftrightarrow> ch_network c = network \<and>
     (\<forall>h. ch_entries c h \<noteq> None \<longleftrightarrow> 0 < h \<and> h \<le> ch_lastHeight c) \<and>
     (\<forall>h x. ch_entries c h = Some x \<longrightarrow> entry_ok C network h x \<and>
        (if h = 1 then hdr_ValidatorRoot (ce_Header x) = genesisRoot else \<exists>y. ch_entries c (h - 1) = Some y \<and> follows C x y)) \<and>
     (if ch_lastHeight c = 0 then ch_currentRoot c = genesisRoot
      else \<exists>x. ch_entries c (ch_lastHeight c) = Some x \<and> ch_lastHash c = HeaderConsensusHash (sha256 C) (ce_Header x) \<and>
        ch_currentRoot c = EffectiveNextValidatorRoot (ce_Header x)) \<and>
     (\<forall>root s. ch_sets c root = Some s \<longrightarrow> VS_Root C s = Inr root) \<and> ch_sets c (ch_currentRoot c) \<noteq> None"

lemma chain_New_inv:
  assumes "chain_New C network genesis = Inr c"
  shows "\<exists>root. VS_Root C genesis = Inr root \<and> chain_inv C network root c"
  using assms by (auto simp: chain_New_def chain_inv_def guard_eq_Inr)

lemma next_sets_ok:
  assumes "next_sets C network currentRoot nextRoot next sets = Inr sets'" "\<forall>root s. sets root = Some s \<longrightarrow> VS_Root C s = Inr root"
    and "VS_Root C current = Inr currentRoot"
  shows "(\<forall>root s. (sets'(currentRoot \<mapsto> current)) root = Some s \<longrightarrow> VS_Root C s = Inr root) \<and> (sets'(currentRoot \<mapsto> current)) nextRoot \<noteq> None"
  using assms by (cases "next") (auto simp: next_sets_def result_iff split: if_splits)

lemma unat_succ: "x + 1 \<noteq> (0 :: u64) \<Longrightarrow> unat (x + 1) = Suc (unat x)"
  using unatSuc [of x] by (simp add: add.commute)

lemma word_succ_le: "x + 1 \<noteq> (0 :: u64) \<Longrightarrow> h \<le> x + 1 \<longleftrightarrow> h \<le> x \<or> h = x + 1"
  by (auto simp: word_le_nat_alt unat_succ word_unat_eq_iff)

lemma append_inv:
  assumes "chain_inv C network genesisRoot c" "chain_append C header certificate current next c = Inr c'"
  shows "chain_inv C network genesisRoot c'"
proof -
  let ?h = "hdr_Height header" and ?x = "\<lparr>ce_Header = header, ce_Certificate = certificate, ce_Validators = current\<rparr>"
  obtain sets where h: "?h = ch_lastHeight c + 1" "0 < ch_lastHeight c \<Longrightarrow> hdr_ParentHash header = ch_lastHash c"
    and root: "VS_Root C current = Inr (ch_currentRoot c)" "hdr_ValidatorRoot header = ch_currentRoot c"
    and cert: "cert_Height certificate = ?h" "cert_HeaderHash certificate = HeaderConsensusHash (sha256 C) header"
      "hdr_CertificateHash header = Certificate_Hash (sha256 C) certificate" "VerifyCertificate C current certificate = Inr ()"
    and nw: "vs_Network current = network"
    and ns: "next_sets C (ch_network c) (ch_currentRoot c) (EffectiveNextValidatorRoot header) next (ch_sets c) = Inr sets"
    and c': "c' = c\<lparr>ch_sets := sets(ch_currentRoot c \<mapsto> current), ch_entries := (ch_entries c)(?h \<mapsto> ?x),
      ch_currentRoot := EffectiveNextValidatorRoot header, ch_lastHeight := ?h, ch_lastHash := HeaderConsensusHash (sha256 C) header\<rparr>"
    using assms by (auto simp: chain_append_def chain_inv_def result_iff)
  have "cert_Height certificate \<noteq> 0" using cert(4) by (simp add: VerifyCertificate_def split: if_splits)
  then have pos: "ch_lastHeight c + 1 \<noteq> 0" using cert(1) h(1) by simp
  have free: "ch_entries c (ch_lastHeight c + 1) = None"
  proof (rule ccontr)
    assume "ch_entries c (ch_lastHeight c + 1) \<noteq> None"
    then have "ch_lastHeight c + 1 \<le> ch_lastHeight c" using assms(1) unfolding chain_inv_def by blast
    then show False using unat_succ [OF pos] by (simp add: word_le_nat_alt)
  qed
  have ok: "entry_ok C network ?h ?x" using root cert nw by (simp add: entry_ok_def)
  have link: "if ?h = 1 then hdr_ValidatorRoot header = genesisRoot else \<exists>y. ch_entries c (?h - 1) = Some y \<and> follows C ?x y"
  proof (cases "ch_lastHeight c = 0")
    case True
    then show ?thesis using assms(1) h(1) root(2) by (simp add: chain_inv_def)
  next
    case False
    then have "0 < ch_lastHeight c" by (simp add: word_neq_0_conv)
    then show ?thesis using assms(1) False h root(2) by (auto simp: chain_inv_def follows_def)
  qed
  have sets: "(\<forall>root s. ch_sets c' root = Some s \<longrightarrow> VS_Root C s = Inr root) \<and> ch_sets c' (ch_currentRoot c') \<noteq> None"
  proof -
    have "\<forall>root s. ch_sets c root = Some s \<longrightarrow> VS_Root C s = Inr root" using assms(1) unfolding chain_inv_def by blast
    from next_sets_ok [OF ns this root(1)] show ?thesis unfolding c' by simp
  qed
  have dom: "ch_entries c' k \<noteq> None \<longleftrightarrow> 0 < k \<and> k \<le> ch_lastHeight c'" for k
    using assms(1) pos word_succ_le [OF pos, of k] by (auto simp: c' chain_inv_def h(1) word_neq_0_conv)
  have old: "ch_entries c' k = Some y" if "ch_entries c k = Some y" for k y
    using that free by (cases "k = ?h") (simp_all add: c' h(1))
  have each: "entry_ok C network k x \<and> (if k = 1 then hdr_ValidatorRoot (ce_Header x) = genesisRoot else \<exists>y. ch_entries c' (k - 1) = Some y \<and> follows C x y)"
    if "ch_entries c' k = Some x" for k x
  proof (cases "k = ?h")
    case True
    then have "x = ?x" using that by (simp add: c')
    then show ?thesis using True ok link old by (auto split: if_splits)
  next
    case False
    then have "ch_entries c k = Some x" using that by (simp add: c')
    then have "entry_ok C network k x \<and> (if k = 1 then hdr_ValidatorRoot (ce_Header x) = genesisRoot else \<exists>y. ch_entries c (k - 1) = Some y \<and> follows C x y)"
      using assms(1) unfolding chain_inv_def by blast
    then show ?thesis using old by (auto split: if_splits)
  qed
  have nw': "ch_network c' = network" using assms(1) by (simp add: c' chain_inv_def)
  have lastE: "ch_lastHeight c' \<noteq> 0" "ch_entries c' (ch_lastHeight c') = Some ?x" "ch_lastHash c' = HeaderConsensusHash (sha256 C) header"
      "ch_currentRoot c' = EffectiveNextValidatorRoot header"
    using pos h(1) by (simp_all add: c')
  have "if ch_lastHeight c' = 0 then ch_currentRoot c' = genesisRoot
      else \<exists>x. ch_entries c' (ch_lastHeight c') = Some x \<and> ch_lastHash c' = HeaderConsensusHash (sha256 C) (ce_Header x) \<and>
        ch_currentRoot c' = EffectiveNextValidatorRoot (ce_Header x)"
    using lastE by simp
  then show ?thesis unfolding chain_inv_def using nw' dom each sets by (intro conjI allI impI) metis+
qed

text \<open>The chains that a client can have: from a committee, through headers that were accepted or refused.\<close>

inductive chain_reach :: "crypto \<Rightarrow> networkid \<Rightarrow> ValidatorSet \<Rightarrow> Chain \<Rightarrow> bool" for C network genesis where
  start: "chain_New C network genesis = Inr c \<Longrightarrow> chain_reach C network genesis c"
| append: "chain_reach C network genesis c \<Longrightarrow> chain_reach C network genesis (snd (Append C header certificate current next c))"

lemma chain_reach_inv:
  assumes "chain_reach C network genesis c"
  shows "\<exists>root. VS_Root C genesis = Inr root \<and> chain_inv C network root c"
  using assms
proof induction
  case (start c)
  then show ?case by (rule chain_New_inv)
next
  case (append c header certificate current "next")
  then show ?case using append_inv by (auto simp: Append_def split: sum.split)
qed


subsection \<open>Forks\<close>

text \<open>Two valid sets with the same network and members verify the same certificates.\<close>

lemma VerifyCertificate_members:
  assumes "valid_set C s" "valid_set C s'" "vs_Network s = vs_Network s'" "set (vs_Validators s) = set (vs_Validators s')"
    and "VerifyCertificate C s' c = Inr ()"
  shows "VerifyCertificate C s c = Inr ()"
proof -
  have d: "distinct (map val_ID (vs_Validators s))" "distinct (map val_ID (vs_Validators s'))" using assms(1,2) by (simp_all add: valid_set_def)
  have f: "find_validator vid (vs_Validators s) = find_validator vid (vs_Validators s')" for vid
  proof (cases "find_validator vid (vs_Validators s')")
    case None
    then have "vid \<notin> val_ID ` set (vs_Validators s)" using find_validator_None assms(4) by auto
    then show ?thesis using None by (metis find_validator_None)
  next
    case (Some v)
    then have "v \<in> set (vs_Validators s) \<and> val_ID v = vid" using find_validator_iff [OF d(2)] assms(4) by simp
    then show ?thesis using Some find_validator_iff [OF d(1)] by simp
  qed
  have "VerifyVote C s w = VerifyVote C s' w" for w by (simp add: VerifyVote_def f assms(3))
  then have spec: "certificate_spec C s c" using assms by (simp add: certificate_spec_def VerifyCertificate_cases split: if_splits)
  have "npow (vs_Validators s) = npow (vs_Validators s')" using npow_sum [OF d(1)] npow_sum [OF d(2)] assms(4) by simp
  then have "add_powers (vs_Validators s) = add_powers (vs_Validators s')"
    using valid_set_total [OF assms(1)] valid_set_total [OF assms(2)] by (simp add: word_unat_eq_iff)
  moreover have "power_of_voters s ws = power_of_voters s' ws" for ws
    using power_of_voters_sum [OF assms(1)] power_of_voters_sum [OF assms(2)] assms(4) by simp
  moreover have "quorum_reached s' (cert_Votes c)" using assms(5) by (simp add: VerifyCertificate_cases split: if_splits)
  ultimately show ?thesis using spec by (simp add: VerifyCertificate_cases quorum_reached_def)
qed

text \<open>The hash collisions that two entries can exhibit: of their headers, or of the roots of their committees.\<close>

definition header_frame :: "GlobalHeader \<Rightarrow> byte list" where
  "header_frame h = frame ''zephyr/global-header-consensus/v2'' (GlobalHeader_CanonicalBytes (h\<lparr>hdr_CertificateHash := 0\<rparr>))"

definition entries_collide :: "hashfun \<Rightarrow> Entry \<Rightarrow> Entry \<Rightarrow> bool" where
  "entries_collide H x y \<longleftrightarrow>
     collides H [header_frame (ce_Header x)] [header_frame (ce_Header y)] \<or>
     collides H (proofs_frames H ''validator'' (validator_payloads (ce_Validators x)))
       (root_frames H (map (leaf_frame ''validator'') (validator_payloads (ce_Validators y)))) \<or>
     collides H (proofs_frames H ''validator'' (validator_payloads (ce_Validators y)))
       (root_frames H (map (leaf_frame ''validator'') (validator_payloads (ce_Validators x))))"

lemma header_frame_next:
  assumes "HeaderConsensusHash H h = HeaderConsensusHash H h'" "\<not> collides H [header_frame h] [header_frame h']"
  shows "EffectiveNextValidatorRoot h = EffectiveNextValidatorRoot h'"
proof -
  have "H (header_frame h) = H (header_frame h')" using assms(1) by (simp add: HeaderConsensusHash_def header_frame_def DomainHash_framing)
  then have e: "header_frame h = header_frame h'" using assms(2) by (simp add: collides_def)
  have "length (GlobalHeader_CanonicalBytes x) < 2 ^ 32" for x by (simp add: GlobalHeader_CanonicalBytes_def)
  then have "GlobalHeader_CanonicalBytes (h\<lparr>hdr_CertificateHash := 0\<rparr>) = GlobalHeader_CanonicalBytes (h'\<lparr>hdr_CertificateHash := 0\<rparr>)"
    using frame_inject [OF e [unfolded header_frame_def]] by simp
  then have "hdr_ValidatorRoot h = hdr_ValidatorRoot h' \<and> hdr_NextValidatorRoot h = hdr_NextValidatorRoot h'"
    by (simp add: GlobalHeader_CanonicalBytes_def w_Fixed32_def be_bytes_inject)
  then show ?thesis by (simp add: EffectiveNextValidatorRoot_def)
qed

text \<open>Two entries of one height, by committees with one root.\<close>

lemma conflicting_entries:
  assumes "entry_ok C network h x" "entry_ok C network h y" "hdr_ValidatorRoot (ce_Header x) = hdr_ValidatorRoot (ce_Header y)"
    and "HeaderConsensusHash (sha256 C) (ce_Header x) \<noteq> HeaderConsensusHash (sha256 C) (ce_Header y)"
    and "length (vs_Validators (ce_Validators x)) < 2 ^ 32" "length (vs_Validators (ce_Validators y)) < 2 ^ 32"
    and "\<not> entries_collide (sha256 C) x y" "cert_Round (ce_Certificate x) = cert_Round (ce_Certificate y)"
  shows "npow (vs_Validators (ce_Validators x)) <
    3 * npow (filter (equivocates C (cert_Votes (ce_Certificate x)) (cert_Votes (ce_Certificate y))) (vs_Validators (ce_Validators x)))"
proof -
  let ?s = "ce_Validators x" and ?s' = "ce_Validators y"
  have root: "VS_Root C ?s = Inr (hdr_ValidatorRoot (ce_Header y))" "VS_Root C ?s' = Inr (hdr_ValidatorRoot (ce_Header y))"
    using assms(1-3) by (simp_all add: entry_ok_def)
  have v: "valid_set C ?s" "valid_set C ?s'" using root by (simp_all add: VS_Root_iff)
  have "set (vs_Validators ?s) = set (vs_Validators ?s')"
    using validators_agree [OF root assms(5)] validators_agree [OF root(2,1) assms(6)] assms(7) unfolding entries_collide_def by blast
  from VerifyCertificate_members [OF v _ this, of "ce_Certificate y"] have "VerifyCertificate C ?s (ce_Certificate y) = Inr ()"
    using assms(1,2) by (simp add: entry_ok_def)
  then show ?thesis using conflicting_quorums [of C ?s "ce_Certificate x" "ce_Certificate y"] assms(1,2,4,8) by (simp add: entry_ok_def)
qed

definition forked :: "crypto \<Rightarrow> Chain \<Rightarrow> Chain \<Rightarrow> u64 \<Rightarrow> bool" where
  "forked C a b h \<longleftrightarrow> (\<exists>x y. ch_entries a h = Some x \<and> ch_entries b h = Some y \<and>
     HeaderConsensusHash (sha256 C) (ce_Header x) \<noteq> HeaderConsensusHash (sha256 C) (ce_Header y))"

lemma first_fork:
  assumes "chain_inv C network root a" "chain_inv C network root b" "forked C a b h"
  obtains g x y where "ch_entries a g = Some x" "ch_entries b g = Some y"
    "HeaderConsensusHash (sha256 C) (ce_Header x) \<noteq> HeaderConsensusHash (sha256 C) (ce_Header y)"
    "hdr_ValidatorRoot (ce_Header x) = hdr_ValidatorRoot (ce_Header y) \<or>
      (\<exists>x' y'. ch_entries a (g - 1) = Some x' \<and> ch_entries b (g - 1) = Some y' \<and> entries_collide (sha256 C) x' y')"
proof -
  obtain g where g: "forked C a b g" "\<And>k. k < g \<Longrightarrow> \<not> forked C a b k"
    using assms(3) exists_least_iff [of "forked C a b"] by blast
  then obtain x y where x: "ch_entries a g = Some x" "ch_entries b g = Some y"
    "HeaderConsensusHash (sha256 C) (ce_Header x) \<noteq> HeaderConsensusHash (sha256 C) (ce_Header y)" by (auto simp: forked_def)
  have ax: "if g = 1 then hdr_ValidatorRoot (ce_Header x) = root else \<exists>z. ch_entries a (g - 1) = Some z \<and> follows C x z"
    using assms(1) x(1) unfolding chain_inv_def by blast
  have by': "if g = 1 then hdr_ValidatorRoot (ce_Header y) = root else \<exists>z. ch_entries b (g - 1) = Some z \<and> follows C y z"
    using assms(2) x(2) unfolding chain_inv_def by blast
  have "hdr_ValidatorRoot (ce_Header x) = hdr_ValidatorRoot (ce_Header y) \<or>
      (\<exists>x' y'. ch_entries a (g - 1) = Some x' \<and> ch_entries b (g - 1) = Some y' \<and> entries_collide (sha256 C) x' y')"
  proof (cases "g = 1")
    case True
    then show ?thesis using ax by' by simp
  next
    case False
    then obtain x' y' where z: "ch_entries a (g - 1) = Some x'" "follows C x x'" "ch_entries b (g - 1) = Some y'" "follows C y y'"
      using ax by' by auto
    have "0 < g" using assms(1) x(1) unfolding chain_inv_def by blast
    then have "g - 1 < g" by (metis add_diff_cancel_right' diff_add_cancel linorder_not_le unat_succ word_le_nat_alt Suc_n_not_le_n word_not_simps(1))
    then have "HeaderConsensusHash (sha256 C) (ce_Header x') = HeaderConsensusHash (sha256 C) (ce_Header y')"
      using g(2) z unfolding forked_def by blast
    then have "hdr_ValidatorRoot (ce_Header x) = hdr_ValidatorRoot (ce_Header y) \<or> entries_collide (sha256 C) x' y'"
      using header_frame_next [of "sha256 C" "ce_Header x'" "ce_Header y'"] z(2,4) by (auto simp: follows_def entries_collide_def)
    then show ?thesis using z by blast
  qed
  then show thesis using that [OF x] by blast
qed


text \<open>
  C15. A client's chain holds finalized history. Whatever headers it was offered, \<open>VerifyEntry\<close> accepts exactly the heights
  from 1 to the last; the first header is the work of the trusted committee, and every other one names the hash of its
  predecessor and is certified by the committee that its predecessor authorized. The chain knows the committee it expects
  next, and every set it hands out has the root it is asked for.
\<close>

theorem checkpoint_chain:
  assumes "chain_reach C network genesis c"
  shows "(VerifyEntry C c h = Inr () \<longleftrightarrow> 0 < h \<and> h \<le> ch_lastHeight c) \<and>
    (\<forall>x. chain_Entry c 1 = Some x \<longrightarrow> VS_Root C genesis = Inr (hdr_ValidatorRoot (ce_Header x))) \<and>
    (\<forall>x. chain_Entry c h = Some x \<and> h \<noteq> 1 \<longrightarrow> (\<exists>y. chain_Entry c (h - 1) = Some y \<and>
      hdr_ParentHash (ce_Header x) = HeaderConsensusHash (sha256 C) (ce_Header y) \<and>
      hdr_ValidatorRoot (ce_Header x) = EffectiveNextValidatorRoot (ce_Header y))) \<and>
    chain_ValidatorSet c (ch_currentRoot c) \<noteq> None \<and>
    (\<forall>root s. chain_ValidatorSet c root = Some s \<longrightarrow> VS_Root C s = Inr root)"
proof -
  obtain root where root: "VS_Root C genesis = Inr root" and inv: "chain_inv C network root c" using chain_reach_inv [OF assms] by blast
  have e: "entry_ok C network k x \<and> (if k = 1 then hdr_ValidatorRoot (ce_Header x) = root else \<exists>y. ch_entries c (k - 1) = Some y \<and> follows C x y)"
    if "ch_entries c k = Some x" for k x using inv that unfolding chain_inv_def by blast
  have dom: "ch_entries c h \<noteq> None \<longleftrightarrow> 0 < h \<and> h \<le> ch_lastHeight c" using inv unfolding chain_inv_def by blast
  have v: "VerifyEntry C c h = Inr () \<longleftrightarrow> ch_entries c h \<noteq> None"
    using e [of h] by (cases "ch_entries c h") (auto simp: VerifyEntry_def entry_ok_def)
  have "VerifyEntry C c h = Inr () \<longleftrightarrow> 0 < h \<and> h \<le> ch_lastHeight c" using v dom by blast
  moreover have "\<forall>x. chain_Entry c 1 = Some x \<longrightarrow> VS_Root C genesis = Inr (hdr_ValidatorRoot (ce_Header x))"
    using e [of 1] root by (simp add: chain_Entry_def)
  moreover have "\<forall>x. chain_Entry c h = Some x \<and> h \<noteq> 1 \<longrightarrow> (\<exists>y. chain_Entry c (h - 1) = Some y \<and>
      hdr_ParentHash (ce_Header x) = HeaderConsensusHash (sha256 C) (ce_Header y) \<and>
      hdr_ValidatorRoot (ce_Header x) = EffectiveNextValidatorRoot (ce_Header y))"
    using e [of h] by (auto simp: chain_Entry_def follows_def)
  moreover have "chain_ValidatorSet c (ch_currentRoot c) \<noteq> None \<and> (\<forall>root s. chain_ValidatorSet c root = Some s \<longrightarrow> VS_Root C s = Inr root)"
    using inv unfolding chain_inv_def chain_ValidatorSet_def by blast
  ultimately show ?thesis by blast
qed

text \<open>
  C14. Clients that trust the same committee do not diverge unnoticed. If two chains from one committee hold different headers
  at some height, then at some height where they both have an entry, and the headers differ, either validators with more than
  a third of the committee's power signed conflicting votes of one round, which the two certificates exhibit, or the two
  certificates are of different rounds; or else two entries of the chains exhibit a hash collision.
\<close>

theorem fork_accountable:
  assumes "chain_reach C network genesis a" "chain_reach C network genesis b"
    and "chain_Entry a h = Some x0" "chain_Entry b h = Some y0"
    and "HeaderConsensusHash (sha256 C) (ce_Header x0) \<noteq> HeaderConsensusHash (sha256 C) (ce_Header y0)"
    and "\<And>k z. chain_Entry a k = Some z \<or> chain_Entry b k = Some z \<Longrightarrow> length (vs_Validators (ce_Validators z)) < 2 ^ 32"
  shows "\<exists>k x y. chain_Entry a k = Some x \<and> chain_Entry b k = Some y \<and>
    (HeaderConsensusHash (sha256 C) (ce_Header x) \<noteq> HeaderConsensusHash (sha256 C) (ce_Header y) \<and>
       (cert_Round (ce_Certificate x) \<noteq> cert_Round (ce_Certificate y) \<or>
        npow (vs_Validators (ce_Validators x)) <
          3 * npow (filter (equivocates C (cert_Votes (ce_Certificate x)) (cert_Votes (ce_Certificate y))) (vs_Validators (ce_Validators x)))) \<or>
     entries_collide (sha256 C) x y)"
proof -
  obtain root where inv: "chain_inv C network root a" "chain_inv C network root b"
    using chain_reach_inv [OF assms(1)] chain_reach_inv [OF assms(2)] by auto
  have "forked C a b h" using assms(3-5) by (auto simp: forked_def chain_Entry_def)
  from first_fork [OF inv this] show ?thesis
  proof cases
    case (1 g x y)
    have ok: "entry_ok C network g x" "entry_ok C network g y" using 1(1,2) inv unfolding chain_inv_def by blast+
    show ?thesis
    proof (cases "hdr_ValidatorRoot (ce_Header x) = hdr_ValidatorRoot (ce_Header y)")
      case True
      have "length (vs_Validators (ce_Validators x)) < 2 ^ 32" "length (vs_Validators (ce_Validators y)) < 2 ^ 32"
        using assms(6) 1(1,2) unfolding chain_Entry_def by blast+
      from conflicting_entries [OF ok True 1(3) this] show ?thesis using 1(1-3) unfolding chain_Entry_def by blast
    next
      case False
      then show ?thesis using 1(4) unfolding chain_Entry_def by blast
    qed
  qed
qed

subsection \<open>A committee of one that finalizes two headers\<close>

text \<open>A stand-in for SHA-256 that counts the bytes that are not zero, and is never zero itself.\<close>

definition count_hash :: hashfun where
  "count_hash bs = 2 * of_nat (length (filter (\<lambda>b. b \<noteq> 0) bs)) + 1"

lemma count_hash_nonzero: "count_hash bs \<noteq> 0"
  unfolding count_hash_def by (metis dvd_0_right dvd_triv_left even_plus_one_iff)

definition count_crypto :: crypto where
  "count_crypto = toy_crypto\<lparr>sha256 := count_hash\<rparr>"

definition lone_set :: ValidatorSet where
  "lone_set = \<lparr>vs_Network = 7, vs_Validators =
     [\<lparr>val_ID = ValidatorIDFromPublicKey count_hash (replicate 65 4), val_PublicKey = replicate 65 4, val_Power = 1\<rparr>]\<rparr>"

definition lone_header0 :: "hash \<Rightarrow> GlobalHeader" where
  "lone_header0 data = \<lparr>hdr_Version = 2, hdr_Network = 7, hdr_Height = 1, hdr_ParentHash = 0, hdr_ShardCommitmentRoot = 1,
     hdr_ValidatorRoot = validator_leaf count_hash (hd (vs_Validators lone_set)), hdr_NextValidatorRoot = 0,
     hdr_DataRoot = data, hdr_CertificateHash = 0\<rparr>"

definition lone_certificate :: "hash \<Rightarrow> Certificate" where
  "lone_certificate data = \<lparr>cert_Network = 7, cert_Height = 1, cert_Round = 0,
     cert_HeaderHash = HeaderConsensusHash count_hash (lone_header0 data),
     cert_Votes = [\<lparr>vote_Network = 7, vote_Height = 1, vote_Round = 0,
       vote_HeaderHash = HeaderConsensusHash count_hash (lone_header0 data),
       vote_Voter = ValidatorIDFromPublicKey count_hash (replicate 65 4), vote_PublicKey = replicate 65 4,
       vote_Signature = pad32 2 @ pad32 2\<rparr>]\<rparr>"

definition lone_header :: "hash \<Rightarrow> GlobalHeader" where
  "lone_header data = (lone_header0 data)\<lparr>hdr_CertificateHash := Certificate_Hash count_hash (lone_certificate data)\<rparr>"

lemma lone_hashes:
  "HeaderConsensusHash count_hash h \<noteq> 0" "validator_leaf count_hash v \<noteq> 0"
  "HeaderConsensusHash count_hash (lone_header0 0) \<noteq> HeaderConsensusHash count_hash (lone_header0 1)"
proof -
  show "HeaderConsensusHash count_hash h \<noteq> 0" "validator_leaf count_hash v \<noteq> 0"
    by (simp_all add: HeaderConsensusHash_def DomainHash_framing validator_leaf_def Leaf_def count_hash_nonzero)
  have "length (filter (\<lambda>b. b \<noteq> 0) (be_bytes 32 (0 :: bytes32))) = 0" "length (filter (\<lambda>b. b \<noteq> 0) (be_bytes 32 (1 :: bytes32))) = 1"
    by code_simp+
  then show "HeaderConsensusHash count_hash (lone_header0 0) \<noteq> HeaderConsensusHash count_hash (lone_header0 1)"
    by (simp add: HeaderConsensusHash_def DomainHash_def count_hash_def lone_header0_def GlobalHeader_CanonicalBytes_def w_Fixed32_def
        del: be_bytes.simps)
qed

lemma lone_header_simps:
  "HeaderConsensusHash count_hash (lone_header d) = HeaderConsensusHash count_hash (lone_header0 d)"
  "hdr_Network (lone_header d) = 7" "hdr_Height (lone_header d) = 1"
  "hdr_ValidatorRoot (lone_header d) = validator_leaf count_hash (hd (vs_Validators lone_set))"
  "EffectiveNextValidatorRoot (lone_header d) = hdr_ValidatorRoot (lone_header d)"
  "hdr_CertificateHash (lone_header d) = Certificate_Hash count_hash (lone_certificate d)"
  by (simp_all add: HeaderConsensusHash_def lone_header_def lone_header0_def EffectiveNextValidatorRoot_def IsZero32_def)

lemma lone_valid: "valid_set count_crypto lone_set" "sha256 count_crypto = count_hash"
  by (simp_all add: valid_set_def lone_set_def validator_ok_def count_crypto_def)

lemma lone_root: "VS_Root count_crypto lone_set = Inr (hdr_ValidatorRoot (lone_header d))"
proof -
  have "merkle_Root count_hash [x] = x" for x by (simp add: merkle_eval)
  then show ?thesis using lone_valid by (simp add: VS_Root_iff lone_header_simps) (simp add: lone_set_def)
qed

lemma lone_certified: "VerifyCertificate count_crypto lone_set (lone_certificate d) = Inr ()"
proof -
  have "verifyDigest count_crypto pk x (pad32 2 @ pad32 2) = Inr ()" if "length pk = 65" for pk x
    using toy_signature [OF that, of x] by (simp add: verifyDigest_def count_crypto_def Let_def)
  then have "VerifyVote count_crypto lone_set w = Inr ()" if "w \<in> set (cert_Votes (lone_certificate d))" for w
    using that lone_hashes(1) lone_valid(2) by (simp add: VerifyVote_def lone_certificate_def lone_set_def IsZero32_def)
  then have "certificate_spec count_crypto lone_set (lone_certificate d)"
    using lone_valid lone_hashes(1)
    by (simp add: certificate_spec_def vote_matches_def) (simp add: lone_certificate_def lone_set_def)
  moreover have "quorum_reached lone_set (cert_Votes (lone_certificate d))"
    by (simp add: quorum_reached_def power_of_voters_def voters_def lone_set_def lone_certificate_def add_powers_def QuorumPower_def)
  ultimately show ?thesis by (simp add: VerifyCertificate_cases)
qed

definition lone_chain :: "hash \<Rightarrow> Chain" where
  "lone_chain d = (let root = hdr_ValidatorRoot (lone_header d) in
     \<lparr>ch_network = 7, ch_currentRoot = root, ch_lastHeight = 1, ch_lastHash = HeaderConsensusHash count_hash (lone_header0 d),
      ch_entries = [1 \<mapsto> \<lparr>ce_Header = lone_header d, ce_Certificate = lone_certificate d, ce_Validators = lone_set\<rparr>],
      ch_sets = [root \<mapsto> lone_set]\<rparr>)"

lemma lone_chain_reach: "chain_reach count_crypto 7 lone_set (lone_chain d)"
proof -
  let ?root = "hdr_ValidatorRoot (lone_header d)"
  let ?c = "\<lparr>ch_network = 7, ch_currentRoot = ?root, ch_lastHeight = 0, ch_lastHash = 0, ch_entries = Map.empty, ch_sets = [?root \<mapsto> lone_set]\<rparr>"
  have nw: "vs_Network lone_set = 7" "cert_Network (lone_certificate d) = 7" "cert_Height (lone_certificate d) = 1"
    "cert_HeaderHash (lone_certificate d) = HeaderConsensusHash count_hash (lone_header0 d)"
    by (simp_all add: lone_set_def lone_certificate_def)
  have "?root \<noteq> 0" by (simp add: lone_header_simps lone_hashes)
  then have "chain_New count_crypto 7 lone_set = Inr ?c" by (simp add: chain_New_def IsZero32_def nw lone_root [of d])
  then have "chain_reach count_crypto 7 lone_set ?c" by (rule chain_reach.start)
  moreover have "Append count_crypto (lone_header d) (lone_certificate d) lone_set None ?c = (Inr (), lone_chain d)"
    by (simp add: Append_def chain_append_def nw lone_root [of d] lone_certified lone_valid(2) next_sets_def lone_chain_def Let_def)
      (simp add: lone_header_simps)
  ultimately show ?thesis using chain_reach.append [of count_crypto 7 lone_set ?c "lone_header d" "lone_certificate d" lone_set None] by simp
qed

theorem checkpoint_chain_witness:
  "VerifyEntry count_crypto (lone_chain 0) 1 = Inr () \<and> VerifyEntry count_crypto (lone_chain 0) 2 \<noteq> Inr ()"
proof -
  have "ch_lastHeight (lone_chain 0) = 1" by (simp add: lone_chain_def Let_def)
  then show ?thesis
    using conjunct1 [OF checkpoint_chain [OF lone_chain_reach, of 0 1]] conjunct1 [OF checkpoint_chain [OF lone_chain_reach, of 0 2]]
    by (simp add: word_le_nat_alt)
qed

theorem fork_accountable_witness:
  "\<exists>k x y. chain_Entry (lone_chain 0) k = Some x \<and> chain_Entry (lone_chain 1) k = Some y \<and>
    (HeaderConsensusHash count_hash (ce_Header x) \<noteq> HeaderConsensusHash count_hash (ce_Header y) \<and>
       npow (vs_Validators (ce_Validators x)) <
          3 * npow (filter (equivocates count_crypto (cert_Votes (ce_Certificate x)) (cert_Votes (ce_Certificate y))) (vs_Validators (ce_Validators x))) \<or>
     entries_collide count_hash x y)"
proof -
  let ?x = "\<lambda>d. \<lparr>ce_Header = lone_header d, ce_Certificate = lone_certificate d, ce_Validators = lone_set\<rparr>"
  have e: "chain_Entry (lone_chain d) k = Some z \<longleftrightarrow> k = 1 \<and> z = ?x d" for d k z by (auto simp: chain_Entry_def lone_chain_def Let_def)
  have "HeaderConsensusHash (sha256 count_crypto) (ce_Header (?x 0)) \<noteq> HeaderConsensusHash (sha256 count_crypto) (ce_Header (?x 1))"
    using lone_hashes(3) lone_valid(2) by (simp add: lone_header_simps)
  from fork_accountable [OF lone_chain_reach [of 0] lone_chain_reach [of 1] _ _ this, of 1] show ?thesis
    unfolding e lone_valid(2) by (fastforce simp: lone_set_def lone_certificate_def)
qed

end
