(* ===== verification/Storage.thy ===== *)
theory Storage
  imports Prelude
begin

unbundle bit_operations_syntax

text \<open>
  Files that a component appends to and syncs. The outcome of a write followed by a sync is an argument of the
  operation that makes them: both succeed, the write stops after some bytes, or the sync fails. The checksum of the
  records of the state log is here too.
\<close>

datatype io_outcome = IoOk | IoWriteFails nat | IoSyncFails

text \<open>The content of the file and the length of its prefix on stable storage.\<close>

record Journal =
  jr_bytes :: "byte list"
  jr_synced :: nat

definition file_append :: "byte list \<Rightarrow> io_outcome \<Rightarrow> Journal \<Rightarrow> bool \<times> Journal" where
  "file_append bs io j =
     (case io of
        IoOk \<Rightarrow> (True, \<lparr>jr_bytes = jr_bytes j @ bs, jr_synced = length (jr_bytes j @ bs)\<rparr>)
      | IoWriteFails n \<Rightarrow> (False, j\<lparr>jr_bytes := jr_bytes j @ take n bs\<rparr>)
      | IoSyncFails \<Rightarrow> (False, j\<lparr>jr_bytes := jr_bytes j @ bs\<rparr>))"

text \<open>The bytes that reach the file.\<close>

definition written :: "byte list \<Rightarrow> io_outcome \<Rightarrow> byte list" where
  "written bs io = (case io of IoOk \<Rightarrow> bs | IoWriteFails n \<Rightarrow> take n bs | IoSyncFails \<Rightarrow> bs)"

lemma written_simps [simp]:
  "written bs IoOk = bs" "written bs (IoWriteFails n) = take n bs" "written bs IoSyncFails = bs"
  by (simp_all add: written_def)

lemma written_prefix: "\<exists>n. written bs io = take n bs"
  by (cases io) (auto intro: exI [of _ "length bs"])

text \<open>\<open>crc32.Checksum\<close> with the Castagnoli table: the reflected polynomial, bit by bit.\<close>

definition crc_shift :: "u32 \<Rightarrow> u32" where
  "crc_shift crc = (if bit crc 0 then drop_bit 1 crc XOR 0x82F63B78 else drop_bit 1 crc)"

definition crc_byte :: "u32 \<Rightarrow> byte \<Rightarrow> u32" where
  "crc_byte crc b = (crc_shift ^^ 8) (crc XOR ucast b)"

definition crc32c :: "byte list \<Rightarrow> u32" where
  "crc32c bs = NOT (foldl crc_byte (- 1) bs)"

lemma crc_byte_unfold:
  "crc_byte crc b = crc_shift (crc_shift (crc_shift (crc_shift (crc_shift (crc_shift (crc_shift (crc_shift (crc XOR ucast b))))))))"
  by (simp add: crc_byte_def eval_nat_numeral)

text \<open>The published check value, of the digits 1 to 9.\<close>

lemma crc32c_check: "crc32c [49, 50, 51, 52, 53, 54, 55, 56, 57] = 0xE3069283"
  by (simp add: crc32c_def crc_byte_unfold crc_shift_def)

end
