(* ===== verification/SigningGuard.thy ===== *)
theory SigningGuard
  imports Consensus Storage
begin

text \<open>
  The durable signing guard of a validator (\<open>internal/v2/consensus/signing_guard.go\<close>), and the system
  of one journal on disk and the processes that open it one after the other.

  The journal is a byte string, of which a prefix is known to be on stable storage (everything up to the last
  successful \<open>Sync\<close>). The outcome of each write and sync is an argument: it succeeds, it fails after some bytes, or the
  sync fails. Opening takes the exclusive lock of the file, so at most one process holds a guard. The sync of the directory of a new journal counts as
  part of the sync of its header. Directory permissions and the lock call itself are operating system state: they appear as the outcome of \<open>openLockedSigningJournal\<close>.

  The step relation has the calls of a process, its crash, and the loss of power, which may drop what was not synced. The
  lemmas show that no two different headers are authorized for one height and round, when power is not lost or every
  journal is synced before it is opened; and that without either condition two can be.
\<close>

record Guard =
  g_network :: networkid
  g_validator :: validatorid
  g_height :: u64
  g_round :: u64
  g_target :: hash
  g_lastRecordHash :: hash
  g_hasRecord :: bool
  g_closed :: bool
  g_poisoned :: bool

definition signingJournalHeaderBytes :: nat where
  "signingJournalHeaderBytes = 69"

definition signingJournalRecordBytes :: nat where
  "signingJournalRecordBytes = 112"

definition journal_header :: "networkid \<Rightarrow> validatorid \<Rightarrow> byte list" where
  "journal_header network validator = str ''ZSG2'' @ w_U8 1 @ w_Fixed32 network @ w_Fixed32 validator"

definition signing_digest :: "hashfun \<Rightarrow> byte list \<Rightarrow> hash" where
  "signing_digest H body = DomainHash H ''zephyr/consensus/signing-intent/v1'' body"

definition parse_record :: "byte list \<Rightarrow> (u64 \<times> u64 \<times> hash \<times> hash \<times> hash) result" where
  "parse_record raw =
     tryAs ErrSigningJournal (r_U64 raw) (\<lambda>(height, r).
     tryAs ErrSigningJournal (r_U64 r) (\<lambda>(round', r).
     tryAs ErrSigningJournal (r_Fixed32 r) (\<lambda>(target, r).
     tryAs ErrSigningJournal (r_Fixed32 r) (\<lambda>(prev, r).
     tryAs ErrSigningJournal (r_Fixed32 r) (\<lambda>(h, r).
     if \<not> is_ok (r_Done r) \<or> height = 0 then Inl ErrSigningJournal
     else Inr (height, round', target, prev, h))))))"

function replay_records :: "hashfun \<Rightarrow> Guard \<Rightarrow> hash \<Rightarrow> byte list \<Rightarrow> Guard result" where
  "replay_records H g previous bs =
     (if bs = [] then Inr g
      else if length bs < signingJournalRecordBytes then Inl ErrSigningJournal
      else
        let raw = take signingJournalRecordBytes bs
        in case parse_record raw of
          Inl e \<Rightarrow> Inl ErrSigningJournal
        | Inr (height, round', target, prev, h) \<Rightarrow>
            if IsZero32 target \<or> prev \<noteq> previous \<or> h \<noteq> signing_digest H (take 80 raw) then Inl ErrSigningJournal
            else if g_hasRecord g \<and> (height < g_height g \<or> (height = g_height g \<and> round' \<le> g_round g))
            then Inl ErrSigningJournal
            else replay_records H
                   (g\<lparr>g_height := height, g_round := round', g_target := target, g_lastRecordHash := h, g_hasRecord := True\<rparr>)
                   h (drop signingJournalRecordBytes bs))"
  by pat_completeness auto

termination replay_records
  by (relation "measure (\<lambda>(H, g, previous, bs). length bs)") (auto simp: signingJournalRecordBytes_def)

declare replay_records.simps [simp del]

definition guard_replay :: "hashfun \<Rightarrow> Guard \<Rightarrow> byte list \<Rightarrow> Guard result" where
  "guard_replay H g bs =
     (if length bs < signingJournalHeaderBytes then Inl ErrSigningJournal
      else
        let header = take signingJournalHeaderBytes bs
        in if take 4 header \<noteq> str ''ZSG2'' \<or> header ! 4 \<noteq> 1 then Inl ErrSigningJournal
           else
             let network = from_be (take 32 (drop 5 header)) :: networkid;
                 validator = from_be (take 32 (drop 37 header)) :: validatorid
             in if network \<noteq> g_network g \<or> validator \<noteq> g_validator g then Inl ErrSigningGuard
                else replay_records H g 0 (drop signingJournalHeaderBytes bs))"

definition new_guard :: "networkid \<Rightarrow> validatorid \<Rightarrow> Guard" where
  "new_guard network validator =
     \<lparr>g_network = network, g_validator = validator, g_height = 0, g_round = 0, g_target = 0, g_lastRecordHash = 0,
      g_hasRecord = False, g_closed = False, g_poisoned = False\<rparr>"

text \<open>
  \<open>OpenDurableSigningGuard\<close>: \<open>lock\<close> is the error of the directory checks or of \<open>openLockedSigningJournal\<close>, if any.
  A file that does not exist is created, with its header written and synced.
\<close>

definition OpenDurableSigningGuard :: "hashfun \<Rightarrow> networkid \<Rightarrow> validatorid \<Rightarrow> error option \<Rightarrow> io_outcome \<Rightarrow> Journal option \<Rightarrow>
    Guard result \<times> Journal option" where
  "OpenDurableSigningGuard H network validator lock io file =
     (if IsZero32 network \<or> IsZero32 validator then (Inl ErrSigningGuard, file)
      else case lock of
        Some e \<Rightarrow> (Inl e, file)
      | None \<Rightarrow>
          let guard = new_guard network validator
          in case file of
            None \<Rightarrow>
              (let (ok, j) = file_append (journal_header network validator) io \<lparr>jr_bytes = [], jr_synced = 0\<rparr>
               in if \<not> ok then (Inl ErrIO, Some j) else (guard_replay H guard (jr_bytes j), Some j))
          | Some j \<Rightarrow> (guard_replay H guard (jr_bytes j), Some j))"

definition guard_Matches :: "networkid \<Rightarrow> validatorid \<Rightarrow> Guard option \<Rightarrow> bool" where
  "guard_Matches network validator g =
     (case g of
        None \<Rightarrow> False
      | Some g \<Rightarrow> \<not> g_closed g \<and> \<not> g_poisoned g \<and> g_network g = network \<and> g_validator g = validator)"

definition Authorize :: "hashfun \<Rightarrow> networkid \<Rightarrow> validatorid \<Rightarrow> u64 \<Rightarrow> u64 \<Rightarrow> hash \<Rightarrow> io_outcome \<Rightarrow> Guard \<Rightarrow> Journal \<Rightarrow>
    unit result \<times> Guard \<times> Journal" where
  "Authorize H network validator height round' target io g j =
     (if g_closed g \<or> g_poisoned g \<or> g_network g \<noteq> network \<or> g_validator g \<noteq> validator \<or> height = 0 \<or> IsZero32 target
      then (Inl ErrSigningGuard, g, j)
      else if g_hasRecord g \<and> (height < g_height g \<or> (height = g_height g \<and> round' < g_round g))
      then (Inl ErrSigningConflict, g, j)
      else if g_hasRecord g \<and> height = g_height g \<and> round' = g_round g
      then (if target \<noteq> g_target g then (Inl ErrSigningConflict, g, j) else (Inr (), g, j))
      else
        let body = w_U64 height @ w_U64 round' @ w_Fixed32 target @ w_Fixed32 (g_lastRecordHash g);
            digest = signing_digest H body;
            encoded = body @ w_Fixed32 digest
        in if length encoded \<noteq> signingJournalRecordBytes
           then (Inl ErrSigningJournal, g\<lparr>g_poisoned := True\<rparr>, j)
           else
             let (ok, j') = file_append encoded io j
             in if \<not> ok then (Inl ErrSigningJournal, g\<lparr>g_poisoned := True\<rparr>, j')
                else (Inr (), g\<lparr>g_height := height, g_round := round', g_target := target, g_lastRecordHash := digest,
                               g_hasRecord := True\<rparr>, j'))"

definition guard_Close :: "Guard \<Rightarrow> Guard" where
  "guard_Close g = (if g_closed g then g else g\<lparr>g_closed := True\<rparr>)"

definition SigningValidatorID :: "crypto \<Rightarrow> byte list \<Rightarrow> validatorid result" where
  "SigningValidatorID C publicKey =
     (if length publicKey \<noteq> 65 then Inl ErrSigningGuard
      else if \<not> unmarshal_ok C publicKey then Inl ErrSigningGuard
      else Inr (ValidatorIDFromPublicKey (sha256 C) publicKey))"

subsection \<open>The journal and its processes\<close>

type_synonym intent = "u64 \<times> u64 \<times> hash"

record System =
  sy_file :: "Journal option"
  sy_guard :: "Guard option"
  sy_authorized :: "intent list"

definition initial_system :: System where
  "initial_system = \<lparr>sy_file = None, sy_guard = None, sy_authorized = []\<rparr>"

text \<open>
  The flag \<open>loss\<close> allows the loss of power; the flag \<open>resync\<close> restricts opening to journals that are
  on stable storage as they are read.
\<close>

inductive guard_step :: "hashfun \<Rightarrow> networkid \<Rightarrow> validatorid \<Rightarrow> bool \<Rightarrow> bool \<Rightarrow> System \<Rightarrow> System \<Rightarrow> bool"
  for H nw vl loss resync where
  open_ok: "sy_guard s = None \<Longrightarrow>
     (resync \<Longrightarrow> \<forall>j. sy_file s = Some j \<longrightarrow> jr_synced j = length (jr_bytes j)) \<Longrightarrow>
     OpenDurableSigningGuard H nw vl lock io (sy_file s) = (Inr g, f) \<Longrightarrow>
     guard_step H nw vl loss resync s (s\<lparr>sy_file := f, sy_guard := Some g\<rparr>)"
| open_error: "sy_guard s = None \<Longrightarrow> OpenDurableSigningGuard H nw vl lock io (sy_file s) = (Inl e, f) \<Longrightarrow>
     guard_step H nw vl loss resync s (s\<lparr>sy_file := f\<rparr>)"
| authorize: "sy_guard s = Some g \<Longrightarrow> sy_file s = Some j \<Longrightarrow>
     Authorize H network validator height round' target io g j = (res, g', j') \<Longrightarrow>
     guard_step H nw vl loss resync s
       (s\<lparr>sy_file := Some j', sy_guard := Some g',
          sy_authorized := (if is_ok res then [(height, round', target)] else []) @ sy_authorized s\<rparr>)"
| close: "sy_guard s = Some g \<Longrightarrow> guard_step H nw vl loss resync s (s\<lparr>sy_guard := Some (guard_Close g)\<rparr>)"
| crash: "guard_step H nw vl loss resync s (s\<lparr>sy_guard := None\<rparr>)"
| power_loss: "loss \<Longrightarrow> sy_file s = Some j \<Longrightarrow> jr_synced j \<le> n \<Longrightarrow>
     guard_step H nw vl loss resync s
       (s\<lparr>sy_guard := None, sy_file := Some \<lparr>jr_bytes = take n (jr_bytes j), jr_synced = jr_synced j\<rparr>\<rparr>)"
| power_loss_new: "loss \<Longrightarrow> sy_file s = Some j \<Longrightarrow> jr_synced j = 0 \<Longrightarrow>
     guard_step H nw vl loss resync s (s\<lparr>sy_guard := None, sy_file := None\<rparr>)"

inductive guard_reach :: "hashfun \<Rightarrow> networkid \<Rightarrow> validatorid \<Rightarrow> bool \<Rightarrow> bool \<Rightarrow> System \<Rightarrow> bool"
  for H nw vl loss resync where
  start: "guard_reach H nw vl loss resync initial_system"
| step: "guard_reach H nw vl loss resync s \<Longrightarrow> guard_step H nw vl loss resync s s' \<Longrightarrow> guard_reach H nw vl loss resync s'"

subsection \<open>What a journal records\<close>

definition intent_body :: "hash \<Rightarrow> intent \<Rightarrow> byte list" where
  "intent_body prev i = (case i of (h, r, t) \<Rightarrow> w_U64 h @ w_U64 r @ w_Fixed32 t @ w_Fixed32 prev)"

definition intent_record :: "hashfun \<Rightarrow> hash \<Rightarrow> intent \<Rightarrow> byte list" where
  "intent_record H prev i = intent_body prev i @ w_Fixed32 (signing_digest H (intent_body prev i))"

primrec journal_records :: "hashfun \<Rightarrow> hash \<Rightarrow> intent list \<Rightarrow> byte list" where
  "journal_records H prev [] = []"
| "journal_records H prev (i # is) = intent_record H prev i @ journal_records H (signing_digest H (intent_body prev i)) is"

primrec last_digest :: "hashfun \<Rightarrow> hash \<Rightarrow> intent list \<Rightarrow> hash" where
  "last_digest H prev [] = prev"
| "last_digest H prev (i # is) = last_digest H (signing_digest H (intent_body prev i)) is"

definition later :: "intent \<Rightarrow> intent \<Rightarrow> bool" where
  "later i i' \<longleftrightarrow> (case i of (h, r, _) \<Rightarrow> case i' of (h', r', _) \<Rightarrow> h < h' \<or> h = h' \<and> r < r')"

definition intent_ok :: "intent \<Rightarrow> bool" where
  "intent_ok i \<longleftrightarrow> (case i of (h, r, t) \<Rightarrow> h \<noteq> 0 \<and> t \<noteq> 0)"

definition intents_ok :: "intent list \<Rightarrow> bool" where
  "intents_ok is \<longleftrightarrow> list_all intent_ok is \<and> sorted_wrt later is"

definition after :: "Guard \<Rightarrow> hashfun \<Rightarrow> hash \<Rightarrow> intent list \<Rightarrow> Guard" where
  "after g H prev is =
     (if is = [] then g
      else case last is of (h, r, t) \<Rightarrow>
        g\<lparr>g_height := h, g_round := r, g_target := t, g_lastRecordHash := last_digest H prev is, g_hasRecord := True\<rparr>)"

subsection \<open>Replaying a journal\<close>


lemma length_intent_body [simp]: "length (intent_body p i) = 80"
  by (simp add: intent_body_def split: prod.split)

lemma length_intent_record [simp]: "length (intent_record H p i) = 112"
  by (simp add: intent_record_def)

lemma parse_record_iff:
  "parse_record raw = Inr (h, r, t, p, d) \<longleftrightarrow> h \<noteq> 0 \<and> raw = intent_body p (h, r, t) @ w_Fixed32 d"
  by (auto simp: parse_record_def intent_body_def wire_iff)

lemma intent_record_inject: "intent_record H p i @ s = intent_record H p i' @ s' \<longleftrightarrow> i = i' \<and> s = s'"
proof -
  have "intent_record H p i = intent_record H p i' \<Longrightarrow> i = i'"
    by (auto simp: intent_record_def intent_body_def wire_cancel wire_cancel_end split: prod.splits)
  then show ?thesis by (auto simp: append_eq_append_conv)
qed

lemma journal_records_prefix:
  "journal_records H p is @ tail = journal_records H p is' \<Longrightarrow> \<exists>js. is' = is @ js"
proof (induction "is" arbitrary: p is')
  case (Cons i "is")
  then obtain i' js where j: "is' = i' # js" by (cases is') (auto dest: arg_cong [of _ _ length])
  then show ?case using Cons by (auto simp: intent_record_inject)
qed simp

lemma later_trans: "later a b \<Longrightarrow> later b c \<Longrightarrow> later a c"
  by (auto simp: later_def split: prod.splits)

definition g_intent :: "Guard \<Rightarrow> intent" where
  "g_intent g = (g_height g, g_round g, g_target g)"

definition recorded :: "Guard \<Rightarrow> hash \<Rightarrow> intent \<Rightarrow> Guard" where
  "recorded g d i = (case i of (h, r, t) \<Rightarrow>
     g\<lparr>g_height := h, g_round := r, g_target := t, g_lastRecordHash := d, g_hasRecord := True\<rparr>)"

lemma after_Cons:
  "after g H p (i # is) = after (recorded g (signing_digest H (intent_body p i)) i) H (signing_digest H (intent_body p i)) is"
  by (cases "is") (auto simp: after_def recorded_def split: prod.splits)

lemma recorded_simps [simp]:
  "g_intent (recorded g d i) = i" "g_hasRecord (recorded g d i)"
  by (auto simp: g_intent_def recorded_def split: prod.splits)

lemma replay_records_step:
  assumes "bs \<noteq> []"
  shows "replay_records H g p bs = Inr g' \<longleftrightarrow>
    (\<exists>i rest. bs = intent_record H p i @ rest \<and> intent_ok i \<and> (g_hasRecord g \<longrightarrow> later (g_intent g) i) \<and>
       replay_records H (recorded g (signing_digest H (intent_body p i)) i) (signing_digest H (intent_body p i)) rest = Inr g')"
    (is "?L \<longleftrightarrow> ?R")
proof
  assume ?L
  then have len: "112 \<le> length bs"
    using assms by (subst (asm) replay_records.simps) (auto simp: signingJournalRecordBytes_def split: if_splits)
  obtain h r t q d where pr: "parse_record (take 112 bs) = Inr (h, r, t, q, d)"
    using \<open>?L\<close> assms len by (subst (asm) replay_records.simps)
      (auto simp: signingJournalRecordBytes_def Let_def split: sum.splits)
  then have raw: "h \<noteq> 0" "take 112 bs = intent_body q (h, r, t) @ w_Fixed32 d" by (simp_all add: parse_record_iff)
  then have t80: "take 80 (take 112 bs) = intent_body q (h, r, t)" by simp
  have c: "t \<noteq> 0" "q = p" "d = signing_digest H (intent_body q (h, r, t))"
      "\<not> (g_hasRecord g \<and> (h < g_height g \<or> h = g_height g \<and> r \<le> g_round g))"
      "replay_records H (recorded g d (h, r, t)) d (drop 112 bs) = Inr g'"
    using \<open>?L\<close> [unfolded replay_records.simps [of H g p bs]] assms len pr t80
    by (auto simp: signingJournalRecordBytes_def Let_def IsZero32_def recorded_def split: if_splits)
  have "bs = intent_record H p (h, r, t) @ drop 112 bs"
    using raw(2) c(2,3) by (metis append_take_drop_id intent_record_def append.assoc)
  moreover have "g_hasRecord g \<longrightarrow> later (g_intent g) (h, r, t)"
    using c(4) by (auto simp: later_def g_intent_def)
  ultimately show ?R using c raw(1) by (auto simp: intent_ok_def)
next
  assume ?R
  then obtain i rest where i: "bs = intent_record H p i @ rest" "intent_ok i" "g_hasRecord g \<longrightarrow> later (g_intent g) i"
       "replay_records H (recorded g (signing_digest H (intent_body p i)) i) (signing_digest H (intent_body p i)) rest = Inr g'"
    by blast
  obtain h r t where hrt: "i = (h, r, t)" by (cases i)
  let ?d = "signing_digest H (intent_body p i)"
  have pr: "parse_record (take 112 bs) = Inr (h, r, t, p, ?d)"
    using i(1,2) by (simp add: parse_record_iff hrt intent_ok_def intent_record_def)
  have "take 80 (take 112 bs) = intent_body p i" "drop 112 bs = rest" "\<not> length bs < 112"
    using i(1) by (simp_all add: intent_record_def)
  then show ?L
    using pr i hrt assms by (subst replay_records.simps)
      (auto simp: signingJournalRecordBytes_def Let_def IsZero32_def intent_ok_def later_def g_intent_def recorded_def)
qed

lemma replay_records_Nil [simp]: "replay_records H g p [] = Inr g"
  by (subst replay_records.simps) simp

lemma replay_records_sound:
  "replay_records H g p bs = Inr g' \<Longrightarrow>
     \<exists>is. bs = journal_records H p is \<and> intents_ok is \<and> (g_hasRecord g \<longrightarrow> list_all (later (g_intent g)) is) \<and> g' = after g H p is"
proof (induction "length bs" arbitrary: bs g p rule: less_induct)
  case less
  show ?case
  proof (cases "bs = []")
    case True
    then show ?thesis using less.prems by (intro exI [of _ "[]"]) (simp add: intents_ok_def after_def)
  next
    case False
    then obtain i rest where i: "bs = intent_record H p i @ rest" "intent_ok i" "g_hasRecord g \<longrightarrow> later (g_intent g) i"
       "replay_records H (recorded g (signing_digest H (intent_body p i)) i) (signing_digest H (intent_body p i)) rest = Inr g'"
      using replay_records_step [OF False, of H g p g'] less.prems by blast
    have "length rest < length bs" using i(1) by simp
    from less.hyps [OF this i(4)] obtain js where js: "rest = journal_records H (signing_digest H (intent_body p i)) js"
      "intents_ok js" "list_all (later i) js" "g' = after g H p (i # js)" by (auto simp: after_Cons)
    then show ?thesis
      using i(1-3) by (intro exI [of _ "i # js"]) (auto simp: intents_ok_def list_all_iff intro: later_trans)
  qed
qed

lemma replay_records_complete:
  "intents_ok is \<Longrightarrow> (g_hasRecord g \<longrightarrow> list_all (later (g_intent g)) is) \<Longrightarrow>
   replay_records H g p (journal_records H p is) = Inr (after g H p is)"
proof (induction "is" arbitrary: g p)
  case (Cons i "is")
  have ne: "journal_records H p (i # is) \<noteq> []" by (auto dest: arg_cong [of _ _ length])
  have "replay_records H (recorded g (signing_digest H (intent_body p i)) i) (signing_digest H (intent_body p i))
      (journal_records H (signing_digest H (intent_body p i)) is) = Inr (after g H p (i # is))"
    using Cons by (simp add: intents_ok_def after_Cons list_all_iff)
  then show ?case
    unfolding replay_records_step [OF ne] using Cons.prems
    by (intro exI [of _ i] exI [of _ "journal_records H (signing_digest H (intent_body p i)) is"]) (simp add: intents_ok_def)
qed (simp add: after_def)

definition journal_bytes :: "hashfun \<Rightarrow> networkid \<Rightarrow> validatorid \<Rightarrow> intent list \<Rightarrow> byte list" where
  "journal_bytes H nw vl is = journal_header nw vl @ journal_records H 0 is"

lemma length_journal_header [simp]: "length (journal_header nw vl) = 69"
  by (simp add: journal_header_def)

lemma from_be_32: "length bs = 32 \<Longrightarrow> (from_be bs :: bytes32) = x \<longleftrightarrow> bs = w_Fixed32 x"
  using be_bytes_from_be [of bs, where 'a = 256] by (auto simp: w_Fixed32_def from_be_be_bytes_full)

lemma header_check:
  assumes "length hdr = 69"
  shows "take 4 hdr = str ''ZSG2'' \<and> hdr ! 4 = 1 \<and> (from_be (take 32 (drop 5 hdr)) :: bytes32) = nw \<and>
      (from_be (take 32 (drop 37 hdr)) :: bytes32) = vl \<longleftrightarrow> hdr = journal_header nw vl"
proof
  assume a: "take 4 hdr = str ''ZSG2'' \<and> hdr ! 4 = 1 \<and> (from_be (take 32 (drop 5 hdr)) :: bytes32) = nw \<and>
      (from_be (take 32 (drop 37 hdr)) :: bytes32) = vl"
  then have "take 32 (drop 5 hdr) = w_Fixed32 nw" "take 32 (drop 37 hdr) = w_Fixed32 vl"
    using assms by (simp_all add: from_be_32)
  moreover have "hdr = take 4 hdr @ [hdr ! 4] @ take 32 (drop 5 hdr) @ take 32 (drop 37 hdr)"
  proof -
    have "drop 4 hdr = hdr ! 4 # drop 5 hdr" using assms Cons_nth_drop_Suc [of 4 hdr] by simp
    moreover have "drop 5 hdr = take 32 (drop 5 hdr) @ drop 37 hdr"
      using append_take_drop_id [of 32 "drop 5 hdr"] by simp
    moreover have "drop 37 hdr = take 32 (drop 37 hdr)" using assms by simp
    ultimately show ?thesis by (metis append_take_drop_id append_Cons append_Nil)
  qed
  ultimately show "hdr = journal_header nw vl" using a by (simp add: journal_header_def w_U8_def)
next
  assume "hdr = journal_header nw vl"
  then show "take 4 hdr = str ''ZSG2'' \<and> hdr ! 4 = 1 \<and> (from_be (take 32 (drop 5 hdr)) :: bytes32) = nw \<and>
      (from_be (take 32 (drop 37 hdr)) :: bytes32) = vl"
    by (simp add: from_be_32) (simp add: journal_header_def w_U8_def nth_append)
qed

lemma new_guard_sel [simp]:
  "g_network (new_guard nw vl) = nw" "g_validator (new_guard nw vl) = vl" "\<not> g_hasRecord (new_guard nw vl)"
  "\<not> g_closed (new_guard nw vl)" "\<not> g_poisoned (new_guard nw vl)" "g_lastRecordHash (new_guard nw vl) = 0"
  by (simp_all add: new_guard_def)

lemma guard_replay_iff:
  "guard_replay H (new_guard nw vl) bs = Inr g \<longleftrightarrow>
     (\<exists>is. bs = journal_bytes H nw vl is \<and> intents_ok is \<and> g = after (new_guard nw vl) H 0 is)"
proof (cases "length bs < 69")
  case True
  then show ?thesis by (auto simp: guard_replay_def signingJournalHeaderBytes_def journal_bytes_def)
next
  case False
  then have l: "length (take 69 bs) = 69" by simp
  have "guard_replay H (new_guard nw vl) bs = Inr g \<longleftrightarrow>
      take 69 bs = journal_header nw vl \<and> replay_records H (new_guard nw vl) 0 (drop 69 bs) = Inr g"
    using False header_check [OF l, of nw vl] by (auto simp: guard_replay_def signingJournalHeaderBytes_def Let_def)
  also have "replay_records H (new_guard nw vl) 0 (drop 69 bs) = Inr g \<longleftrightarrow>
      (\<exists>is. drop 69 bs = journal_records H 0 is \<and> intents_ok is \<and> g = after (new_guard nw vl) H 0 is)"
    using replay_records_sound [of H "new_guard nw vl" 0 "drop 69 bs" g] replay_records_complete [of _ "new_guard nw vl" H 0]
    by auto
  also have "take 69 bs = journal_header nw vl \<and>
      (\<exists>is. drop 69 bs = journal_records H 0 is \<and> intents_ok is \<and> g = after (new_guard nw vl) H 0 is) \<longleftrightarrow>
      (\<exists>is. bs = journal_bytes H nw vl is \<and> intents_ok is \<and> g = after (new_guard nw vl) H 0 is)"
    by (auto simp: journal_bytes_def) (metis append_take_drop_id)
  finally show ?thesis .
qed


subsection \<open>The invariant of the system\<close>

definition usable :: "Guard \<Rightarrow> bool" where
  "usable g \<longleftrightarrow> \<not> g_closed g \<and> \<not> g_poisoned g"

text \<open>
  The journal starts with the records of the intents \<open>is\<close>, which contain everything authorized; with power
  losses they are on stable storage. A guard that still accepts requests agrees with the whole journal.
\<close>

definition records_ok :: "hashfun \<Rightarrow> networkid \<Rightarrow> validatorid \<Rightarrow> bool \<Rightarrow> System \<Rightarrow> Journal \<Rightarrow> intent list \<Rightarrow> byte list \<Rightarrow> bool" where
  "records_ok H nw vl loss s j is tail \<longleftrightarrow>
     jr_bytes j = journal_bytes H nw vl is @ tail \<and> intents_ok is \<and> set (sy_authorized s) \<subseteq> set is \<and>
     (loss \<longrightarrow> length (journal_bytes H nw vl is) \<le> jr_synced j) \<and>
     (\<forall>g. sy_guard s = Some g \<longrightarrow> usable g \<longrightarrow> tail = [] \<and> g = after (new_guard nw vl) H 0 is)"

definition system_ok :: "hashfun \<Rightarrow> networkid \<Rightarrow> validatorid \<Rightarrow> bool \<Rightarrow> System \<Rightarrow> bool" where
  "system_ok H nw vl loss s \<longleftrightarrow>
     sy_guard s = None \<and> sy_authorized s = [] \<or>
     (\<exists>j is tail. sy_file s = Some j \<and> records_ok H nw vl loss s j is tail)"

lemma journal_records_snoc:
  "journal_records H p (is @ [i]) = journal_records H p is @ intent_record H (last_digest H p is) i"
  by (induction "is" arbitrary: p) simp_all

lemma last_digest_snoc:
  "last_digest H p (is @ [i]) = signing_digest H (intent_body (last_digest H p is) i)"
  by (induction "is" arbitrary: p) simp_all

lemma journal_bytes_snoc:
  "journal_bytes H nw vl (is @ [i]) = journal_bytes H nw vl is @ intent_record H (last_digest H 0 is) i"
  by (simp add: journal_bytes_def journal_records_snoc)

lemma after_snoc:
  "after g H p (is @ [i]) = recorded (after g H p is) (signing_digest H (intent_body (last_digest H p is) i)) i"
  by (auto simp: after_def recorded_def last_digest_snoc split: prod.splits)

lemma after_new [simp]:
  "g_network (after (new_guard nw vl) H 0 is) = nw" "g_validator (after (new_guard nw vl) H 0 is) = vl"
  "g_closed (after (new_guard nw vl) H 0 is) = False" "g_poisoned (after (new_guard nw vl) H 0 is) = False"
  "g_lastRecordHash (after (new_guard nw vl) H 0 is) = last_digest H 0 is"
  "g_hasRecord (after (new_guard nw vl) H 0 is) \<longleftrightarrow> is \<noteq> []"
  by (auto simp: after_def split: prod.splits)

lemma g_intent_after [simp]: "is \<noteq> [] \<Longrightarrow> g_intent (after g H p is) = last is"
  by (auto simp: after_def g_intent_def split: prod.splits)

lemma intents_ok_snoc:
  "intents_ok (is @ [i]) \<longleftrightarrow> intents_ok is \<and> intent_ok i \<and> (is \<noteq> [] \<longrightarrow> later (last is) i)"
proof -
  have "later (last is) i \<Longrightarrow> sorted_wrt later is \<Longrightarrow> x \<in> set is \<Longrightarrow> later x i" for x
    by (cases "is" rule: rev_cases) (auto simp: sorted_wrt_append intro: later_trans)
  then show ?thesis by (auto simp: intents_ok_def sorted_wrt_append)
qed

lemma intents_ok_unique:
  "intents_ok is \<Longrightarrow> (h, r, t) \<in> set is \<Longrightarrow> (h, r, t') \<in> set is \<Longrightarrow> t = t'"
proof (induction "is" rule: rev_induct)
  case (snoc i "is")
  have "x \<in> set is \<Longrightarrow> later x i" for x
    using snoc.prems(1) by (simp add: intents_ok_def sorted_wrt_append)
  from this [of "(h, r, t)"] this [of "(h, r, t')"] snoc show ?case
    by (cases i) (auto simp: later_def intents_ok_snoc)
qed simp

text \<open>The three outcomes of a request to a guard that agrees with its journal.\<close>

lemma Authorize_cases:
  assumes g: "g = after (new_guard nw vl) H 0 is"
    and a: "Authorize H network validator h r t io g j = (res, g', j')"
  obtains (unchanged) "g' = g" "j' = j" "is_ok res \<Longrightarrow> (h, r, t) \<in> set is"
  | (poisoned) n where "\<not> is_ok res" "\<not> usable g'" "j' = j\<lparr>jr_bytes := jr_bytes j @ take n (intent_record H (last_digest H 0 is) (h, r, t))\<rparr>"
  | (appended) "is_ok res" "g' = after (new_guard nw vl) H 0 (is @ [(h, r, t)])" "intent_ok (h, r, t)"
      "is \<noteq> [] \<Longrightarrow> later (last is) (h, r, t)"
      "j' = \<lparr>jr_bytes = jr_bytes j @ intent_record H (last_digest H 0 is) (h, r, t),
             jr_synced = length (jr_bytes j @ intent_record H (last_digest H 0 is) (h, r, t))\<rparr>"
proof -
  let ?rec = "intent_record H (last_digest H 0 is) (h, r, t)"
  have enc: "w_U64 h @ w_U64 r @ w_Fixed32 t @ w_Fixed32 (g_lastRecordHash g) = intent_body (last_digest H 0 is) (h, r, t)"
    by (simp add: g intent_body_def)
  have intent: "is \<noteq> [] \<Longrightarrow> last is = (g_height g, g_round g, g_target g)"
    using g_intent_after [of "is" "new_guard nw vl" H 0] by (simp add: g g_intent_def)
  let ?append = "let (ok, j') = file_append ?rec io j
             in if \<not> ok then (Inl ErrSigningJournal, g\<lparr>g_poisoned := True\<rparr>, j')
                else (Inr (), recorded g (signing_digest H (intent_body (last_digest H 0 is) (h, r, t))) (h, r, t), j')"
  consider (refused) "g' = g" "j' = j" "\<not> is_ok res" | (repeated) "g' = g" "j' = j" "is \<noteq> []" "last is = (h, r, t)"
    | (new) "intent_ok (h, r, t)" "is \<noteq> [] \<longrightarrow> later (last is) (h, r, t)" "(res, g', j') = ?append"
  proof -
    have len: "length (intent_body (last_digest H 0 is) (h, r, t) @ w_Fixed32 d) = signingJournalRecordBytes" for d
      by (simp add: signingJournalRecordBytes_def)
    have up: "g\<lparr>g_height := h, g_round := r, g_target := t, g_lastRecordHash := d, g_hasRecord := True\<rparr> = recorded g d (h, r, t)" for d
      by (simp add: recorded_def)
    have "Authorize H network validator h r t io g j =
       (if network \<noteq> nw \<or> validator \<noteq> vl \<or> \<not> intent_ok (h, r, t) then (Inl ErrSigningGuard, g, j)
        else if is \<noteq> [] \<and> (h < g_height g \<or> (h = g_height g \<and> r < g_round g)) then (Inl ErrSigningConflict, g, j)
        else if is \<noteq> [] \<and> h = g_height g \<and> r = g_round g
        then (if t \<noteq> g_target g then (Inl ErrSigningConflict, g, j) else (Inr (), g, j))
        else ?append)"
      unfolding Authorize_def Let_def enc intent_record_def len up by (auto simp: g intent_ok_def IsZero32_def)
    with a show thesis
      using refused repeated new intent by (auto simp: later_def not_less order.order_iff_strict split: if_splits)
  qed
  then show thesis
  proof cases
    case refused
    then show thesis using unchanged by blast
  next
    case repeated
    then show thesis using unchanged last_in_set by metis
  next
    case new
    then show thesis
    proof (cases io)
      case IoOk
      then show thesis using new g by (intro appended) (auto simp: file_append_def after_snoc)
    next
      case (IoWriteFails n)
      then show thesis using new by (intro poisoned [of n]) (auto simp: file_append_def usable_def)
    next
      case IoSyncFails
      then show thesis using new by (intro poisoned [of 112]) (auto simp: file_append_def usable_def)
    qed
  qed
qed


lemma OpenDurableSigningGuard_cases:
  assumes "OpenDurableSigningGuard H nw vl lock io f = (res, f')"
  obtains (existing) j where "f = Some j" "f' = Some j" "\<And>g. res = Inr g \<Longrightarrow> guard_replay H (new_guard nw vl) (jr_bytes j) = Inr g"
  | (absent) "f = None" "f' = None" "\<not> is_ok res"
  | (partial) j where "f = None" "f' = Some j" "\<not> is_ok res"
  | (created) "f = None" "res = guard_replay H (new_guard nw vl) (journal_header nw vl)"
      "f' = Some \<lparr>jr_bytes = journal_header nw vl, jr_synced = length (journal_header nw vl)\<rparr>"
  using assms
  by (cases f) (auto simp: OpenDurableSigningGuard_def file_append_def Let_def split: if_splits option.splits io_outcome.splits)

lemma system_okI: "sy_file s = Some j \<Longrightarrow> records_ok H nw vl loss s j is tail \<Longrightarrow> system_ok H nw vl loss s"
  by (auto simp: system_ok_def)

lemma system_ok_close:
  assumes "system_ok H nw vl loss s" "\<And>g. x = Some g \<Longrightarrow> \<not> usable g \<and> sy_guard s \<noteq> None"
  shows "system_ok H nw vl loss (s\<lparr>sy_guard := x\<rparr>)"
proof (cases "sy_guard s = None \<and> sy_authorized s = []")
  case True
  then show ?thesis using assms(2) by (cases x) (auto simp: system_ok_def)
next
  case False
  then obtain j "is" tail where j: "sy_file s = Some j" "records_ok H nw vl loss s j is tail"
    using assms(1) unfolding system_ok_def by blast
  then have "records_ok H nw vl loss (s\<lparr>sy_guard := x\<rparr>) j is tail" using assms(2) by (simp add: records_ok_def)
  then show ?thesis using j(1) by (intro system_okI) simp_all
qed

lemma system_ok_open:
  assumes ok: "system_ok H nw vl loss s" and none: "sy_guard s = None"
    and sync: "loss \<Longrightarrow> \<forall>j. sy_file s = Some j \<longrightarrow> jr_synced j = length (jr_bytes j)"
    and op: "OpenDurableSigningGuard H nw vl lock io (sy_file s) = (Inr g, f)"
  shows "system_ok H nw vl loss (s\<lparr>sy_file := f, sy_guard := Some g\<rparr>)"
  using op
proof (cases rule: OpenDurableSigningGuard_cases)
  case (existing j)
  obtain is2 where is2: "jr_bytes j = journal_bytes H nw vl is2" "intents_ok is2" "g = after (new_guard nw vl) H 0 is2"
    using existing(3) [OF refl] unfolding guard_replay_iff by blast
  have "set (sy_authorized s) \<subseteq> set is2"
  proof (cases "sy_authorized s = []")
    case False
    then obtain "is" tail where r: "records_ok H nw vl loss s j is tail"
      using ok existing(1) by (auto simp: system_ok_def)
    then have "journal_records H 0 is @ tail = journal_records H 0 is2"
      using is2(1) by (simp add: records_ok_def journal_bytes_def)
    then obtain js where "is2 = is @ js" using journal_records_prefix by blast
    then show ?thesis using r by (simp add: records_ok_def le_supI1)
  qed simp
  moreover have "loss \<Longrightarrow> jr_synced j = length (jr_bytes j)" using sync existing(1) by simp
  ultimately have "records_ok H nw vl loss (s\<lparr>sy_file := f, sy_guard := Some g\<rparr>) j is2 []"
    using is2 by (auto simp: records_ok_def)
  then show ?thesis using existing(2) by (intro system_okI) simp_all
next
  case created
  have "guard_replay H (new_guard nw vl) (journal_header nw vl) = Inr g" using created by simp
  then obtain is2 where is2: "journal_header nw vl = journal_bytes H nw vl is2" "intents_ok is2" "g = after (new_guard nw vl) H 0 is2"
    unfolding guard_replay_iff by blast
  have "sy_authorized s = []" using ok created by (auto simp: system_ok_def)
  then have "records_ok H nw vl loss (s\<lparr>sy_file := f, sy_guard := Some g\<rparr>)
      \<lparr>jr_bytes = journal_header nw vl, jr_synced = length (journal_header nw vl)\<rparr> is2 []"
    using is2(2,3) by (simp add: records_ok_def is2(1) [symmetric])
  then show ?thesis using created by (intro system_okI) simp_all
qed simp_all

lemma system_ok_authorize:
  assumes ok: "system_ok H nw vl loss s" and g: "sy_guard s = Some g" and j: "sy_file s = Some j"
    and a: "Authorize H network validator h r t io g j = (res, g', j')"
  shows "system_ok H nw vl loss (s\<lparr>sy_file := Some j', sy_guard := Some g',
          sy_authorized := (if is_ok res then [(h, r, t)] else []) @ sy_authorized s\<rparr>)" (is "system_ok _ _ _ _ ?s'")
proof -
  obtain "is" tail where ro: "records_ok H nw vl loss s j is tail" using ok g j by (auto simp: system_ok_def)
  show ?thesis
  proof (cases "usable g")
    case False
    then have "res = Inl ErrSigningGuard" "g' = g" "j' = j" using a by (auto simp: Authorize_def usable_def)
    then have "records_ok H nw vl loss ?s' j' is tail" using ro False by (simp add: records_ok_def)
    then show ?thesis by (intro system_okI) simp_all
  next
    case True
    then have t: "tail = []" and ga: "g = after (new_guard nw vl) H 0 is" using ro g by (simp_all add: records_ok_def)
    let ?i = "(h, r, t)"
    from ga a have "\<exists>is' tail'. records_ok H nw vl loss ?s' j' is' tail'"
    proof (cases rule: Authorize_cases)
      case unchanged
      then show ?thesis using ro t ga by (intro exI [of _ "is"] exI [of _ "[]"]) (auto simp: records_ok_def)
    next
      case (poisoned n)
      then show ?thesis using ro t
        by (intro exI [of _ "is"] exI [of _ "take n (intent_record H (last_digest H 0 is) ?i)"]) (auto simp: records_ok_def)
    next
      case appended
      then show ?thesis using ro t
        by (intro exI [of _ "is @ [?i]"] exI [of _ "[]"]) (auto simp: records_ok_def journal_bytes_snoc intents_ok_snoc)
    qed
    then obtain is' tail' where "records_ok H nw vl loss ?s' j' is' tail'" by blast
    then show ?thesis by (intro system_okI) simp_all
  qed
qed

lemma system_ok_power_loss:
  assumes "system_ok H nw vl loss s" "loss" "sy_file s = Some j" "jr_synced j \<le> n"
  shows "system_ok H nw vl loss (s\<lparr>sy_guard := None, sy_file := Some \<lparr>jr_bytes = take n (jr_bytes j), jr_synced = jr_synced j\<rparr>\<rparr>)"
proof (cases "sy_authorized s = []")
  case False
  then obtain "is" tail where ro: "records_ok H nw vl loss s j is tail" using assms by (auto simp: system_ok_def)
  then have "length (journal_bytes H nw vl is) \<le> n" using assms by (simp add: records_ok_def)
  then have "take n (jr_bytes j) = journal_bytes H nw vl is @ take (n - length (journal_bytes H nw vl is)) tail"
    using ro by (simp add: records_ok_def)
  then show ?thesis using ro by (auto simp: system_ok_def records_ok_def)
qed (simp add: system_ok_def)

lemma system_ok_step:
  assumes "guard_step H nw vl loss resync s s'" "system_ok H nw vl loss s" "\<not> loss \<or> resync"
  shows "system_ok H nw vl loss s'"
  using assms(1)
proof cases
  case (open_ok lock io g f)
  then show ?thesis using system_ok_open assms(2,3) by blast
next
  case (open_error lock io e f)
  from open_error(3) show ?thesis
  proof (cases rule: OpenDurableSigningGuard_cases)
    case (existing j)
    then have "s' = s" using open_error(1) by simp
    then show ?thesis using assms(2) by simp
  qed (use assms(2) open_error(1,2) in \<open>simp_all add: system_ok_def\<close>)
next
  case authorize
  then show ?thesis using system_ok_authorize assms(2) by blast
next
  case (close g)
  have "\<not> usable (guard_Close g)" by (simp add: usable_def guard_Close_def)
  then show ?thesis unfolding close(1) using assms(2) close(2) by (intro system_ok_close) simp_all
next
  case crash
  show ?thesis unfolding crash using assms(2) by (rule system_ok_close) simp
next
  case power_loss
  then show ?thesis using system_ok_power_loss assms(2) by blast
next
  case (power_loss_new j)
  have "sy_authorized s = []"
    using assms(2) power_loss_new by (auto simp: system_ok_def records_ok_def journal_bytes_def)
  then show ?thesis using power_loss_new by (simp add: system_ok_def)
qed

lemma system_ok_reach:
  assumes "guard_reach H nw vl loss resync s" "\<not> loss \<or> resync"
  shows "system_ok H nw vl loss s"
  using assms
proof induction
  case start
  then show ?case by (simp add: system_ok_def initial_system_def)
next
  case (step s s')
  then show ?case using system_ok_step by blast
qed


subsection \<open>Runs\<close>

lemma open_journal:
  assumes "nw \<noteq> 0" "vl \<noteq> 0" "jr_bytes j = journal_bytes H nw vl is" "intents_ok is"
  shows "OpenDurableSigningGuard H nw vl None io (Some j) = (Inr (after (new_guard nw vl) H 0 is), Some j)"
proof -
  have "guard_replay H (new_guard nw vl) (jr_bytes j) = Inr (after (new_guard nw vl) H 0 is)"
    unfolding guard_replay_iff using assms by blast
  then show ?thesis using assms(1,2) by (simp add: OpenDurableSigningGuard_def IsZero32_def Let_def)
qed

lemma open_new_journal:
  assumes "nw \<noteq> 0" "vl \<noteq> 0"
  shows "OpenDurableSigningGuard H nw vl None IoOk None =
    (Inr (after (new_guard nw vl) H 0 []), Some \<lparr>jr_bytes = journal_bytes H nw vl [], jr_synced = length (journal_bytes H nw vl [])\<rparr>)"
proof -
  have "guard_replay H (new_guard nw vl) (journal_header nw vl) = Inr (after (new_guard nw vl) H 0 [])"
    unfolding guard_replay_iff by (intro exI [of _ "[]"]) (simp add: journal_bytes_def intents_ok_def)
  then show ?thesis using assms by (simp add: OpenDurableSigningGuard_def IsZero32_def Let_def file_append_def journal_bytes_def)
qed

lemma authorize_first:
  assumes "intent_ok (h, r, t)"
  shows "Authorize H nw vl h r t io (after (new_guard nw vl) H 0 []) j =
    (let (ok, j') = file_append (intent_record H 0 (h, r, t)) io j
     in if ok then (Inr (), after (new_guard nw vl) H 0 [(h, r, t)], j')
        else (Inl ErrSigningJournal, (new_guard nw vl)\<lparr>g_poisoned := True\<rparr>, j'))"
  using assms by (auto simp: Authorize_def Let_def after_def new_guard_def IsZero32_def intent_ok_def intent_record_def intent_body_def
      signingJournalRecordBytes_def split: prod.splits)

lemma authorize_again:
  "intent_ok (h, r, t) \<Longrightarrow> Authorize H nw vl h r t io (after (new_guard nw vl) H 0 [(h, r, t)]) j =
    (Inr (), after (new_guard nw vl) H 0 [(h, r, t)], j)"
  by (simp add: Authorize_def after_def new_guard_def IsZero32_def intent_ok_def)

lemma reach_create:
  assumes "nw \<noteq> 0" "vl \<noteq> 0"
  shows "guard_reach H nw vl loss resync \<lparr>sy_file = Some \<lparr>jr_bytes = journal_bytes H nw vl [], jr_synced = length (journal_bytes H nw vl [])\<rparr>,
     sy_guard = Some (after (new_guard nw vl) H 0 []), sy_authorized = []\<rparr>"
proof -
  let ?j = "\<lparr>jr_bytes = journal_bytes H nw vl [], jr_synced = length (journal_bytes H nw vl [])\<rparr>"
  have "guard_step H nw vl loss resync initial_system
      (initial_system\<lparr>sy_file := Some ?j, sy_guard := Some (after (new_guard nw vl) H 0 [])\<rparr>)"
    by (rule guard_step.open_ok [where lock = None and io = IoOk]) (use assms open_new_journal in \<open>simp_all add: initial_system_def\<close>)
  then show ?thesis using guard_reach.step [OF guard_reach.start] by (simp add: initial_system_def)
qed

lemma reach_reopen:
  assumes "guard_reach H nw vl loss resync \<lparr>sy_file = Some j, sy_guard = None, sy_authorized = a\<rparr>"
    and "nw \<noteq> 0" "vl \<noteq> 0" "jr_bytes j = journal_bytes H nw vl is" "intents_ok is" "resync \<Longrightarrow> jr_synced j = length (jr_bytes j)"
  shows "guard_reach H nw vl loss resync
    \<lparr>sy_file = Some j, sy_guard = Some (after (new_guard nw vl) H 0 is), sy_authorized = a\<rparr>"
proof -
  let ?s = "\<lparr>sy_file = Some j, sy_guard = None, sy_authorized = a\<rparr>"
  have "guard_step H nw vl loss resync ?s (?s\<lparr>sy_file := Some j, sy_guard := Some (after (new_guard nw vl) H 0 is)\<rparr>)"
    by (rule guard_step.open_ok [where lock = None and io = IoOk]) (use assms open_journal in simp_all)
  then show ?thesis using guard_reach.step [OF assms(1)] by simp
qed

lemma reach_authorize:
  assumes "guard_reach H nw vl loss resync \<lparr>sy_file = Some j, sy_guard = Some g, sy_authorized = a\<rparr>"
    and "Authorize H nw vl h r t io g j = (res, g', j')"
  shows "guard_reach H nw vl loss resync
    \<lparr>sy_file = Some j', sy_guard = Some g', sy_authorized = (if is_ok res then [(h, r, t)] else []) @ a\<rparr>"
  using guard_reach.step [OF assms(1) guard_step.authorize [OF _ _ assms(2)]] by simp

lemma reach_power_loss:
  assumes "guard_reach H nw vl True resync \<lparr>sy_file = Some j, sy_guard = g, sy_authorized = a\<rparr>" "jr_synced j \<le> n"
  shows "guard_reach H nw vl True resync
    \<lparr>sy_file = Some \<lparr>jr_bytes = take n (jr_bytes j), jr_synced = jr_synced j\<rparr>, sy_guard = None, sy_authorized = a\<rparr>"
  using guard_reach.step [OF assms(1) guard_step.power_loss [OF _ _ assms(2)]] by simp

lemma reach_crash:
  assumes "guard_reach H nw vl loss resync \<lparr>sy_file = f, sy_guard = g, sy_authorized = a\<rparr>"
  shows "guard_reach H nw vl loss resync \<lparr>sy_file = f, sy_guard = None, sy_authorized = a\<rparr>"
  using guard_reach.step [OF assms guard_step.crash] by simp

lemma reach_one:
  assumes "nw \<noteq> 0" "vl \<noteq> 0" "intent_ok (h, r, t)"
  shows "guard_reach H nw vl loss resync
    \<lparr>sy_file = Some \<lparr>jr_bytes = journal_bytes H nw vl [(h, r, t)], jr_synced = length (journal_bytes H nw vl [(h, r, t)])\<rparr>,
     sy_guard = Some (after (new_guard nw vl) H 0 [(h, r, t)]), sy_authorized = [(h, r, t)]\<rparr>"
  using reach_authorize [OF reach_create [OF assms(1,2)] authorize_first [OF assms(3), of H nw vl IoOk, unfolded file_append_def, simplified]]
    journal_bytes_snoc [of H nw vl "[]" "(h, r, t)"]
  by simp

subsection \<open>The guard as a whole\<close>

text \<open>
  C16. No double signing. Whatever sequence of opens, requests, failed writes, failed syncs and crashes a
  validator's journal goes through, the guard never authorizes two different headers for one height and round. Losses of
  power are covered too, for journals that are on stable storage whenever they are opened.
\<close>

theorem no_double_sign:
  assumes "guard_reach H nw vl loss resync s" "\<not> loss \<or> resync"
    and "(h, r, t) \<in> set (sy_authorized s)" "(h, r, t') \<in> set (sy_authorized s)"
  shows "t = t'"
proof -
  obtain j "is" tail where "records_ok H nw vl loss s j is tail"
    using system_ok_reach [OF assms(1,2)] assms(3) by (auto simp: system_ok_def)
  then show ?thesis using assms(3,4) intents_ok_unique by (fastforce simp: records_ok_def)
qed

theorem no_double_sign_witness:
  "\<exists>s. guard_reach toy_hash 1 1 True True s \<and> (5, 2, 7) \<in> set (sy_authorized s) \<and>
     (\<forall>t. (5, 2, t) \<in> set (sy_authorized s) \<longrightarrow> 7 = t)"
proof -
  have "intent_ok (5, 2, 7)" by (simp add: intent_ok_def)
  from reach_one [OF _ _ this, of 1 1 toy_hash True True] obtain s where
    s: "guard_reach toy_hash 1 1 True True s" "(5, 2, 7) \<in> set (sy_authorized s)" by fastforce
  then show ?thesis using no_double_sign [OF s(1) _ s(2)] by blast
qed

text \<open>
  C26. Restarts lose nothing. While a guard accepts requests, closing it and opening its journal again gives a
  guard with exactly the same state: the last height, round, header and record digest.
\<close>

theorem guard_restart:
  assumes "guard_reach H nw vl loss resync s" "\<not> loss \<or> resync" "nw \<noteq> 0" "vl \<noteq> 0"
    and "sy_guard s = Some g" "guard_Matches nw vl (Some g)" "sy_file s = Some j"
  shows "OpenDurableSigningGuard H nw vl None io (Some j) = (Inr g, Some j)"
proof -
  have u: "usable g" using assms(6) by (simp add: guard_Matches_def usable_def)
  obtain "is" tail where r: "records_ok H nw vl loss s j is tail"
    using system_ok_reach [OF assms(1,2)] assms(5,7) by (auto simp: system_ok_def)
  then have "jr_bytes j = journal_bytes H nw vl is" "intents_ok is" "g = after (new_guard nw vl) H 0 is"
    using u assms(5) by (auto simp: records_ok_def)
  then show ?thesis using open_journal assms(3,4) by blast
qed

theorem guard_restart_witness:
  "\<exists>s g j. guard_reach toy_hash 1 1 False False s \<and> sy_guard s = Some g \<and> g_height g = 5 \<and> sy_file s = Some j \<and>
     OpenDurableSigningGuard toy_hash 1 1 None IoOk (Some j) = (Inr g, Some j)"
proof -
  let ?g = "after (new_guard 1 1) toy_hash 0 [(5, 2, 7)]"
  have "intent_ok (5, 2, 7)" by (simp add: intent_ok_def)
  from reach_one [OF _ _ this, of 1 1 toy_hash False False] obtain s j where
    s: "guard_reach toy_hash 1 1 False False s" "sy_guard s = Some ?g" "sy_file s = Some j" by fastforce
  moreover have "guard_Matches 1 1 (Some ?g)" "g_height ?g = 5" by (simp_all add: guard_Matches_def after_def)
  ultimately show ?thesis using guard_restart [OF s(1) _ _ _ s(2) _ s(3), of IoOk] by auto
qed

text \<open>
  C27. The journal is not synced when it is opened, and a repeated request is not written again. So a record
  left behind by a crash between its write and its sync is replayed, authorizes its header with no sync at all, and is
  dropped by a loss of power: the guard then authorizes another header for the same height and round.
\<close>

theorem power_loss_double_sign:
  assumes "nw \<noteq> 0" "vl \<noteq> 0"
  shows "\<exists>s. guard_reach H nw vl True False s \<and> (5, 2, 7) \<in> set (sy_authorized s) \<and> (5, 2, 8) \<in> set (sy_authorized s)"
proof -
  let ?i = "(5, 2, 7) :: intent" and ?i' = "(5, 2, 8) :: intent"
  have ok: "intent_ok ?i" "intent_ok ?i'" "intents_ok [?i]" "intents_ok []" by (simp_all add: intent_ok_def intents_ok_def)
  let ?j = "\<lparr>jr_bytes = journal_bytes H nw vl [?i], jr_synced = length (journal_bytes H nw vl [])\<rparr>"
  have rec: "journal_bytes H nw vl [?i] = journal_bytes H nw vl [] @ intent_record H 0 ?i"
    using journal_bytes_snoc [of H nw vl "[]" ?i] by simp
  note s2 = reach_authorize [OF reach_create [OF assms] authorize_first [OF ok(1), of H nw vl IoSyncFails, unfolded file_append_def, simplified]]
  have "guard_reach H nw vl True False \<lparr>sy_file = Some ?j, sy_guard = None, sy_authorized = []\<rparr>"
    using reach_crash [OF s2] by (simp add: rec)
  from reach_reopen [OF this assms _ ok(3)]
  have "guard_reach H nw vl True False \<lparr>sy_file = Some ?j, sy_guard = Some (after (new_guard nw vl) H 0 [?i]), sy_authorized = []\<rparr>" by simp
  from reach_power_loss [OF reach_authorize [OF this authorize_again [OF ok(1)]] order.refl]
  have "guard_reach H nw vl True False
    \<lparr>sy_file = Some \<lparr>jr_bytes = journal_bytes H nw vl [], jr_synced = length (journal_bytes H nw vl [])\<rparr>, sy_guard = None, sy_authorized = [?i]\<rparr>"
    by (simp add: rec)
  note s7 = reach_reopen [OF this assms _ ok(4)]
  show ?thesis
    using reach_authorize [OF s7 authorize_first [OF ok(2), of H nw vl IoOk, unfolded file_append_def, simplified]]
    by (fastforce simp: rec)
qed

theorem power_loss_double_sign_witness:
  "\<exists>s. guard_reach toy_hash 1 1 True False s \<and> (5, 2, 7) \<in> set (sy_authorized s) \<and> (5, 2, 8) \<in> set (sy_authorized s)"
  by (rule power_loss_double_sign) simp_all

end
