(* ===== verification/SparseMerkle.thy ===== *)
theory SparseMerkle
  imports Codec
begin

unbundle bit_operations_syntax

text \<open>
  The sparse Merkle tree of the state (\<open>internal/v2/state\<close>: \<open>smt.go\<close>, \<open>preview.go\<close>, \<open>clone.go\<close>).

  A key is a 256-bit word, read from its most significant bit. The byte and bit manipulation of the
  code (\<open>prefixAtDepth\<close>, \<open>bitAt\<close>, \<open>toggleBit\<close>, the proof bitmap) is kept as it is written, on
  the 32 bytes, and related to the bits of the word. A slice that may be nil is an option. The Go map
  of values only ever hands out copies, so it holds byte strings. The tree is a record of the three fields
  that the mutex guards; each operation is one atomic step. \<open>Apply\<close> and \<open>Preview\<close> range over a
  Go map, whose order is unspecified: the list of its keys in the order visited is an argument.

  The lemmas show that the stored nodes are exactly those of the tree of all 2 ^ 256 leaves
  (\<open>ideal\<close>), hence the root is a function of the contents alone; that \<open>Preview\<close> returns
  the root \<open>Apply\<close> would; and that proofs are complete and sound up to a hash collision.
\<close>

subsection \<open>Bits of keys and of proof bitmaps\<close>

definition prefixAtDepth :: "bytes32 \<Rightarrow> nat \<Rightarrow> bytes32" where
  "prefixAtDepth key depth =
     (if depth \<le> 0 then 0
      else if depth \<ge> 256 then key
      else
        let out = be_bytes 32 key; fullBytes = depth div 8; remainingBits = depth mod 8
        in if remainingBits = 0 then from_be (take fullBytes out @ replicate (32 - fullBytes) 0)
           else
             let mask = ucast (push_bit (8 - remainingBits) 0xFF :: u32) :: byte;
                 out' = out[fullBytes := out ! fullBytes AND mask]
             in from_be (take (fullBytes + 1) out' @ replicate (32 - (fullBytes + 1)) 0))"

definition bitAt :: "bytes32 \<Rightarrow> nat \<Rightarrow> byte" where
  "bitAt key bitIndex =
     (let byteIndex = bitIndex div 8; shift = 7 - bitIndex mod 8
      in drop_bit shift (be_bytes 32 key ! byteIndex) AND 1)"

definition toggleBit :: "bytes32 \<Rightarrow> nat \<Rightarrow> bytes32" where
  "toggleBit key bitIndex =
     (let bs = be_bytes 32 key; byteIndex = bitIndex div 8; shift = 7 - bitIndex mod 8
      in from_be (bs[byteIndex := bs ! byteIndex XOR push_bit shift 1]))"

definition setBitmapBit :: "bytes32 \<Rightarrow> nat \<Rightarrow> bytes32" where
  "setBitmapBit bitmap index =
     (let bs = be_bytes 32 bitmap; byteIndex = index div 8; shift = index mod 8
      in from_be (bs[byteIndex := bs ! byteIndex OR push_bit shift 1]))"

definition bitmapBit :: "bytes32 \<Rightarrow> nat \<Rightarrow> bool" where
  "bitmapBit bitmap index \<longleftrightarrow>
     (let byteIndex = index div 8; shift = index mod 8
      in be_bytes 32 bitmap ! byteIndex AND push_bit shift 1 \<noteq> 0)"

subsection \<open>The tree\<close>

type_synonym slice = "byte list option"
type_synonym nodeKey = "u16 \<times> bytes32"

abbreviation Depth :: nat where "Depth \<equiv> 256"

record SmtProof =
  smp_Exists :: bool
  smp_Bitmap :: bytes32
  smp_Siblings :: "hash list"

record Tree =
  tr_values :: "hash \<rightharpoonup> byte list"
  tr_nodes :: "nodeKey \<rightharpoonup> hash"
  tr_defaults :: "hash list"

definition leafHash :: "hashfun \<Rightarrow> hash \<Rightarrow> byte list \<Rightarrow> hash" where
  "leafHash H key v = DomainHash H ''zephyr/smt/leaf/v2'' (w_Fixed32 key @ w_Bytes v)"

definition branchHash :: "hashfun \<Rightarrow> hash \<Rightarrow> hash \<Rightarrow> hash" where
  "branchHash H left right = DomainHash H ''zephyr/smt/branch/v2'' (w_Fixed32 left @ w_Fixed32 right)"

definition emptyLeafHash :: "hashfun \<Rightarrow> hash" where
  "emptyLeafHash H = DomainHash H ''zephyr/smt/empty-leaf/v2'' []"

primrec fill_defaults :: "hashfun \<Rightarrow> nat \<Rightarrow> hash list \<Rightarrow> hash list" where
  "fill_defaults H 0 defaults = defaults"
| "fill_defaults H (Suc d) defaults = fill_defaults H d (branchHash H (hd defaults) (hd defaults) # defaults)"

definition defaultHashes :: "hashfun \<Rightarrow> hash list" where
  "defaultHashes H = fill_defaults H Depth [emptyLeafHash H]"

definition NewTree :: "hashfun \<Rightarrow> Tree" where
  "NewTree H = \<lparr>tr_values = Map.empty, tr_nodes = Map.empty, tr_defaults = defaultHashes H\<rparr>"

definition getNode :: "Tree \<Rightarrow> nat \<Rightarrow> bytes32 \<Rightarrow> hash" where
  "getNode t depth prefix =
     (case tr_nodes t (of_nat depth, prefixAtDepth prefix depth) of
        Some h \<Rightarrow> h
      | None \<Rightarrow> tr_defaults t ! depth)"

definition smt_Root :: "Tree \<Rightarrow> hash" where
  "smt_Root t = getNode t 0 0"

definition goCopy :: "byte list \<Rightarrow> slice" where
  "goCopy v = (if v = [] then None else Some v)"

definition slice_bytes :: "slice \<Rightarrow> byte list" where
  "slice_bytes v = (case v of None \<Rightarrow> [] | Some bs \<Rightarrow> bs)"

definition smt_Get :: "Tree \<Rightarrow> hash \<Rightarrow> slice \<times> bool" where
  "smt_Get t key =
     (case tr_values t key of
        None \<Rightarrow> (None, False)
      | Some v \<Rightarrow> (goCopy v, True))"

definition updatePath :: "hashfun \<Rightarrow> bytes32 \<Rightarrow> nat \<Rightarrow> Tree \<Rightarrow> Tree" where
  "updatePath H rawKey depth t =
     (let bt = bitAt rawKey depth;
          childPrefix = prefixAtDepth rawKey (depth + 1);
          siblingPrefix = toggleBit childPrefix depth;
          child = getNode t (depth + 1) childPrefix;
          sibling = getNode t (depth + 1) siblingPrefix;
          parent = (if bt = 0 then branchHash H child sibling else branchHash H sibling child);
          parentKey = (of_nat depth, prefixAtDepth rawKey depth)
      in if parent = tr_defaults t ! depth then t\<lparr>tr_nodes := (tr_nodes t)(parentKey := None)\<rparr>
         else t\<lparr>tr_nodes := (tr_nodes t)(parentKey \<mapsto> parent)\<rparr>)"

primrec updatePaths :: "hashfun \<Rightarrow> bytes32 \<Rightarrow> nat \<Rightarrow> Tree \<Rightarrow> Tree" where
  "updatePaths H rawKey 0 t = t"
| "updatePaths H rawKey (Suc depth) t = updatePaths H rawKey depth (updatePath H rawKey depth t)"

definition updateLeaf :: "hashfun \<Rightarrow> hash \<Rightarrow> slice \<Rightarrow> Tree \<Rightarrow> Tree" where
  "updateLeaf H key val t =
     (let leafNode = (of_nat Depth, prefixAtDepth key Depth)
      in case val of
        None \<Rightarrow> t\<lparr>tr_values := (tr_values t)(key := None), tr_nodes := (tr_nodes t)(leafNode := None)\<rparr>
      | Some v \<Rightarrow> t\<lparr>tr_values := (tr_values t)(key \<mapsto> v), tr_nodes := (tr_nodes t)(leafNode \<mapsto> leafHash H key v)\<rparr>)"

definition updateLocked :: "hashfun \<Rightarrow> hash \<Rightarrow> slice \<Rightarrow> Tree \<Rightarrow> Tree" where
  "updateLocked H key val t = updatePaths H key Depth (updateLeaf H key val t)"

definition smt_Update :: "hashfun \<Rightarrow> hash \<Rightarrow> slice \<Rightarrow> Tree \<Rightarrow> Tree \<times> hash" where
  "smt_Update H key val t = (let t' = updateLocked H key val t in (t', getNode t' 0 0))"

type_synonym updates = "hash \<rightharpoonup> slice"

definition update_at :: "updates \<Rightarrow> hash \<Rightarrow> slice" where
  "update_at upd k = (case upd k of None \<Rightarrow> None | Some v \<Rightarrow> v)"

definition smt_Apply :: "hashfun \<Rightarrow> hash list \<Rightarrow> updates \<Rightarrow> Tree \<Rightarrow> Tree \<times> hash" where
  "smt_Apply H ks upd t =
     (let t' = foldl (\<lambda>t key. updateLocked H key (update_at upd key) t) t ks in (t', getNode t' 0 0))"

definition proveStep :: "Tree \<Rightarrow> bytes32 \<Rightarrow> SmtProof \<Rightarrow> nat \<Rightarrow> SmtProof" where
  "proveStep t rawKey prf i =
     (let depth = Depth - i;
          siblingPrefix = toggleBit (prefixAtDepth rawKey depth) (depth - 1);
          sibling = getNode t depth siblingPrefix
      in if sibling \<noteq> tr_defaults t ! depth
         then prf\<lparr>smp_Bitmap := setBitmapBit (smp_Bitmap prf) i, smp_Siblings := smp_Siblings prf @ [sibling]\<rparr>
         else prf)"

definition smt_Prove :: "Tree \<Rightarrow> hash \<Rightarrow> SmtProof" where
  "smt_Prove t key =
     foldl (proveStep t key)
       \<lparr>smp_Exists = (tr_values t key \<noteq> None), smp_Bitmap = 0, smp_Siblings = []\<rparr> [0..<Depth]"

primrec verifyLoop :: "hashfun \<Rightarrow> bytes32 \<Rightarrow> SmtProof \<Rightarrow> nat list \<Rightarrow> hash \<times> nat \<Rightarrow> (hash \<times> nat) option" where
  "verifyLoop H rawKey prf [] st = Some st"
| "verifyLoop H rawKey prf (i # is) st =
     (let current = fst st; siblingIndex = snd st; depth = Depth - i;
          combine = (\<lambda>sibling. if bitAt rawKey (depth - 1) = 0 then branchHash H current sibling
                              else branchHash H sibling current)
      in if bitmapBit (smp_Bitmap prf) i then
           if siblingIndex \<ge> length (smp_Siblings prf) then None
           else verifyLoop H rawKey prf is (combine (smp_Siblings prf ! siblingIndex), siblingIndex + 1)
         else verifyLoop H rawKey prf is (combine (defaultHashes H ! depth), siblingIndex))"

definition smt_Verify :: "hashfun \<Rightarrow> hash \<Rightarrow> hash \<Rightarrow> slice \<Rightarrow> SmtProof \<Rightarrow> bool" where
  "smt_Verify H root key val prf =
     (if smp_Exists prf \<noteq> (val \<noteq> None) then False
      else
        let current = (if smp_Exists prf then leafHash H key (slice_bytes val) else defaultHashes H ! Depth)
        in case verifyLoop H key prf [0..<Depth] (current, 0) of
             None \<Rightarrow> False
           | Some (cur, siblingIndex) \<Rightarrow> siblingIndex = length (smp_Siblings prf) \<and> cur = root)"

definition overlay_lookup :: "Tree \<Rightarrow> (nodeKey \<rightharpoonup> hash) \<Rightarrow> nat \<Rightarrow> bytes32 \<Rightarrow> hash" where
  "overlay_lookup t overlay depth prefix =
     (let key = (of_nat depth, prefixAtDepth prefix depth)
      in case overlay key of
           Some h \<Rightarrow> h
         | None \<Rightarrow> (case tr_nodes t key of Some h \<Rightarrow> h | None \<Rightarrow> tr_defaults t ! depth))"

primrec previewPath :: "hashfun \<Rightarrow> Tree \<Rightarrow> bytes32 \<Rightarrow> nat \<Rightarrow> (nodeKey \<rightharpoonup> hash) \<Rightarrow> (nodeKey \<rightharpoonup> hash)" where
  "previewPath H t rawKey 0 overlay = overlay"
| "previewPath H t rawKey (Suc depth) overlay =
     (let bt = bitAt rawKey depth;
          childPrefix = prefixAtDepth rawKey (depth + 1);
          siblingPrefix = toggleBit childPrefix depth;
          child = overlay_lookup t overlay (depth + 1) childPrefix;
          sibling = overlay_lookup t overlay (depth + 1) siblingPrefix;
          parentKey = (of_nat depth, prefixAtDepth rawKey depth)
      in previewPath H t rawKey depth
           (overlay(parentKey \<mapsto> (if bt = 0 then branchHash H child sibling else branchHash H sibling child))))"

definition previewKey :: "hashfun \<Rightarrow> Tree \<Rightarrow> updates \<Rightarrow> (nodeKey \<rightharpoonup> hash) \<Rightarrow> hash \<Rightarrow> (nodeKey \<rightharpoonup> hash)" where
  "previewKey H t upd overlay key =
     previewPath H t key Depth
       (overlay((of_nat Depth, key) \<mapsto>
          (case update_at upd key of None \<Rightarrow> tr_defaults t ! Depth | Some v \<Rightarrow> leafHash H key v)))"

definition smt_Preview :: "hashfun \<Rightarrow> hash list \<Rightarrow> updates \<Rightarrow> Tree \<Rightarrow> hash" where
  "smt_Preview H ks upd t =
     (if ks = [] then getNode t 0 0
      else
        let overlay = foldl (previewKey H t upd) Map.empty (sort ks)
        in case overlay (0, 0) of Some root \<Rightarrow> root | None \<Rightarrow> getNode t 0 0)"

definition smt_Clone :: "Tree \<Rightarrow> Tree" where
  "smt_Clone t = \<lparr>tr_values = tr_values t, tr_nodes = tr_nodes t, tr_defaults = tr_defaults t\<rparr>"

definition MarshalSmtProof :: "SmtProof \<Rightarrow> byte list" where
  "MarshalSmtProof p =
     w_Bool (smp_Exists p) @ w_Fixed32 (smp_Bitmap p) @ w_U16 (of_nat (length (smp_Siblings p))) @
     concat (map w_Fixed32 (smp_Siblings p))"

definition ParseSmtProof :: "byte list \<Rightarrow> SmtProof result" where
  "ParseSmtProof bs =
     tryAs ErrInvalidProof (r_Bool bs) (\<lambda>(ex, r).
     tryAs ErrInvalidProof (r_Fixed32 r) (\<lambda>(bitmap, r).
     tryAs ErrInvalidProof (r_U16 r) (\<lambda>(cnt, r).
     if cnt > 256 then Inl ErrInvalidProof
     else tryAs ErrInvalidProof (r_many (unat cnt) r_Fixed32 r) (\<lambda>(siblings, r).
     tryAs ErrInvalidProof (r_Done r) (\<lambda>_.
     let bits = length (filter (bitmapBit bitmap) [0..<Depth])
     in if bits \<noteq> length siblings then Inl ErrInvalidProof
        else Inr \<lparr>smp_Exists = ex, smp_Bitmap = bitmap, smp_Siblings = siblings\<rparr>)))))"

definition EqualProof :: "SmtProof \<Rightarrow> SmtProof \<Rightarrow> bool" where
  "EqualProof a b \<longleftrightarrow>
     (if smp_Exists a \<noteq> smp_Exists b \<or> smp_Bitmap a \<noteq> smp_Bitmap b \<or> length (smp_Siblings a) \<noteq> length (smp_Siblings b)
      then False
      else list_all (\<lambda>i. smp_Siblings a ! i = smp_Siblings b ! i) [0..<length (smp_Siblings a)])"

subsection \<open>The byte operations on bits\<close>

lemma mask_byte: "k < 8 \<Longrightarrow> n < 8 \<Longrightarrow> bit (ucast (push_bit n 0xFF :: u32) :: byte) k \<longleftrightarrow> n \<le> k"
proof -
  assume a: "k < 8" "n < 8"
  have "(0xFF :: u32) = mask 8" by (simp add: mask_eq_exp_minus_1)
  moreover have "bit (mask 8 :: u32) (k - n)" using a by (auto simp: bit_mask_iff simp del: mask_numeral)
  ultimately have "bit (0xFF :: u32) (k - n)" by simp
  then show ?thesis using a by (auto simp: bit_simps)
qed

lemma bit_take_replicate:
  assumes "length bs = 32" "m \<le> 32" "j < 256"
  shows "bit (from_be (take m bs @ replicate (32 - m) 0) :: bytes32) j \<longleftrightarrow>
    31 - j div 8 < m \<and> bit (bs ! (31 - j div 8)) (j mod 8)"
proof -
  have "bit (from_be (take m bs @ replicate (32 - m) 0) :: bytes32) j \<longleftrightarrow>
     bit ((take m bs @ replicate (32 - m) 0) ! (31 - j div 8)) (j mod 8)"
    using assms by (subst bit_from_be) simp_all
  then show ?thesis using assms by (auto simp: nth_append)
qed

lemma bit_prefixAtDepth:
  assumes "j < 256" "d \<le> 256"
  shows "bit (prefixAtDepth key d) j \<longleftrightarrow> 256 - d \<le> j \<and> bit key j"
proof -
  consider "d = 0" | "d = 256" | "0 < d" "d < 256" using assms(2) by linarith
  then show ?thesis
  proof cases
    case 3
    let ?i = "31 - j div 8"
    have i: "?i < 32" "31 - ?i = j div 8" using assms(1) by auto
    have b: "bit (be_bytes 32 key ! ?i) (j mod 8) = bit key j"
      using i bit_be_bytes [of ?i 32 "j mod 8" key] by simp
    show ?thesis
    proof (cases "d mod 8 = 0")
      case True
      then have "?i < d div 8 \<longleftrightarrow> 256 - d \<le> j"
        using assms 3 split8 [of d] split8 [of j] by linarith
      then show ?thesis
        using True 3 assms b bit_take_replicate [of "be_bytes 32 key" "d div 8" j]
        by (simp add: prefixAtDepth_def Let_def)
    next
      case False
      let ?m = "ucast (push_bit (8 - d mod 8) 0xFF :: u32) :: byte"
      let ?bs = "(be_bytes 32 key)[d div 8 := be_bytes 32 key ! (d div 8) AND ?m]"
      have "bit (prefixAtDepth key d) j \<longleftrightarrow> ?i < d div 8 + 1 \<and> bit (?bs ! ?i) (j mod 8)"
        using False 3 assms bit_take_replicate [of ?bs "d div 8 + 1" j]
        by (simp add: prefixAtDepth_def Let_def)
      also have "\<dots> \<longleftrightarrow> 256 - d \<le> j \<and> bit key j"
      proof (cases "?i = d div 8")
        case True
        have "8 - d mod 8 \<le> j mod 8 \<longleftrightarrow> 256 - d \<le> j"
          using True False assms 3 split8 [of d] split8 [of j] by linarith
        moreover have "bit ?m (j mod 8) \<longleftrightarrow> 8 - d mod 8 \<le> j mod 8"
          using False by (intro mask_byte) simp_all
        ultimately show ?thesis using True b i by (auto simp: bit_and_iff)
      next
        case neq: False
        then have "?i < d div 8 + 1 \<longleftrightarrow> 256 - d \<le> j" using assms 3 False neq split8 [of d] split8 [of j] by linarith
        then show ?thesis using neq b by simp
      qed
      finally show ?thesis .
    qed
  qed (use assms in \<open>auto simp: prefixAtDepth_def dest: bit_imp_le_length\<close>)
qed

lemma prefixAtDepth_eq: "n \<le> 256 \<Longrightarrow> prefixAtDepth key (256 - n) = push_bit n (drop_bit n key)"
  by (rule bit_word_eqI) (auto simp: bit_prefixAtDepth bit_simps)

lemma bitAt_zero_iff: "i < 256 \<Longrightarrow> bitAt key i = 0 \<longleftrightarrow> \<not> bit key (255 - i)"
proof -
  assume i: "i < 256"
  have "bit (be_bytes 32 key ! (i div 8)) (7 - i mod 8) \<longleftrightarrow> bit key (8 * (31 - i div 8) + (7 - i mod 8))"
    using i bit_be_bytes [of "i div 8" 32 "7 - i mod 8" key] by simp
  moreover have "8 * (31 - i div 8) + (7 - i mod 8) = 255 - i" using i split8 [of i] by linarith
  ultimately show ?thesis
    by (simp add: bitAt_def Let_def and_one_eq even_drop_bit_iff_not_bit mod2_eq_if)
qed

lemma bit_list_update_from_be:
  assumes "length bs = 32" "i < 32" "j < 256"
  shows "bit (from_be (bs[i := b]) :: bytes32) j \<longleftrightarrow>
    (if 31 - j div 8 = i then bit b (j mod 8) else bit (bs ! (31 - j div 8)) (j mod 8))"
  using assms bit_from_be [of "bs[i := b]" j, where 'a = 256] by auto

lemma byte_of_key: "j < 256 \<Longrightarrow> bit (be_bytes 32 key ! (31 - j div 8)) (j mod 8) \<longleftrightarrow> bit (key :: bytes32) j"
  using bit_be_bytes [of "31 - j div 8" 32 "j mod 8" key] by simp

lemma toggleBit_eq: "i < 256 \<Longrightarrow> toggleBit key i = flip_bit (255 - i) key"
proof (rule bit_word_eqI)
  fix j assume i: "i < 256" and "j < LENGTH(256)"
  then have j: "j < 256" by simp
  have "31 - j div 8 = i div 8 \<Longrightarrow> 7 - i mod 8 = j mod 8 \<Longrightarrow> 255 - i = j"
    using i j split8 [of i] split8 [of j] by linarith
  moreover have q: "255 - i = j \<Longrightarrow> 31 - j div 8 = i div 8"
    using i j split8 [of i] split8 [of j] by linarith
  moreover have "255 - i = j \<Longrightarrow> 7 - i mod 8 = j mod 8"
    using i j split8 [of i] split8 [of j] q by linarith
  ultimately have "31 - j div 8 = i div 8 \<and> 7 - i mod 8 = j mod 8 \<longleftrightarrow> 255 - i = j" by blast
  then show "bit (toggleBit key i) j = bit (flip_bit (255 - i) key) j"
    using i j byte_of_key [OF j, of key]
    by (auto simp: toggleBit_def Let_def bit_list_update_from_be bit_simps)
qed

lemma bitmapBit_iff: "bitmapBit b j \<longleftrightarrow> bit (be_bytes 32 b ! (j div 8)) (j mod 8)"
  by (simp add: bitmapBit_def Let_def flip: push_bit_eq_mult) (simp add: and_exp_eq_0_iff_not_bit push_bit_eq_mult)

lemma bitmapBit_setBitmapBit:
  assumes "i < 256" "j < 256"
  shows "bitmapBit (setBitmapBit b i) j \<longleftrightarrow> i = j \<or> bitmapBit b j"
proof -
  let ?bs = "(be_bytes 32 b)[i div 8 := be_bytes 32 b ! (i div 8) OR push_bit (i mod 8) 1]"
  have e: "be_bytes 32 (setBitmapBit b i) = ?bs"
    using be_bytes_from_be [of ?bs, where 'a = 256] by (simp add: setBitmapBit_def Let_def)
  have "i = j \<longleftrightarrow> i div 8 = j div 8 \<and> i mod 8 = j mod 8" by (metis split8(1))
  then show ?thesis
    using assms by (auto simp: bitmapBit_iff e nth_list_update bit_simps)
qed

lemma bitmapBit_zero [simp]: "j < 256 \<Longrightarrow> \<not> bitmapBit 0 j"
  by (simp add: bitmapBit_iff be_bytes_nth)

subsection \<open>The ideal tree\<close>

definition pre :: "nat \<Rightarrow> bytes32 \<Rightarrow> bytes32" where
  "pre n k = push_bit n (drop_bit n k)"

lemma prefixAtDepth_pre: "d \<le> 256 \<Longrightarrow> prefixAtDepth key d = pre (256 - d) key"
  using prefixAtDepth_eq [of "256 - d" key] by (simp add: pre_def)

lemma bit_pre: "bit (pre n k) j \<longleftrightarrow> n \<le> j \<and> bit k j"
  by (auto simp: pre_def bit_simps dest: bit_imp_le_length)

lemma pre_pre [simp]: "pre m (pre n k) = pre (max m n) k"
  by (rule bit_word_eqI) (auto simp: bit_pre)

lemma pre_0 [simp]: "pre 0 k = k" "pre n 0 = 0"
  by (simp_all add: pre_def)

lemma pre_256 [simp]: "pre 256 k = 0"
  by (rule bit_word_eqI) (auto simp: bit_pre)

lemma pre_child:
  "n < 256 \<Longrightarrow> pre n k = (if bit k n then set_bit n (pre (Suc n) k) else pre (Suc n) k)"
  by (rule bit_word_eqI) (auto simp: bit_pre bit_set_bit_iff Suc_le_eq nat_less_le)

lemma flip_child:
  "n < 256 \<Longrightarrow> flip_bit n (pre n k) = (if bit k n then pre (Suc n) k else set_bit n (pre (Suc n) k))"
  by (rule bit_word_eqI) (auto simp: bit_pre bit_set_bit_iff bit_flip_bit_iff le_Suc_eq nat_less_le)

lemma pre_set_bit [simp]: "pre n (set_bit n (pre (Suc n) p)) = set_bit n (pre (Suc n) p)"
  by (rule bit_word_eqI) (auto simp: bit_pre bit_set_bit_iff)

lemma pre_Suc_set_bit: "pre (Suc n) (set_bit n p) = pre (Suc n) p"
  by (rule bit_word_eqI) (auto simp: bit_pre bit_set_bit_iff)

primrec ideal :: "hashfun \<Rightarrow> (hash \<rightharpoonup> byte list) \<Rightarrow> nat \<Rightarrow> bytes32 \<Rightarrow> hash" where
  "ideal H f 0 p = (case f p of None \<Rightarrow> emptyLeafHash H | Some v \<Rightarrow> leafHash H p v)"
| "ideal H f (Suc n) p = branchHash H (ideal H f n p) (ideal H f n (set_bit n p))"

definition canonicalRoot :: "hashfun \<Rightarrow> (hash \<rightharpoonup> byte list) \<Rightarrow> hash" where
  "canonicalRoot H f = ideal H f Depth 0"

lemma ideal_cong:
  "(\<And>k. pre n k = p \<Longrightarrow> f k = g k) \<Longrightarrow> pre n p = p \<Longrightarrow> ideal H f n p = ideal H g n p"
proof (induction n arbitrary: p)
  case (Suc n)
  have "pre (Suc n) (pre n k) = pre (Suc n) k" for k by simp
  then have below: "pre (Suc n) k = p" if "pre n k = p \<or> pre n k = set_bit n p" for k
    using that Suc.prems(2) pre_Suc_set_bit [of n p] by metis
  have "pre n p = p" using Suc.prems(2) by (metis pre_pre max.absorb2 le_SucI order_refl)
  moreover have "pre n (set_bit n p) = set_bit n p" using Suc.prems(2) by (metis pre_set_bit)
  ultimately show ?case using Suc.IH Suc.prems(1) below by simp
qed simp

text \<open>A lookup by height gives the ideal nodes of the contents f.\<close>

definition shows_nodes :: "hashfun \<Rightarrow> (nat \<Rightarrow> hash \<rightharpoonup> byte list) \<Rightarrow> (nat \<Rightarrow> bytes32 \<Rightarrow> hash) \<Rightarrow> bool" where
  "shows_nodes H f look \<longleftrightarrow> (\<forall>n \<le> Depth. \<forall>p. pre n p = p \<longrightarrow> look n p = ideal H (f n) n p)"

definition join :: "hashfun \<Rightarrow> bytes32 \<Rightarrow> (nat \<Rightarrow> bytes32 \<Rightarrow> hash) \<Rightarrow> nat \<Rightarrow> hash" where
  "join H key look n =
     (let child = look n (pre n key); sibling = look n (flip_bit n (pre n key))
      in if bit key n then branchHash H sibling child else branchHash H child sibling)"

lemma join_ideal:
  assumes "shows_nodes H f look" "n < Depth"
  shows "join H key look n = ideal H (f n) (Suc n) (pre (Suc n) key)"
proof -
  let ?p = "pre (Suc n) key"
  have "look n ?p = ideal H (f n) n ?p" "look n (set_bit n ?p) = ideal H (f n) n (set_bit n ?p)"
    using assms by (auto simp: shows_nodes_def)
  then show ?thesis
    using assms(2) by (simp add: join_def flip_child) (simp add: pre_child)
qed

lemma shows_nodes_step:
  assumes "shows_nodes H (\<lambda>j. if j \<le> n then f' else f) look" "n < Depth"
    and off: "\<And>k. k \<noteq> key \<Longrightarrow> f' k = f k"
  shows "shows_nodes H (\<lambda>j. if j \<le> Suc n then f' else f)
    (\<lambda>j p. if j = Suc n \<and> p = pre (Suc n) key then join H key look n else look j p)"
  unfolding shows_nodes_def
proof (intro allI impI)
  fix j p assume j: "j \<le> Depth" and p: "pre j p = p"
  have old: "look j p = ideal H (if j \<le> n then f' else f) j p"
    using assms(1) j p by (simp add: shows_nodes_def)
  have J: "join H key look n = ideal H f' (Suc n) (pre (Suc n) key)"
    using join_ideal [OF assms(1,2)] by simp
  show "(if j = Suc n \<and> p = pre (Suc n) key then join H key look n else look j p) =
      ideal H (if j \<le> Suc n then f' else f) j p"
  proof (cases "j = Suc n \<and> p \<noteq> pre (Suc n) key")
    case True
    then have "ideal H f j p = ideal H f' j p"
      using p by (intro ideal_cong) (metis off True, simp)
    then show ?thesis using True old by simp
  qed (use old J in auto)
qed

lemma shows_nodes_ext:
  "(\<And>n p. n \<le> Depth \<Longrightarrow> pre n p = p \<Longrightarrow> look n p = look' n p) \<Longrightarrow> shows_nodes H f look = shows_nodes H f look'"
  by (simp add: shows_nodes_def)

lemma shows_nodes_fun: "shows_nodes H f look \<Longrightarrow> (\<And>n. n \<le> Depth \<Longrightarrow> f n = g n) \<Longrightarrow> shows_nodes H g look"
  by (simp add: shows_nodes_def)

lemma depth_u16_inject: "m \<le> Depth \<Longrightarrow> n \<le> Depth \<Longrightarrow> (of_nat m :: u16) = of_nat n \<longleftrightarrow> m = n"
  by (rule of_nat_eq_iff_small) simp_all

abbreviation node_at :: "Tree \<Rightarrow> nat \<Rightarrow> bytes32 \<Rightarrow> hash" where
  "node_at t n p \<equiv> getNode t (Depth - n) p"

text \<open>The default hashes.\<close>

lemma fill_defaults_nth:
  "length ds = Suc m \<Longrightarrow> (\<And>j. j \<le> m \<Longrightarrow> ds ! (m - j) = ideal H Map.empty j 0) \<Longrightarrow> j \<le> m + d \<Longrightarrow>
   fill_defaults H d ds ! (m + d - j) = ideal H Map.empty j 0"
proof (induction d arbitrary: m ds)
  case (Suc d)
  have any: "ideal H Map.empty n p = ideal H Map.empty n 0" for n p
    by (induction n arbitrary: p) (simp, metis ideal.simps(2))
  have hd: "hd ds = ideal H Map.empty m 0"
    using Suc.prems(1) Suc.prems(2) [of m] by (simp add: hd_conv_nth flip: length_greater_0_conv)
  have "fill_defaults H d (branchHash H (hd ds) (hd ds) # ds) ! (Suc m + d - j) = ideal H Map.empty j 0"
  proof (rule Suc.IH)
    fix i assume "i \<le> Suc m"
    then show "(branchHash H (hd ds) (hd ds) # ds) ! (Suc m - i) = ideal H Map.empty i 0"
      using Suc.prems(2) [of i] hd any [of m "set_bit m 0"]
      by (cases "i = Suc m") (auto simp: Suc_diff_le)
  qed (use Suc.prems in auto)
  then show ?case by simp
qed simp

lemma ideal_empty: "ideal H Map.empty n p = ideal H Map.empty n 0"
  by (induction n arbitrary: p) (simp, metis ideal.simps(2))

lemma defaultHashes_nth: "n \<le> Depth \<Longrightarrow> defaultHashes H ! (Depth - n) = ideal H Map.empty n p"
  using fill_defaults_nth [of "[emptyLeafHash H]" 0 H n 256] ideal_empty [of H n p]
  by (simp add: defaultHashes_def)

subsection \<open>Updates keep the nodes ideal\<close>

definition TreeInv :: "hashfun \<Rightarrow> Tree \<Rightarrow> bool" where
  "TreeInv H t \<longleftrightarrow> tr_defaults t = defaultHashes H \<and> shows_nodes H (\<lambda>_. tr_values t) (node_at t)"

lemma getNode_upd:
  assumes "tr_nodes t' = (tr_nodes t)((of_nat e, q) := x)" "tr_defaults t' = tr_defaults t" "d \<le> Depth" "e \<le> Depth"
  shows "getNode t' d p =
    (if d = e \<and> prefixAtDepth p d = q then (case x of Some h \<Rightarrow> h | None \<Rightarrow> tr_defaults t ! d) else getNode t d p)"
  using assms by (auto simp: getNode_def depth_u16_inject split: option.split)

lemma node_at_nodes:
  "n \<le> Depth \<Longrightarrow> pre n p = p \<Longrightarrow>
   node_at t n p = (case tr_nodes t (of_nat (Depth - n), p) of Some h \<Rightarrow> h | None \<Rightarrow> tr_defaults t ! (Depth - n))"
  by (simp add: getNode_def prefixAtDepth_pre)

lemma updatePath_join:
  assumes "n < Depth"
  shows "updatePath H key (Depth - Suc n) t =
    (let parent = join H key (node_at t) n; k = (of_nat (Depth - Suc n), pre (Suc n) key)
     in t\<lparr>tr_nodes := (tr_nodes t)(k := if parent = tr_defaults t ! (Depth - Suc n) then None else Some parent)\<rparr>)"
proof -
  have d: "Depth - Suc n + 1 = Depth - n" "255 - (Depth - Suc n) = n" "256 - (Depth - n) = n"
    using assms by auto
  have "flip_bit n (pre n key) = toggleBit (pre n key) (Depth - Suc n)"
    using assms by (simp add: toggleBit_eq d)
  moreover have "bitAt key (Depth - Suc n) = 0 \<longleftrightarrow> \<not> bit key n"
    using assms by (simp add: bitAt_zero_iff d)
  ultimately show ?thesis
    using assms unfolding updatePath_def join_def Let_def d(1)
    by (simp add: prefixAtDepth_pre d)
qed

lemma updatePath_node_at:
  assumes "n < Depth" "j \<le> Depth" "pre j p = p"
  shows "node_at (updatePath H key (Depth - Suc n) t) j p =
    (if j = Suc n \<and> p = pre (Suc n) key then join H key (node_at t) n else node_at t j p)"
proof -
  let ?x = "let parent = join H key (node_at t) n in if parent = tr_defaults t ! (Depth - Suc n) then None else Some parent"
  have "node_at (updatePath H key (Depth - Suc n) t) j p =
     (if Depth - j = Depth - Suc n \<and> prefixAtDepth p (Depth - j) = pre (Suc n) key
      then (case ?x of Some h \<Rightarrow> h | None \<Rightarrow> tr_defaults t ! (Depth - j)) else node_at t j p)"
    using assms(1) by (intro getNode_upd) (simp_all only: updatePath_join Let_def, simp_all)
  moreover have "Depth - j = Depth - Suc n \<longleftrightarrow> j = Suc n" using assms by auto
  moreover have "prefixAtDepth p (Depth - j) = p" using assms by (simp add: prefixAtDepth_pre)
  ultimately show ?thesis by (auto simp: Let_def)
qed

lemma updatePath_frame [simp]:
  "tr_values (updatePath H key d t) = tr_values t" "tr_defaults (updatePath H key d t) = tr_defaults t"
  by (simp_all add: updatePath_def Let_def)

lemma updatePaths_frame [simp]:
  "tr_values (updatePaths H key d t) = tr_values t" "tr_defaults (updatePaths H key d t) = tr_defaults t"
  by (induction d arbitrary: t) simp_all

lemma updatePaths_shows:
  assumes "shows_nodes H (\<lambda>j. if j \<le> n then f' else f) (node_at t)" "n \<le> Depth"
    and "\<And>k. k \<noteq> key \<Longrightarrow> f' k = f k"
  shows "shows_nodes H (\<lambda>_. f') (node_at (updatePaths H key (Depth - n) t))"
  using assms(1,2)
proof (induction "Depth - n" arbitrary: n t)
  case 0
  then show ?case by (auto intro: shows_nodes_fun)
next
  case (Suc d)
  then have n: "n < Depth" "d = Depth - Suc n" "Depth - n = Suc d" by auto
  have "shows_nodes H (\<lambda>j. if j \<le> Suc n then f' else f) (node_at (updatePath H key d t))"
    using shows_nodes_step [OF Suc.prems(1) n(1) assms(3)] n(1)
    by (subst shows_nodes_ext [OF updatePath_node_at [OF n(1), of _ _ H key t], folded n(2)]) simp_all
  then show ?case using Suc.hyps(1) [of "Suc n"] n by simp
qed

lemma updateLeaf_values [simp]: "tr_values (updateLeaf H key val t) = (tr_values t)(key := val)"
  "tr_defaults (updateLeaf H key val t) = tr_defaults t"
  by (simp_all add: updateLeaf_def Let_def split: option.split)

lemma updateLeaf_shows:
  assumes "TreeInv H t"
  shows "shows_nodes H (\<lambda>j. if j \<le> 0 then (tr_values t)(key := val) else tr_values t) (node_at (updateLeaf H key val t))"
  unfolding shows_nodes_def
proof (intro allI impI)
  fix n p assume n: "n \<le> Depth" and p: "pre n p = p"
  have "node_at t n p = ideal H (tr_values t) n p"
    using assms n p by (simp add: TreeInv_def shows_nodes_def)
  moreover have "tr_defaults t ! Depth = emptyLeafHash H"
    using assms defaultHashes_nth [of 0 H 0] by (simp add: TreeInv_def)
  moreover have "node_at (updateLeaf H key val t) n p =
     (if Depth - n = Depth \<and> prefixAtDepth p (Depth - n) = key
      then (case map_option (leafHash H key) val of Some h \<Rightarrow> h | None \<Rightarrow> tr_defaults t ! (Depth - n))
      else node_at t n p)"
    by (intro getNode_upd) (simp_all add: updateLeaf_def Let_def prefixAtDepth_pre split: option.split)
  ultimately show "node_at (updateLeaf H key val t) n p =
      ideal H (if n \<le> 0 then (tr_values t)(key := val) else tr_values t) n p"
    using n p by (cases "n = 0") (auto simp: prefixAtDepth_pre split: option.splits)
qed

lemma updateLocked_values [simp]: "tr_values (updateLocked H key val t) = (tr_values t)(key := val)"
  by (simp add: updateLocked_def)

lemma updateLocked_inv: "TreeInv H t \<Longrightarrow> TreeInv H (updateLocked H key val t)"
  using updatePaths_shows [OF updateLeaf_shows, of H t key key val]
  by (auto simp: TreeInv_def updateLocked_def)

lemma NewTree_inv: "TreeInv H (NewTree H)"
  by (auto simp: TreeInv_def NewTree_def shows_nodes_def node_at_nodes defaultHashes_nth)

lemma smt_Root_canonical: "TreeInv H t \<Longrightarrow> smt_Root t = canonicalRoot H (tr_values t)"
  by (auto simp: TreeInv_def shows_nodes_def smt_Root_def canonicalRoot_def dest: spec [of _ 256])

subsection \<open>The interface of an authenticated map\<close>

text \<open>
  What the state store relies on: updates change the contents at one key only, and the root is a digest
  of the contents.
\<close>

locale authenticated_map =
  fixes inv :: "'t \<Rightarrow> bool"
    and contents :: "'t \<Rightarrow> 'k \<Rightarrow> 'v option"
    and new :: 't
    and upd :: "'k \<Rightarrow> 'v option \<Rightarrow> 't \<Rightarrow> 't"
    and root :: "'t \<Rightarrow> 'r"
    and digest :: "('k \<Rightarrow> 'v option) \<Rightarrow> 'r"
  assumes inv_new: "inv new"
    and contents_new: "contents new = Map.empty"
    and inv_upd: "inv t \<Longrightarrow> inv (upd k v t)"
    and contents_upd: "inv t \<Longrightarrow> contents (upd k v t) = (contents t)(k := v)"
    and root_digest: "inv t \<Longrightarrow> root t = digest (contents t)"
begin

lemma inv_foldl: "inv t \<Longrightarrow> inv (foldl (\<lambda>t k. upd k (g k) t) t ks)"
  by (induction ks arbitrary: t) (auto simp: inv_upd)

lemma contents_foldl:
  "inv t \<Longrightarrow> contents (foldl (\<lambda>t k. upd k (g k) t) t ks) = (\<lambda>k. if k \<in> set ks then g k else contents t k)"
  by (induction ks arbitrary: t) (auto simp: inv_upd contents_upd fun_eq_iff)

lemma replay:
  "inv t \<Longrightarrow> inv (foldl (\<lambda>t (k, v). upd k v t) t ops) \<and>
     contents (foldl (\<lambda>t (k, v). upd k v t) t ops) = foldl (\<lambda>f (k, v). f(k := v)) (contents t) ops"
  by (induction ops arbitrary: t) (auto simp: inv_upd contents_upd)

lemma root_order_independent:
  "inv t \<Longrightarrow> set ks = set ks' \<Longrightarrow>
     root (foldl (\<lambda>t k. upd k (g k) t) t ks) = root (foldl (\<lambda>t k. upd k (g k) t) t ks')"
  by (simp add: root_digest inv_foldl contents_foldl)

end

interpretation smt: authenticated_map "TreeInv H" tr_values "NewTree H" "updateLocked H" smt_Root "canonicalRoot H"
  for H
  by unfold_locales (simp_all add: NewTree_inv updateLocked_inv smt_Root_canonical, simp add: NewTree_def)

text \<open>A tree that a sequence of updates built.\<close>

definition replayTree :: "hashfun \<Rightarrow> (hash \<times> slice) list \<Rightarrow> Tree" where
  "replayTree H ops = foldl (\<lambda>t (key, val). updateLocked H key val t) (NewTree H) ops"

definition replayValues :: "(hash \<times> slice) list \<Rightarrow> hash \<rightharpoonup> byte list" where
  "replayValues ops = foldl (\<lambda>f (key, val). f(key := val)) Map.empty ops"

lemma replayTree_inv [simp]: "TreeInv H (replayTree H ops)"
  and replayTree_values [simp]: "tr_values (replayTree H ops) = replayValues ops"
  using smt.replay [OF smt.inv_new, of H ops] by (simp_all add: replayTree_def replayValues_def smt.contents_new)

lemma replayTree_root: "smt_Root (replayTree H ops) = canonicalRoot H (replayValues ops)"
  using smt.root_digest [OF replayTree_inv, of H ops] by simp

subsection \<open>Applying and previewing a batch of updates\<close>

definition updated_values :: "(hash \<rightharpoonup> byte list) \<Rightarrow> updates \<Rightarrow> (hash \<rightharpoonup> byte list)" where
  "updated_values f upd k = (case upd k of None \<Rightarrow> f k | Some v \<Rightarrow> v)"

lemma updated_values_dom:
  "set ks = dom upd \<Longrightarrow> (\<lambda>k. if k \<in> set ks then update_at upd k else f k) = updated_values f upd"
  by (auto simp: updated_values_def update_at_def fun_eq_iff dom_def split: option.split)

lemma smt_Apply_correct:
  assumes "TreeInv H t" "set ks = dom upd"
  shows "TreeInv H (fst (smt_Apply H ks upd t))"
    "tr_values (fst (smt_Apply H ks upd t)) = updated_values (tr_values t) upd"
    "snd (smt_Apply H ks upd t) = canonicalRoot H (updated_values (tr_values t) upd)"
  using smt.inv_foldl [OF assms(1), of "update_at upd" ks] smt.contents_foldl [OF assms(1), of "update_at upd" ks]
    smt_Root_canonical [of H "fst (smt_Apply H ks upd t)"] updated_values_dom [OF assms(2), of "tr_values t"]
  by (simp_all add: smt_Apply_def Let_def smt_Root_def)

abbreviation overlay_at :: "Tree \<Rightarrow> (nodeKey \<rightharpoonup> hash) \<Rightarrow> nat \<Rightarrow> bytes32 \<Rightarrow> hash" where
  "overlay_at t overlay n p \<equiv> overlay_lookup t overlay (Depth - n) p"

lemma overlay_upd:
  assumes "d \<le> Depth" "e \<le> Depth"
  shows "overlay_lookup t (overlay((of_nat e, q) \<mapsto> h)) d p =
    (if d = e \<and> prefixAtDepth p d = q then h else overlay_lookup t overlay d p)"
  using assms by (auto simp: overlay_lookup_def Let_def depth_u16_inject)

lemma overlay_empty [simp]: "overlay_lookup t Map.empty d p = getNode t d p"
  by (simp add: overlay_lookup_def getNode_def Let_def)

lemma previewPath_join:
  assumes "n < Depth"
  shows "previewPath H t key (Depth - n) overlay =
    previewPath H t key (Depth - Suc n)
      (overlay((of_nat (Depth - Suc n), pre (Suc n) key) \<mapsto> join H key (overlay_at t overlay) n))"
proof -
  have d: "Depth - Suc n + 1 = Depth - n" "255 - (Depth - Suc n) = n" "256 - (Depth - n) = n"
      "Depth - n = Suc (Depth - Suc n)"
    using assms by auto
  have "flip_bit n (pre n key) = toggleBit (pre n key) (Depth - Suc n)"
    using assms by (simp add: toggleBit_eq d)
  moreover have "bitAt key (Depth - Suc n) = 0 \<longleftrightarrow> \<not> bit key n"
    using assms by (simp add: bitAt_zero_iff d)
  moreover have "prefixAtDepth key (Depth - n) = pre n key" "prefixAtDepth key (Depth - Suc n) = pre (Suc n) key"
    using assms by (simp_all add: prefixAtDepth_pre d)
  ultimately show ?thesis
    by (subst d(4)) (simp only: previewPath.simps Let_def join_def d(1) if_not_P if_P split: if_split, simp)
qed

lemma previewPath_shows:
  assumes "shows_nodes H (\<lambda>j. if j \<le> n then f' else f) (overlay_at t overlay)" "n \<le> Depth"
    and "\<And>k. k \<noteq> key \<Longrightarrow> f' k = f k"
  shows "shows_nodes H (\<lambda>_. f') (overlay_at t (previewPath H t key (Depth - n) overlay))"
  using assms(1,2)
proof (induction "Depth - n" arbitrary: n overlay)
  case 0
  then show ?case by (auto intro: shows_nodes_fun)
next
  case (Suc d)
  then have n: "n < Depth" "d = Depth - Suc n" "Depth - n = Suc d" by auto
  let ?o = "overlay((of_nat (Depth - Suc n), pre (Suc n) key) \<mapsto> join H key (overlay_at t overlay) n)"
  have "overlay_at t ?o j p =
      (if j = Suc n \<and> p = pre (Suc n) key then join H key (overlay_at t overlay) n else overlay_at t overlay j p)"
    if "j \<le> Depth" "pre j p = p" for j p
  proof -
    have "Depth - j = Depth - Suc n \<longleftrightarrow> j = Suc n" using that n(1) by auto
    moreover have "prefixAtDepth p (Depth - j) = p" using that by (simp add: prefixAtDepth_pre)
    ultimately show ?thesis by (subst overlay_upd) simp_all
  qed
  from shows_nodes_ext [OF this]
  have "shows_nodes H (\<lambda>j. if j \<le> Suc n then f' else f) (overlay_at t ?o)"
    using shows_nodes_step [OF Suc.prems(1) n(1) assms(3)] by simp
  then have "shows_nodes H (\<lambda>_. f') (overlay_at t (previewPath H t key (Depth - Suc n) ?o))"
    using Suc.hyps(1) [of "Suc n" ?o] n by simp
  then show ?case by (simp only: previewPath_join [OF n(1)])
qed

lemma previewKey_shows:
  assumes "shows_nodes H (\<lambda>_. f) (overlay_at t overlay)" "TreeInv H t"
  shows "shows_nodes H (\<lambda>_. f(key := update_at upd key)) (overlay_at t (previewKey H t upd overlay key))"
proof -
  let ?h = "case update_at upd key of None \<Rightarrow> tr_defaults t ! Depth | Some v \<Rightarrow> leafHash H key v"
  let ?o = "overlay((of_nat Depth, key) \<mapsto> ?h)"
  have e: "tr_defaults t ! Depth = emptyLeafHash H"
    using assms(2) defaultHashes_nth [of 0 H 0] by (simp add: TreeInv_def)
  have "overlay_at t ?o n p = ideal H (if n \<le> 0 then f(key := update_at upd key) else f) n p"
    if "n \<le> Depth" "pre n p = p" for n p
  proof -
    have "overlay_at t ?o n p = (if Depth - n = Depth \<and> prefixAtDepth p (Depth - n) = key then ?h else overlay_at t overlay n p)"
      by (rule overlay_upd) simp_all
    moreover have "overlay_at t overlay n p = ideal H f n p"
      using assms(1) that by (simp add: shows_nodes_def)
    ultimately show ?thesis
      using that e by (cases "n = 0") (auto simp: prefixAtDepth_pre split: option.splits)
  qed
  then have "shows_nodes H (\<lambda>j. if j \<le> 0 then f(key := update_at upd key) else f) (overlay_at t ?o)"
    by (simp add: shows_nodes_def)
  from previewPath_shows [OF this, of key] show ?thesis
    by (simp add: previewKey_def)
qed

lemma foldl_previewKey_shows:
  assumes "shows_nodes H (\<lambda>_. f) (overlay_at t overlay)" "TreeInv H t"
  shows "shows_nodes H (\<lambda>_ k. if k \<in> set ks then update_at upd k else f k)
    (overlay_at t (foldl (previewKey H t upd) overlay ks))"
  using assms(1)
proof (induction ks arbitrary: f overlay)
  case (Cons k ks)
  have "(\<lambda>k'. if k' \<in> set ks then update_at upd k' else (f(k := update_at upd k)) k') =
      (\<lambda>k'. if k' \<in> set (k # ks) then update_at upd k' else f k')"
    by auto
  then show ?case using Cons.IH [OF previewKey_shows [OF Cons.prems assms(2), of k upd]] by simp
qed simp

lemma shows_root: "shows_nodes H (\<lambda>_. f) look \<Longrightarrow> look Depth 0 = canonicalRoot H f"
  unfolding shows_nodes_def canonicalRoot_def by (metis order_refl pre_0(2))

lemma smt_Preview_correct:
  assumes "TreeInv H t" "set ks = dom upd"
  shows "smt_Preview H ks upd t = canonicalRoot H (updated_values (tr_values t) upd)"
proof (cases "ks = []")
  case True
  then have "upd = Map.empty" using assms(2) by (metis dom_eq_empty_conv list.set(1))
  then have "updated_values (tr_values t) upd = tr_values t"
    by (simp add: updated_values_def fun_eq_iff)
  then show ?thesis
    using True smt_Root_canonical [OF assms(1)] by (simp add: smt_Preview_def smt_Root_def)
next
  case False
  let ?o = "foldl (previewKey H t upd) Map.empty (sort ks)"
  have "shows_nodes H (\<lambda>_. tr_values t) (overlay_at t Map.empty)"
    using assms(1) by (simp add: TreeInv_def)
  from shows_root [OF foldl_previewKey_shows [OF this assms(1), of "sort ks" upd]]
  have "overlay_lookup t ?o 0 0 = canonicalRoot H (updated_values (tr_values t) upd)"
    using updated_values_dom [OF assms(2), of "tr_values t"] by simp
  moreover have "overlay_lookup t ?o 0 0 = (case ?o (0, 0) of Some h \<Rightarrow> h | None \<Rightarrow> getNode t 0 0)"
    by (simp add: overlay_lookup_def getNode_def prefixAtDepth_pre Let_def split: option.split)
  ultimately show ?thesis using False by (simp add: smt_Preview_def Let_def)
qed

subsection \<open>The strings that are hashed\<close>

definition smt_branch_frame :: "hash \<Rightarrow> hash \<Rightarrow> byte list" where
  "smt_branch_frame a b = frame ''zephyr/smt/branch/v2'' (w_Fixed32 a @ w_Fixed32 b)"

definition smt_leaf_frame :: "hash \<Rightarrow> slice \<Rightarrow> byte list" where
  "smt_leaf_frame k v = (case v of
     None \<Rightarrow> frame ''zephyr/smt/empty-leaf/v2'' []
   | Some bs \<Rightarrow> frame ''zephyr/smt/leaf/v2'' (w_Fixed32 k @ w_Bytes bs))"

lemma branchHash_frame: "branchHash H a b = H (smt_branch_frame a b)"
  by (simp add: branchHash_def smt_branch_frame_def DomainHash_framing)

lemma smt_leaf_frame_hash: "(case v of None \<Rightarrow> emptyLeafHash H | Some bs \<Rightarrow> leafHash H k bs) = H (smt_leaf_frame k v)"
  by (simp add: smt_leaf_frame_def emptyLeafHash_def leafHash_def DomainHash_framing split: option.split)

lemma smt_branch_frame_inject: "smt_branch_frame a b = smt_branch_frame c d \<longleftrightarrow> a = c \<and> b = d"
proof
  assume "smt_branch_frame a b = smt_branch_frame c d"
  then have "w_Fixed32 a @ w_Fixed32 b = w_Fixed32 c @ w_Fixed32 d"
    unfolding smt_branch_frame_def by (rule frame_inject [THEN conjunct2]) simp_all
  then show "a = c \<and> b = d"
    by (metis Fixed32.prefix_free append_Nil2)
qed simp

lemma smt_leaf_frame_inject:
  assumes "smt_leaf_frame k v = smt_leaf_frame k w"
    and "length (slice_bytes v) + 36 < 2 ^ 32" "length (slice_bytes w) + 36 < 2 ^ 32"
  shows "v = w"
proof (cases v; cases w)
  fix x y assume vw: "v = Some x" "w = Some y"
  then have "w_Fixed32 k @ w_Bytes x = w_Fixed32 k @ w_Bytes y"
    using assms frame_inject [of "''zephyr/smt/leaf/v2''" "w_Fixed32 k @ w_Bytes x"
      "''zephyr/smt/leaf/v2''" "w_Fixed32 k @ w_Bytes y"]
    by (simp add: smt_leaf_frame_def slice_bytes_def)
  then show ?thesis
    using assms(2,3) vw w_Bytes_inject [of x "[]" y "[]"] by (simp add: slice_bytes_def)
next
  fix y assume "v = None" "w = Some y"
  then show ?thesis
    using assms frame_inject [of "''zephyr/smt/empty-leaf/v2''" "[]" "''zephyr/smt/leaf/v2''" "w_Fixed32 k @ w_Bytes y"]
    by (simp add: smt_leaf_frame_def slice_bytes_def)
next
  fix x assume "v = Some x" "w = None"
  then show ?thesis
    using assms frame_inject [of "''zephyr/smt/leaf/v2''" "w_Fixed32 k @ w_Bytes x" "''zephyr/smt/empty-leaf/v2''" "[]"]
    by (simp add: smt_leaf_frame_def slice_bytes_def)
qed simp

primrec smt_climb :: "hashfun \<Rightarrow> bytes32 \<Rightarrow> nat \<Rightarrow> hash list \<Rightarrow> hash \<Rightarrow> hash" where
  "smt_climb H key n [] c = c"
| "smt_climb H key n (s # ss) c =
     smt_climb H key (Suc n) ss (if bit key n then branchHash H s c else branchHash H c s)"

primrec smt_climb_frames :: "hashfun \<Rightarrow> bytes32 \<Rightarrow> nat \<Rightarrow> hash list \<Rightarrow> hash \<Rightarrow> byte list list" where
  "smt_climb_frames H key n [] c = []"
| "smt_climb_frames H key n (s # ss) c =
     (let f = if bit key n then smt_branch_frame s c else smt_branch_frame c s
      in f # smt_climb_frames H key (Suc n) ss (H f))"

primrec smt_path_frames :: "hashfun \<Rightarrow> (hash \<rightharpoonup> byte list) \<Rightarrow> bytes32 \<Rightarrow> nat \<Rightarrow> byte list list" where
  "smt_path_frames H f key 0 = [smt_leaf_frame key (f key)]"
| "smt_path_frames H f key (Suc n) =
     smt_branch_frame (ideal H f n (pre (Suc n) key)) (ideal H f n (set_bit n (pre (Suc n) key))) #
     smt_path_frames H f key n"

lemma smt_climb_snoc:
  "smt_climb H key n (ss @ [s]) c =
    (let c' = smt_climb H key n ss c in if bit key (n + length ss) then branchHash H s c' else branchHash H c' s)"
  by (induction ss arbitrary: n c) (simp_all add: Let_def)

lemma smt_climb_frames_snoc:
  "smt_climb_frames H key n (ss @ [s]) c = smt_climb_frames H key n ss c @
    [let c' = smt_climb H key n ss c in if bit key (n + length ss) then smt_branch_frame s c' else smt_branch_frame c' s]"
  by (induction ss arbitrary: n c) (simp_all add: Let_def branchHash_frame if_distrib [of H])

lemma smt_climb_sound:
  assumes "smt_climb H key 0 ss c = ideal H f (length ss) (pre (length ss) key)" "length ss \<le> Depth"
    and "\<not> collides H (smt_climb_frames H key 0 ss c) (smt_path_frames H f key (length ss))"
  shows "c = H (smt_leaf_frame key (f key))"
  using assms
proof (induction ss rule: rev_induct)
  case Nil
  then show ?case by (simp add: smt_leaf_frame_hash)
next
  case (snoc s ss)
  let ?n = "length ss" and ?c = "smt_climb H key 0 ss c"
  let ?p = "pre (Suc ?n) key"
  let ?fr = "if bit key ?n then smt_branch_frame s ?c else smt_branch_frame ?c s"
  have n: "?n < Depth" using snoc.prems(2) by simp
  have "H ?fr = H (smt_branch_frame (ideal H f ?n ?p) (ideal H f ?n (set_bit ?n ?p)))"
    using snoc.prems(1) by (auto simp: smt_climb_snoc Let_def branchHash_frame)
  then have "?fr = smt_branch_frame (ideal H f ?n ?p) (ideal H f ?n (set_bit ?n ?p))"
    using no_collision [OF snoc.prems(3)] by (simp add: smt_climb_frames_snoc Let_def)
  then have "?c = ideal H f ?n (pre ?n key)"
    using pre_child [OF n, of key] by (auto simp: smt_branch_frame_inject split: if_splits)
  moreover have "\<not> collides H (smt_climb_frames H key 0 ss c) (smt_path_frames H f key ?n)"
    by (rule collides_antimono [OF snoc.prems(3)]) (auto simp: smt_climb_frames_snoc)
  ultimately show ?case using snoc.IH n by simp
qed

text \<open>The siblings that \<open>Verify\<close> uses, level by level.\<close>

primrec usedSiblings :: "hashfun \<Rightarrow> SmtProof \<Rightarrow> nat list \<Rightarrow> nat \<Rightarrow> hash list" where
  "usedSiblings H prf [] s = []"
| "usedSiblings H prf (i # is) s =
     (if bitmapBit (smp_Bitmap prf) i then smp_Siblings prf ! s # usedSiblings H prf is (s + 1)
      else defaultHashes H ! (Depth - i) # usedSiblings H prf is s)"

lemma length_usedSiblings [simp]: "length (usedSiblings H prf is s) = length is"
  by (induction "is" arbitrary: s) simp_all

lemma verifyLoop_climb:
  assumes "n + m = Depth" "s \<le> length (smp_Siblings prf)"
  shows "verifyLoop H key prf [n..<Depth] (c, s) =
     (let s' = s + length (filter (bitmapBit (smp_Bitmap prf)) [n..<Depth])
      in if s' \<le> length (smp_Siblings prf)
         then Some (smt_climb H key n (usedSiblings H prf [n..<Depth] s) c, s') else None)"
  using assms
proof (induction m arbitrary: n s c)
  case 0
  then show ?case by (simp add: Let_def)
next
  case (Suc m)
  then have n: "n < Depth" "Suc n + m = Depth" by auto
  have l: "[n..<Depth] = n # [Suc n..<Depth]" using n by (simp add: upt_conv_Cons)
  have b: "bitAt key (Depth - n - 1) = 0 \<longleftrightarrow> \<not> bit key n"
    using n by (simp add: bitAt_zero_iff)
  show ?case
  proof (cases "bitmapBit (smp_Bitmap prf) n")
    case True
    show ?thesis
    proof (cases "s < length (smp_Siblings prf)")
      case s: True
      then have "s + 1 \<le> length (smp_Siblings prf)" by simp
      note IH = Suc.IH [OF n(2) this]
      show ?thesis unfolding l
        by (simp only: verifyLoop.simps Let_def fst_conv snd_conv True if_True b IH) (use s True in simp)
    qed (use True Suc.prems in \<open>simp add: l\<close>)
  next
    case False
    note IH = Suc.IH [OF n(2) Suc.prems(2)]
    show ?thesis unfolding l
      by (simp only: verifyLoop.simps Let_def fst_conv snd_conv False if_False b IH) (use False in simp)
  qed
qed

subsection \<open>Proofs\<close>

lemma shows_nodesD: "shows_nodes H f look \<Longrightarrow> n \<le> Depth \<Longrightarrow> pre n p = p \<Longrightarrow> look n p = ideal H (f n) n p"
  by (simp add: shows_nodes_def)

abbreviation sibling_at :: "Tree \<Rightarrow> bytes32 \<Rightarrow> nat \<Rightarrow> hash" where
  "sibling_at t key i \<equiv> node_at t i (flip_bit i (pre i key))"

abbreviation proven_level :: "Tree \<Rightarrow> bytes32 \<Rightarrow> nat \<Rightarrow> bool" where
  "proven_level t key i \<equiv> sibling_at t key i \<noteq> tr_defaults t ! (Depth - i)"

lemma proveStep_sibling:
  assumes "i < Depth"
  shows "proveStep t key prf i =
    (if proven_level t key i
     then prf\<lparr>smp_Bitmap := setBitmapBit (smp_Bitmap prf) i, smp_Siblings := smp_Siblings prf @ [sibling_at t key i]\<rparr>
     else prf)"
proof -
  have d: "255 - (Depth - i - 1) = i" "256 - (Depth - i) = i" using assms by auto
  have "toggleBit (prefixAtDepth key (Depth - i)) (Depth - i - 1) = flip_bit i (pre i key)"
    using assms by (simp add: toggleBit_eq prefixAtDepth_pre d del: diff_diff_left)
  then show ?thesis by (simp add: proveStep_def Let_def del: diff_diff_left)
qed

lemma prove_levels:
  assumes "n \<le> Depth"
  shows "\<exists>b. foldl (proveStep t key) \<lparr>smp_Exists = e, smp_Bitmap = 0, smp_Siblings = []\<rparr> [0..<n] =
      \<lparr>smp_Exists = e, smp_Bitmap = b, smp_Siblings = map (sibling_at t key) (filter (proven_level t key) [0..<n])\<rparr> \<and>
    (\<forall>j < Depth. bitmapBit b j \<longleftrightarrow> j < n \<and> proven_level t key j)"
  using assms
proof (induction n)
  case (Suc n)
  then obtain b where b: "foldl (proveStep t key) \<lparr>smp_Exists = e, smp_Bitmap = 0, smp_Siblings = []\<rparr> [0..<n] =
      \<lparr>smp_Exists = e, smp_Bitmap = b, smp_Siblings = map (sibling_at t key) (filter (proven_level t key) [0..<n])\<rparr>"
    "\<forall>j < Depth. bitmapBit b j \<longleftrightarrow> j < n \<and> proven_level t key j" by auto
  have n: "n < Depth" using Suc.prems by simp
  show ?case
  proof (cases "proven_level t key n")
    case True
    have "\<forall>j < Depth. bitmapBit (setBitmapBit b n) j \<longleftrightarrow> j < Suc n \<and> proven_level t key j"
      using b(2) True n by (auto simp: bitmapBit_setBitmapBit less_Suc_eq)
    moreover have "foldl (proveStep t key) \<lparr>smp_Exists = e, smp_Bitmap = 0, smp_Siblings = []\<rparr> [0..<Suc n] =
      \<lparr>smp_Exists = e, smp_Bitmap = setBitmapBit b n,
       smp_Siblings = map (sibling_at t key) (filter (proven_level t key) [0..<Suc n])\<rparr>"
      using True by (simp add: b(1) proveStep_sibling [OF n])
    ultimately show ?thesis by blast
  next
    case False
    then have "\<forall>j < Depth. bitmapBit b j \<longleftrightarrow> j < Suc n \<and> proven_level t key j"
      using b(2) by (auto simp: less_Suc_eq)
    moreover have "foldl (proveStep t key) \<lparr>smp_Exists = e, smp_Bitmap = 0, smp_Siblings = []\<rparr> [0..<Suc n] =
      \<lparr>smp_Exists = e, smp_Bitmap = b,
       smp_Siblings = map (sibling_at t key) (filter (proven_level t key) [0..<Suc n])\<rparr>"
      using False by (simp add: b(1) proveStep_sibling [OF n])
    ultimately show ?thesis by blast
  qed
qed (auto intro: exI [of _ 0])

lemma smt_Prove_bits:
  "\<exists>b. smt_Prove t key = \<lparr>smp_Exists = (tr_values t key \<noteq> None), smp_Bitmap = b,
       smp_Siblings = map (sibling_at t key) (filter (proven_level t key) [0..<Depth])\<rparr> \<and>
    (\<forall>j < Depth. bitmapBit b j \<longleftrightarrow> proven_level t key j)"
  using prove_levels [of Depth t key "tr_values t key \<noteq> None"] by (auto simp: smt_Prove_def)

lemma usedSiblings_filter:
  assumes "\<forall>j < Depth. bitmapBit (smp_Bitmap prf) j \<longleftrightarrow> P j" "smp_Siblings prf = map sib (filter P [0..<Depth])"
    and "\<forall>j < Depth. \<not> P j \<longrightarrow> sib j = defaultHashes H ! (Depth - j)" "n + m = Depth"
  shows "usedSiblings H prf [n..<Depth] (length (filter P [0..<n])) = map sib [n..<Depth]"
  using assms(4)
proof (induction m arbitrary: n)
  case (Suc m)
  then have n: "n < Depth" "Suc n + m = Depth" by auto
  have l: "[n..<Depth] = n # [Suc n..<Depth]" using n by (simp add: upt_conv_Cons)
  have "[0..<Depth] = [0..<n] @ [n..<Depth]" using n upt_add_eq_append [of 0 n "Depth - n"] by simp
  then have "smp_Siblings prf = map sib (filter P [0..<n]) @ map sib (filter P (n # [Suc n..<Depth]))"
    using assms(2) by (simp only: filter_append map_append l)
  then have "P n \<Longrightarrow> smp_Siblings prf ! length (filter P [0..<n]) = sib n"
    by (simp add: nth_append)
  moreover have "length (filter P [0..<Suc n]) = length (filter P [0..<n]) + (if P n then 1 else 0)" by simp
  ultimately show ?case
    using Suc.IH [OF n(2)] assms(1,3) n(1) by (cases "P n") (simp_all add: l)
qed simp

lemma climb_siblings:
  assumes "shows_nodes H (\<lambda>_. f) (node_at t)" "n + m = Depth"
  shows "smt_climb H key n (map (sibling_at t key) [n..<Depth]) (node_at t n (pre n key)) = canonicalRoot H f"
  using assms(2)
proof (induction m arbitrary: n)
  case 0
  then show ?case using shows_root [OF assms(1)] by simp
next
  case (Suc m)
  then have n: "n < Depth" "Suc n + m = Depth" by auto
  have l: "[n..<Depth] = n # [Suc n..<Depth]" using n by (simp add: upt_conv_Cons)
  have "(if bit key n then branchHash H (sibling_at t key n) (node_at t n (pre n key))
         else branchHash H (node_at t n (pre n key)) (sibling_at t key n)) = join H key (node_at t) n"
    by (simp add: join_def Let_def)
  also have "\<dots> = node_at t (Suc n) (pre (Suc n) key)"
    using join_ideal [OF assms(1) n(1), of key] shows_nodesD [OF assms(1), of "Suc n" "pre (Suc n) key"] n
    by (simp del: ideal.simps)
  finally show ?case using Suc.IH [OF n(2)] by (simp only: l list.map smt_climb.simps)
qed

lemma smt_Prove_verifies:
  assumes "TreeInv H t"
  shows "smt_Verify H (smt_Root t) key val (smt_Prove t key) \<longleftrightarrow>
    (val \<noteq> None) = (tr_values t key \<noteq> None) \<and>
    smt_climb H key 0 (map (sibling_at t key) [0..<Depth]) (H (smt_leaf_frame key val)) = smt_Root t"
proof -
  obtain b where p: "smt_Prove t key = \<lparr>smp_Exists = (tr_values t key \<noteq> None), smp_Bitmap = b,
       smp_Siblings = map (sibling_at t key) (filter (proven_level t key) [0..<Depth])\<rparr>"
    and b: "\<forall>j < Depth. bitmapBit b j \<longleftrightarrow> proven_level t key j"
    using smt_Prove_bits [of t key] by (elim exE conjE)
  define q where "q = smt_Prove t key"
  have q: "smp_Exists q = (tr_values t key \<noteq> None)" "smp_Bitmap q = b"
    "smp_Siblings q = map (sibling_at t key) (filter (proven_level t key) [0..<Depth])"
    unfolding q_def p by simp_all
  have d: "tr_defaults t = defaultHashes H" using assms by (simp add: TreeInv_def)
  have u: "usedSiblings H q [0..<Depth] 0 = map (sibling_at t key) [0..<Depth]"
  proof -
    have "\<forall>j < Depth. bitmapBit (smp_Bitmap q) j \<longleftrightarrow> proven_level t key j"
      using b unfolding q(2) .
    moreover have "\<forall>j < Depth. \<not> proven_level t key j \<longrightarrow> sibling_at t key j = defaultHashes H ! (Depth - j)"
      unfolding d by blast
    ultimately show ?thesis
      using usedSiblings_filter [OF _ q(3), of H 0 Depth] by simp
  qed
  have "length (filter (bitmapBit b) [0..<Depth]) = length (filter (proven_level t key) [0..<Depth])"
    using b by (intro arg_cong [where f = length] filter_cong) simp_all
  then have cnt: "length (filter (bitmapBit (smp_Bitmap q)) [0..<Depth]) = length (smp_Siblings q)"
    by (simp only: q length_map)
  have loop: "verifyLoop H key q [0..<Depth] (c, 0) =
      Some (smt_climb H key 0 (map (sibling_at t key) [0..<Depth]) c, length (smp_Siblings q))" for c
    using verifyLoop_climb [of 0 Depth 0 q H key c] unfolding u cnt Let_def by simp
  have leaf: "smp_Exists q = (val \<noteq> None) \<Longrightarrow>
      (if smp_Exists q then leafHash H key (slice_bytes val) else defaultHashes H ! Depth) = H (smt_leaf_frame key val)"
    using defaultHashes_nth [of 0 H 0] smt_leaf_frame_hash [of H key val]
    by (cases val) (simp_all add: slice_bytes_def)
  show ?thesis
  proof (cases "smp_Exists q = (val \<noteq> None)")
    case True
    then show ?thesis
      unfolding smt_Verify_def Let_def q_def [symmetric] loop leaf [OF True] using q(1) by simp
  next
    case False
    then show ?thesis unfolding smt_Verify_def q_def [symmetric] using q(1) by simp
  qed
qed

lemma smt_complete_values:
  assumes "TreeInv H t"
  shows "smt_Verify H (smt_Root t) key (tr_values t key) (smt_Prove t key)"
proof -
  have s: "shows_nodes H (\<lambda>_. tr_values t) (node_at t)" using assms by (simp add: TreeInv_def)
  then have "node_at t 0 (pre 0 key) = H (smt_leaf_frame key (tr_values t key))"
    using smt_leaf_frame_hash [of H key "tr_values t key"] shows_nodesD [OF s, of 0 key] by simp
  then show ?thesis
    using climb_siblings [OF s, of 0 Depth key] smt_Root_canonical [OF assms]
    unfolding smt_Prove_verifies [OF assms] by simp
qed

lemma smt_Verify_climb:
  assumes "smt_Verify H root key val prf"
  shows "smt_climb H key 0 (usedSiblings H prf [0..<Depth] 0) (H (smt_leaf_frame key val)) = root"
proof -
  have e: "smp_Exists prf = (val \<noteq> None)" using assms by (simp add: smt_Verify_def split: if_splits)
  have leaf: "(if smp_Exists prf then leafHash H key (slice_bytes val) else defaultHashes H ! Depth) = H (smt_leaf_frame key val)"
    using defaultHashes_nth [of 0 H 0] smt_leaf_frame_hash [of H key val]
    by (cases val) (simp_all add: e slice_bytes_def)
  obtain c s where "verifyLoop H key prf [0..<Depth] (H (smt_leaf_frame key val), 0) = Some (c, s)" "c = root"
    using assms unfolding smt_Verify_def Let_def leaf by (auto split: if_splits option.splits)
  then show ?thesis
    using verifyLoop_climb [of 0 Depth 0 "prf" H key "H (smt_leaf_frame key val)"]
    by (simp add: Let_def split: if_splits)
qed

lemma leaf_in_path: "smt_leaf_frame key (f key) \<in> set (smt_path_frames H f key n)"
  by (induction n) simp_all

lemma smt_binding:
  assumes "ideal H f n (pre n key) = ideal H g n (pre n key)" "n \<le> Depth"
    and "\<not> collides H (smt_path_frames H f key n) (smt_path_frames H g key n)"
  shows "smt_leaf_frame key (f key) = smt_leaf_frame key (g key)"
  using assms
proof (induction n)
  case 0
  then show ?case using no_collision [OF 0(3)] by (simp add: smt_leaf_frame_hash)
next
  case (Suc n)
  let ?p = "pre (Suc n) key"
  have "smt_branch_frame (ideal H f n ?p) (ideal H f n (set_bit n ?p)) =
      smt_branch_frame (ideal H g n ?p) (ideal H g n (set_bit n ?p))"
    using no_collision [OF Suc.prems(3)] Suc.prems(1) by (simp add: branchHash_frame)
  then have "ideal H f n (pre n key) = ideal H g n (pre n key)"
    using pre_child [of n key] Suc.prems(2) by (simp add: smt_branch_frame_inject)
  moreover have "\<not> collides H (smt_path_frames H f key n) (smt_path_frames H g key n)"
    by (rule collides_antimono [OF Suc.prems(3)]) auto
  ultimately show ?case using Suc.IH Suc.prems(2) by simp
qed

lemma smt_sound:
  assumes "smt_Verify H (canonicalRoot H f) key val prf"
    and "length (slice_bytes val) + 36 < 2 ^ 32" "length (slice_bytes (f key)) + 36 < 2 ^ 32"
  shows "f key = val \<or>
    collides H (smt_leaf_frame key val #
        smt_climb_frames H key 0 (usedSiblings H prf [0..<Depth] 0) (H (smt_leaf_frame key val)))
      (smt_path_frames H f key Depth)"
proof (rule disjCI)
  let ?c = "H (smt_leaf_frame key val)" and ?ss = "usedSiblings H prf [0..<Depth] 0"
  assume nc: "\<not> collides H (smt_leaf_frame key val # smt_climb_frames H key 0 ?ss ?c)
      (smt_path_frames H f key Depth)"
  have "smt_climb H key 0 ?ss ?c = ideal H f Depth (pre Depth key)"
    using smt_Verify_climb [OF assms(1)] by (simp add: canonicalRoot_def)
  then have "?c = H (smt_leaf_frame key (f key))"
    using smt_climb_sound [of H key ?ss ?c f] collides_antimono [OF nc] by auto
  then have "smt_leaf_frame key val = smt_leaf_frame key (f key)"
    using no_collision [OF nc] leaf_in_path by auto
  then show "f key = val"
    by (rule smt_leaf_frame_inject [OF _ assms(2,3), symmetric])
qed

text \<open>
  C6. After any sequence of updates and deletions the root that the incremental tree maintains, with
  nodes equal to the default dropped, is the root of the complete tree over all 2 ^ 256 keys holding
  the final contents. In particular it does not depend on the history.
\<close>

theorem smt_root_canonical:
  "smt_Root (replayTree H ops) = canonicalRoot H (replayValues ops) \<and>
   snd (smt_Update H key val (replayTree H ops)) = canonicalRoot H ((replayValues ops)(key := val))"
  using smt_Root_canonical [OF updateLocked_inv [OF replayTree_inv], of H key val ops]
  by (simp add: replayTree_root smt_Update_def Let_def flip: smt_Root_def)

text \<open>
  C8. \<open>Preview\<close> returns the root that \<open>Apply\<close> installs, whatever orders the two range
  over the updates in, and \<open>Apply\<close> leaves the previewed contents.
\<close>

theorem smt_preview_apply:
  assumes "set ks = dom upd" "set ks' = dom upd"
  shows "smt_Preview H ks upd (replayTree H ops) = snd (smt_Apply H ks' upd (replayTree H ops)) \<and>
    tr_values (fst (smt_Apply H ks' upd (replayTree H ops))) = updated_values (replayValues ops) upd"
  using assms by (simp add: smt_Preview_correct smt_Apply_correct)

theorem smt_preview_apply_witness:
  "smt_Preview toy_hash [7, 3] [3 \<mapsto> Some [1], 7 \<mapsto> None] (replayTree toy_hash [(7, Some [9])]) =
     snd (smt_Apply toy_hash [3, 7] [3 \<mapsto> Some [1], 7 \<mapsto> None] (replayTree toy_hash [(7, Some [9])])) \<and>
   tr_values (fst (smt_Apply toy_hash [3, 7] [3 \<mapsto> Some [1], 7 \<mapsto> None] (replayTree toy_hash [(7, Some [9])]))) =
     updated_values (replayValues [(7, Some [9])]) [3 \<mapsto> Some [1], 7 \<mapsto> None]"
  by (rule smt_preview_apply) auto

text \<open>
  C9. A proof made by \<open>Prove\<close> is accepted by \<open>Verify\<close> against the current root with the
  value that \<open>Get\<close> returns, for present and absent keys alike, except when the stored value is
  empty: \<open>Get\<close> then returns a nil slice, which \<open>Verify\<close> reads as absence.
\<close>

theorem smt_proof_complete:
  "smt_Verify H (smt_Root (replayTree H ops)) key (fst (smt_Get (replayTree H ops) key))
     (smt_Prove (replayTree H ops) key) \<longleftrightarrow> replayValues ops key \<noteq> Some []"
proof -
  let ?t = "replayTree H ops"
  have v: "smt_Verify H (smt_Root ?t) key (tr_values ?t key) (smt_Prove ?t key)"
    by (rule smt_complete_values) simp
  show ?thesis
  proof (cases "replayValues ops key = Some []")
    case True
    then show ?thesis
      using smt_Prove_verifies [of H ?t key None] by (simp add: smt_Get_def goCopy_def)
  next
    case False
    then have "fst (smt_Get ?t key) = tr_values ?t key"
      by (simp add: smt_Get_def goCopy_def split: option.split)
    then show ?thesis using v False by simp
  qed
qed

text \<open>
  C7. A proof that \<open>Verify\<close> accepts against the root of a tree shows the true value of the key,
  or its absence, whatever the bitmap and siblings, unless two of the strings hashed by the verifier
  and on the key's path of the tree collide.
\<close>

theorem smt_proof_sound:
  assumes "smt_Verify H (smt_Root (replayTree H ops)) key val prf"
    and "length (slice_bytes val) + 36 < 2 ^ 32" "length (slice_bytes (replayValues ops key)) + 36 < 2 ^ 32"
  shows "replayValues ops key = val \<or>
    collides H (smt_leaf_frame key val #
        smt_climb_frames H key 0 (usedSiblings H prf [0..<Depth] 0) (H (smt_leaf_frame key val)))
      (smt_path_frames H (replayValues ops) key Depth)"
  using assms unfolding replayTree_root by (rule smt_sound)

theorem smt_proof_sound_witness:
  "replayValues [(5, Some [1])] 5 = Some [1] \<or>
    collides toy_hash (smt_leaf_frame 5 (Some [1]) #
        smt_climb_frames toy_hash 5 0
          (usedSiblings toy_hash (smt_Prove (replayTree toy_hash [(5, Some [1])]) 5) [0..<Depth] 0)
          (toy_hash (smt_leaf_frame 5 (Some [1]))))
      (smt_path_frames toy_hash (replayValues [(5, Some [1])]) 5 Depth)"
proof (rule smt_proof_sound)
  have v: "replayValues [(5, Some [1])] 5 = Some [1]" by (simp add: replayValues_def)
  then show "smt_Verify toy_hash (smt_Root (replayTree toy_hash [(5, Some [1])])) 5 (Some [1])
      (smt_Prove (replayTree toy_hash [(5, Some [1])]) 5)"
    using smt_complete_values [OF replayTree_inv, of toy_hash "[(5, Some [1])]" 5] by simp
  show "length (slice_bytes (replayValues [(5, Some [1])] 5)) + 36 < 2 ^ 32"
    by (simp add: v slice_bytes_def)
qed (simp add: slice_bytes_def)

text \<open>
  C10. The root binds the contents: two trees with the same root hold the same value at every key,
  unless two of the strings hashed on the key's paths of the two trees collide.
\<close>

theorem smt_root_binding:
  assumes "smt_Root (replayTree H ops) = smt_Root (replayTree H ops')"
    and "length (slice_bytes (replayValues ops key)) + 36 < 2 ^ 32"
    and "length (slice_bytes (replayValues ops' key)) + 36 < 2 ^ 32"
  shows "replayValues ops key = replayValues ops' key \<or>
    collides H (smt_path_frames H (replayValues ops) key Depth) (smt_path_frames H (replayValues ops') key Depth)"
  using smt_binding [of H "replayValues ops" Depth key "replayValues ops'"] assms
    smt_leaf_frame_inject [of key "replayValues ops key" "replayValues ops' key"]
  by (auto simp: replayTree_root canonicalRoot_def)

theorem smt_root_binding_witness:
  "replayValues [(1, Some [2]), (4, None)] 1 = replayValues [(1, Some [2])] 1 \<or>
    collides toy_hash (smt_path_frames toy_hash (replayValues [(1, Some [2]), (4, None)]) 1 Depth)
      (smt_path_frames toy_hash (replayValues [(1, Some [2])]) 1 Depth)"
proof (rule smt_root_binding)
  have e: "replayValues [(1, Some [2]), (4, None)] = replayValues [(1, Some [2])]"
    by (auto simp: replayValues_def)
  then show "smt_Root (replayTree toy_hash [(1, Some [2]), (4, None)]) = smt_Root (replayTree toy_hash [(1, Some [2])])"
    by (simp only: replayTree_root)
  show "length (slice_bytes (replayValues [(1, Some [2]), (4, None)] 1)) + 36 < 2 ^ 32"
    "length (slice_bytes (replayValues [(1, Some [2])] 1)) + 36 < 2 ^ 32"
    by (simp_all add: replayValues_def slice_bytes_def)
qed

definition smt_proof_wf :: "SmtProof \<Rightarrow> bool" where
  "smt_proof_wf p \<longleftrightarrow> length (smp_Siblings p) = length (filter (bitmapBit (smp_Bitmap p)) [0..<Depth])"

lemma smt_proof_wf_length: "smt_proof_wf p \<Longrightarrow> length (smp_Siblings p) \<le> Depth"
  using length_filter_le [of "bitmapBit (smp_Bitmap p)" "[0..<Depth]"] unfolding smt_proof_wf_def length_upt by simp

interpretation SmtWire: canonical_wire MarshalSmtProof ParseSmtProof smt_proof_wf
proof
  fix bs and p :: SmtProof
  show "ParseSmtProof bs = Inr p \<longleftrightarrow> smt_proof_wf p \<and> bs = MarshalSmtProof p"
  proof
    assume "ParseSmtProof bs = Inr p"
    then show "smt_proof_wf p \<and> bs = MarshalSmtProof p"
      by (auto simp: smt_proof_wf_def ParseSmtProof_def MarshalSmtProof_def wire_iff Fixed32.r_many_iff Let_def
          simp del: upt_rec_numeral split: if_splits)
  next
    assume p: "smt_proof_wf p \<and> bs = MarshalSmtProof p"
    then have l: "length (smp_Siblings p) \<le> Depth" using smt_proof_wf_length by blast
    then have u: "unat (of_nat (length (smp_Siblings p)) :: u16) = length (smp_Siblings p)"
      by (simp add: unat_of_nat_small)
    then have "\<not> 256 < (of_nat (length (smp_Siblings p)) :: u16)" using l by (simp add: word_less_nat_alt)
    then show "ParseSmtProof bs = Inr p"
      using Fixed32.many_back_end [of "smp_Siblings p"] u p
      by (simp add: smt_proof_wf_def ParseSmtProof_def MarshalSmtProof_def list_all_True Let_def del: upt_rec_numeral)
  qed
qed

text \<open>
  The wire parser of a state proof accepts exactly the encodings of proofs with as many siblings
  as the bitmap has bits, so what \<open>Prove\<close> returns survives the wire and no proof has two
  encodings.
\<close>

theorem ParseSmtProof_iff:
  "ParseSmtProof bs = Inr p \<longleftrightarrow>
     bs = MarshalSmtProof p \<and> length (smp_Siblings p) = length (filter (bitmapBit (smp_Bitmap p)) [0..<Depth])"
  unfolding SmtWire.parse_iff smt_proof_wf_def by blast

lemma EqualProof_iff: "EqualProof a b \<longleftrightarrow> a = (b :: SmtProof)"
  by (cases a, cases b) (auto simp: EqualProof_def list_all_iff intro: nth_equalityI)

lemma smt_Clone_eq [simp]: "smt_Clone t = (t :: Tree)"
  by (simp add: smt_Clone_def)

end
