(* ===== verification/WorldState.thy ===== *)
theory WorldState
  imports SparseMerkle Objects
begin

text \<open>
  The object store in memory (\<open>internal/v2/worldstate\<close>: \<open>store.go\<close>, \<open>simulate.go\<close>): a map of objects
  and the sparse Merkle tree over their hashes, changed together by a delta of consumed and created objects.

  The tree ranges over a Go map of updates, whose order is unspecified: the function \<open>ord\<close> gives the
  order in which it visits a list of keys, and the lemmas hold for every one that visits each key. \<open>Memory\<close> returns
  copies of objects, so an object is a value here.

  The lemmas show that the map and the tree never disagree (\<open>MemInv\<close>), that a rejected delta changes nothing, that
  \<open>Simulate\<close> predicts \<open>Apply\<close>, and that the store's proofs verify against its root.
\<close>

type_synonym objects = "objectid \<rightharpoonup> Object"
type_synonym key_order = "hash list \<Rightarrow> hash list"

record Memory =
  mem_tree :: Tree
  mem_objects :: objects

definition NewMemory :: "hashfun \<Rightarrow> Memory" where
  "NewMemory H = \<lparr>mem_tree = NewTree H, mem_objects = Map.empty\<rparr>"

definition mem_Root :: "Memory \<Rightarrow> hash" where
  "mem_Root m = smt_Root (mem_tree m)"

definition GetObject :: "Memory \<Rightarrow> objectid \<Rightarrow> Object option" where
  "GetObject m oid = mem_objects m oid"

definition mem_Proof :: "Memory \<Rightarrow> objectid \<Rightarrow> Object option \<times> SmtProof" where
  "mem_Proof m oid = (mem_objects m oid, smt_Prove (mem_tree m) oid)"

definition consume_check :: "objects \<Rightarrow> objectid set \<Rightarrow> objectid \<Rightarrow> objectid set result" where
  "consume_check objs seenConsumed oid =
     (if oid \<in> seenConsumed then Inl ErrObjectNotFound
      else if objs oid = None then Inl ErrObjectNotFound
      else Inr (insert oid seenConsumed))"

definition create_check :: "objects \<Rightarrow> objectid set \<Rightarrow> objectid set \<Rightarrow> Object \<Rightarrow> objectid set result" where
  "create_check objs seenConsumed seenCreated item =
     tryE (Object_Validate item) (\<lambda>_.
     if obj_ID item \<in> seenCreated then Inl ErrObjectExists
     else if objs (obj_ID item) \<noteq> None \<and> obj_ID item \<notin> seenConsumed then Inl ErrObjectExists
     else Inr (insert (obj_ID item) seenCreated))"

definition prevalidate :: "objects \<Rightarrow> objectid list \<Rightarrow> Object list \<Rightarrow> unit result" where
  "prevalidate objs consumed created =
     tryE (foldE (consume_check objs) {} consumed) (\<lambda>seenConsumed.
     tryE (foldE (create_check objs seenConsumed) {} created) (\<lambda>_. Inr ()))"

definition delta_updates :: "hashfun \<Rightarrow> objectid list \<Rightarrow> Object list \<Rightarrow> updates" where
  "delta_updates H consumed created =
     foldl (\<lambda>u item. u(obj_ID item \<mapsto> Some (be_bytes 32 (Object_Hash H item))))
       (foldl (\<lambda>u oid. u(oid \<mapsto> None)) Map.empty consumed) created"

definition delta_keys :: "objectid list \<Rightarrow> Object list \<Rightarrow> hash list" where
  "delta_keys consumed created = remdups (consumed @ map obj_ID created)"

definition applyMirror :: "objectid list \<Rightarrow> Object list \<Rightarrow> objects \<Rightarrow> objects" where
  "applyMirror consumed created objs =
     foldl (\<lambda>m item. m(obj_ID item \<mapsto> item)) (foldl (\<lambda>m oid. m(oid := None)) objs consumed) created"

definition mem_Apply :: "hashfun \<Rightarrow> key_order \<Rightarrow> objectid list \<Rightarrow> Object list \<Rightarrow> Memory \<Rightarrow> (hash \<times> unit result) \<times> Memory" where
  "mem_Apply H ord consumed created m =
     (case prevalidate (mem_objects m) consumed created of
        Inl e \<Rightarrow> ((smt_Root (mem_tree m), Inl e), m)
      | Inr _ \<Rightarrow>
          let updates = delta_updates H consumed created;
              (tree, root) = smt_Apply H (ord (delta_keys consumed created)) updates (mem_tree m)
          in ((root, Inr ()), \<lparr>mem_tree = tree, mem_objects = applyMirror consumed created (mem_objects m)\<rparr>))"

definition mem_Simulate :: "hashfun \<Rightarrow> key_order \<Rightarrow> objectid list \<Rightarrow> Object list \<Rightarrow> Memory \<Rightarrow> hash \<times> unit result" where
  "mem_Simulate H ord consumed created m =
     (case prevalidate (mem_objects m) consumed created of
        Inl e \<Rightarrow> (smt_Root (mem_tree m), Inl e)
      | Inr _ \<Rightarrow>
          (smt_Preview H (ord (delta_keys consumed created)) (delta_updates H consumed created) (mem_tree m), Inr ()))"

subsection \<open>Deltas\<close>

text \<open>A list of consumed identifiers and of created objects that a set of objects admits.\<close>

definition delta_ok :: "objects \<Rightarrow> objectid list \<Rightarrow> Object list \<Rightarrow> bool" where
  "delta_ok objs consumed created \<longleftrightarrow>
     distinct consumed \<and> set consumed \<subseteq> dom objs \<and>
     list_all object_valid created \<and> distinct (map obj_ID created) \<and>
     (\<forall>o' \<in> set created. obj_ID o' \<in> dom objs \<longrightarrow> obj_ID o' \<in> set consumed)"

lemma consume_checks:
  "foldE (consume_check objs) seen consumed = Inr seen' \<longleftrightarrow>
     distinct consumed \<and> set consumed \<subseteq> dom objs \<and> set consumed \<inter> seen = {} \<and> seen' = seen \<union> set consumed"
  by (induction consumed arbitrary: seen) (auto simp: consume_check_def)

lemma create_checks:
  "foldE (create_check objs cs) seen created = Inr seen' \<longleftrightarrow>
     list_all object_valid created \<and> distinct (map obj_ID created) \<and> obj_ID ` set created \<inter> seen = {} \<and>
     (\<forall>o' \<in> set created. obj_ID o' \<in> dom objs \<longrightarrow> obj_ID o' \<in> cs) \<and> seen' = seen \<union> obj_ID ` set created"
proof (induction created arbitrary: seen)
  case (Cons item created)
  then show ?case
    by (auto simp: create_check_def Object_Validate_iff)
qed auto

lemma prevalidate_iff: "prevalidate objs consumed created = Inr u \<longleftrightarrow> delta_ok objs consumed created"
  by (auto simp: prevalidate_def consume_checks create_checks delta_ok_def)

lemma foldl_delete: "foldl (\<lambda>m k. m(k := None)) f ks = (\<lambda>k. if k \<in> set ks then None else f k)"
  by (induction ks arbitrary: f) auto

lemma foldl_clear: "foldl (\<lambda>m k. m(k \<mapsto> None)) f ks = (\<lambda>k. if k \<in> set ks then Some None else f k)"
  by (induction ks arbitrary: f) auto

lemma foldl_insert:
  "distinct (map key xs) \<Longrightarrow>
     foldl (\<lambda>m x. m(key x \<mapsto> v x)) f xs = f ++ (\<lambda>k. map_option v (find (\<lambda>x. key x = k) xs))"
proof (induction xs arbitrary: f)
  case (Cons x xs)
  moreover have "find (\<lambda>y. key y = key x) xs = None"
    using Cons.prems unfolding find_None_iff by (metis distinct.simps(2) image_eqI list.set_map list.simps(9))
  ultimately show ?case by (auto simp: map_add_def fun_eq_iff split: option.split)
qed (simp add: map_add_def)

text \<open>The object with a given identifier among the created ones.\<close>

definition created_at :: "Object list \<Rightarrow> objects" where
  "created_at created oid = find (\<lambda>o'. obj_ID o' = oid) created"

lemma applyMirror_eq:
  "distinct (map obj_ID created) \<Longrightarrow>
     applyMirror consumed created objs = (\<lambda>k. if k \<in> set consumed then None else objs k) ++ created_at created"
  using foldl_insert [of obj_ID created "\<lambda>x. x"]
  by (simp add: applyMirror_def foldl_delete created_at_def [abs_def] option.map_ident)

lemma delta_updates_eq:
  "distinct (map obj_ID created) \<Longrightarrow>
     delta_updates H consumed created =
       (\<lambda>k. if k \<in> set consumed then Some None else None) ++
       (\<lambda>k. map_option (\<lambda>o'. Some (be_bytes 32 (Object_Hash H o'))) (created_at created k))"
  using foldl_insert [of obj_ID created "\<lambda>o'. Some (be_bytes 32 (Object_Hash H o'))"]
  by (simp add: delta_updates_def foldl_clear created_at_def [abs_def])

lemma dom_created_at: "dom (created_at created) = obj_ID ` set created"
  by (auto simp: created_at_def dom_def find_None_iff image_iff simp flip: not_None_eq)

lemma created_at_Some: "created_at created k = Some o' \<Longrightarrow> o' \<in> set created \<and> obj_ID o' = k"
  by (auto simp: created_at_def find_Some_iff)

lemma created_at_mem:
  assumes "distinct (map obj_ID created)" "o' \<in> set created"
  shows "created_at created (obj_ID o') = Some o'"
  using assms by (induction created) (auto simp: created_at_def)

subsection \<open>The invariant\<close>

definition object_values :: "hashfun \<Rightarrow> objects \<Rightarrow> hash \<rightharpoonup> byte list" where
  "object_values H objs k = map_option (\<lambda>o'. be_bytes 32 (Object_Hash H o')) (objs k)"

definition objects_ok :: "objects \<Rightarrow> bool" where
  "objects_ok objs \<longleftrightarrow> finite (dom objs) \<and> (\<forall>k o'. objs k = Some o' \<longrightarrow> obj_ID o' = k \<and> object_valid o')"

definition MemInv :: "hashfun \<Rightarrow> Memory \<Rightarrow> bool" where
  "MemInv H m \<longleftrightarrow> TreeInv H (mem_tree m) \<and> tr_values (mem_tree m) = object_values H (mem_objects m) \<and>
     objects_ok (mem_objects m)"

definition covers :: "key_order \<Rightarrow> bool" where
  "covers ord \<longleftrightarrow> (\<forall>ks. set (ord ks) = set ks)"

lemma delta_dom:
  assumes "distinct (map obj_ID created)" "covers ord"
  shows "set (ord (delta_keys consumed created)) = dom (delta_updates H consumed created)"
proof -
  have "dom (delta_updates H consumed created) = set consumed \<union> dom (created_at created)"
    by (auto simp: delta_updates_eq [OF assms(1)] dom_def split: if_splits)
  then show ?thesis using assms(2) by (simp add: dom_created_at delta_keys_def covers_def)
qed

lemma updated_object_values:
  assumes "distinct (map obj_ID created)"
  shows "updated_values (object_values H objs) (delta_updates H consumed created) =
    object_values H (applyMirror consumed created objs)"
  by (auto simp: updated_values_def object_values_def delta_updates_eq [OF assms] applyMirror_eq [OF assms]
      map_add_def fun_eq_iff split: option.split)

lemma applyMirror_ok:
  assumes "objects_ok objs" "delta_ok objs consumed created"
  shows "objects_ok (applyMirror consumed created objs)"
proof -
  have d: "distinct (map obj_ID created)" using assms(2) by (simp add: delta_ok_def)
  have "dom (applyMirror consumed created objs) \<subseteq> dom objs \<union> obj_ID ` set created"
    by (auto simp: applyMirror_eq [OF d] dom_created_at [symmetric] split: if_splits)
  then have "finite (dom (applyMirror consumed created objs))"
    using assms(1) finite_subset by (fastforce simp: objects_ok_def)
  moreover have "obj_ID o' = k \<and> object_valid o'" if "applyMirror consumed created objs k = Some o'" for k o'
    using that assms created_at_Some [of created k o']
    by (auto simp: applyMirror_eq [OF d] map_add_Some_iff objects_ok_def delta_ok_def list_all_iff split: if_splits)
  ultimately show ?thesis by (simp add: objects_ok_def)
qed

lemma NewMemory_inv: "MemInv H (NewMemory H)"
  by (simp add: MemInv_def NewMemory_def objects_ok_def object_values_def fun_eq_iff smt.inv_new smt.contents_new)

lemma mem_Root_canonical: "MemInv H m \<Longrightarrow> mem_Root m = canonicalRoot H (object_values H (mem_objects m))"
  using smt_Root_canonical [of H "mem_tree m"] by (simp add: MemInv_def mem_Root_def)

lemma mem_Apply_rejects:
  "\<not> delta_ok (mem_objects m) consumed created \<Longrightarrow>
     \<exists>e. prevalidate (mem_objects m) consumed created = Inl e \<and> mem_Apply H ord consumed created m = ((mem_Root m, Inl e), m)"
  using prevalidate_iff [of "mem_objects m" consumed created]
  by (cases "prevalidate (mem_objects m) consumed created") (auto simp: mem_Apply_def mem_Root_def)

lemma mem_Apply_accepts:
  assumes inv: "MemInv H m" and ord: "covers ord" and ok: "delta_ok (mem_objects m) consumed created"
  obtains m' where "mem_Apply H ord consumed created m = ((mem_Root m', Inr ()), m')" "MemInv H m'"
    "mem_objects m' = applyMirror consumed created (mem_objects m)"
proof -
  let ?upd = "delta_updates H consumed created" and ?ks = "ord (delta_keys consumed created)"
  let ?r = "smt_Apply H ?ks ?upd (mem_tree m)"
  let ?m' = "\<lparr>mem_tree = fst ?r, mem_objects = applyMirror consumed created (mem_objects m)\<rparr>"
  have d: "distinct (map obj_ID created)" using ok by (simp add: delta_ok_def)
  have t: "TreeInv H (mem_tree m)" "tr_values (mem_tree m) = object_values H (mem_objects m)"
    using inv by (simp_all add: MemInv_def)
  note a = smt_Apply_correct [OF t(1) delta_dom [OF d ord, of consumed H], unfolded t(2) updated_object_values [OF d]]
  have "MemInv H ?m'" using a(1,2) applyMirror_ok [OF _ ok] inv by (simp add: MemInv_def)
  moreover have "prevalidate (mem_objects m) consumed created = Inr ()" using ok by (simp add: prevalidate_iff)
  then have "mem_Apply H ord consumed created m = ((mem_Root ?m', Inr ()), ?m')"
    using a(3) mem_Root_canonical [OF calculation] by (simp add: mem_Apply_def Let_def case_prod_beta)
  ultimately show thesis using that by simp
qed

lemma mem_Apply_inv:
  assumes "MemInv H m" "covers ord"
  shows "MemInv H (snd (mem_Apply H ord consumed created m))"
proof (cases "delta_ok (mem_objects m) consumed created")
  case True
  then show ?thesis using mem_Apply_accepts [OF assms] by (metis snd_conv)
next
  case False
  then show ?thesis using mem_Apply_rejects assms(1) by (metis snd_conv)
qed

lemma mem_Simulate_eq:
  assumes inv: "MemInv H m" and ord: "covers ord" "covers ord'"
  shows "mem_Simulate H ord consumed created m = fst (mem_Apply H ord' consumed created m)"
proof (cases "prevalidate (mem_objects m) consumed created")
  case (Inr u)
  then have d: "distinct (map obj_ID created)" by (simp add: prevalidate_iff delta_ok_def)
  have t: "TreeInv H (mem_tree m)" using inv by (simp add: MemInv_def)
  show ?thesis
    using Inr smt_Apply_correct(3) [OF t delta_dom [OF d ord(2), of consumed H]]
      smt_Preview_correct [OF t delta_dom [OF d ord(1), of consumed H]]
    by (simp add: mem_Simulate_def mem_Apply_def Let_def case_prod_beta)
qed (simp add: mem_Simulate_def mem_Apply_def)

lemma mem_Proof_verifies:
  assumes "MemInv H m"
  shows "smt_Verify H (mem_Root m) oid (map_option (\<lambda>o'. be_bytes 32 (Object_Hash H o')) (fst (mem_Proof m oid)))
    (snd (mem_Proof m oid))"
  using smt_complete_values [of H "mem_tree m" oid] assms
  by (simp add: MemInv_def mem_Root_def mem_Proof_def object_values_def)

subsection \<open>Stores that deltas built\<close>

type_synonym delta = "objectid list \<times> Object list"

definition memAfter :: "hashfun \<Rightarrow> key_order \<Rightarrow> delta list \<Rightarrow> Memory" where
  "memAfter H ord ds = foldl (\<lambda>m (consumed, created). snd (mem_Apply H ord consumed created m)) (NewMemory H) ds"

lemma memAfter_snoc: "memAfter H ord (ds @ [(consumed, created)]) = snd (mem_Apply H ord consumed created (memAfter H ord ds))"
  by (simp add: memAfter_def)

lemma memAfter_inv: "covers ord \<Longrightarrow> MemInv H (memAfter H ord ds)"
proof (induction ds rule: rev_induct)
  case Nil
  then show ?case by (simp add: memAfter_def NewMemory_inv)
next
  case (snoc d ds)
  then show ?case using mem_Apply_inv by (cases d) (simp add: memAfter_snoc)
qed

definition sample_object :: "bytes32 \<Rightarrow> Object" where
  "sample_object x = \<lparr>obj_ID = x, obj_Version = 1, obj_Owner = 7, obj_Kind = KindContract, obj_Data = [ucast x]\<rparr>"

lemma object_valid_sample [simp]: "object_valid (sample_object x) \<longleftrightarrow> x \<noteq> 0" "obj_ID (sample_object x) = x"
  by (simp_all add: sample_object_def object_valid_def)

lemma covers_simps [simp]: "covers rev" "covers (\<lambda>ks. ks)"
  by (simp_all add: covers_def)

text \<open>
  C31. After any sequence of deltas, accepted or not, the objects and the tree of the store agree: its root is that of
  the complete tree over the hashes of exactly the objects it holds, each of them valid and stored under its own
  identifier; and the proof it hands out for any identifier is accepted against that root.
\<close>

theorem store_consistent:
  assumes "covers ord"
  shows "mem_Root (memAfter H ord ds) = canonicalRoot H (object_values H (mem_objects (memAfter H ord ds))) \<and>
    (\<forall>oid o'. GetObject (memAfter H ord ds) oid = Some o' \<longrightarrow> obj_ID o' = oid \<and> Object_Validate o' = Inr ()) \<and>
    (\<forall>oid. smt_Verify H (mem_Root (memAfter H ord ds)) oid
       (map_option (\<lambda>o'. be_bytes 32 (Object_Hash H o')) (fst (mem_Proof (memAfter H ord ds) oid)))
       (snd (mem_Proof (memAfter H ord ds) oid)))"
  using memAfter_inv [OF assms, of H ds] mem_Root_canonical [of H "memAfter H ord ds"] mem_Proof_verifies [of H "memAfter H ord ds"]
  by (simp add: MemInv_def objects_ok_def GetObject_def Object_Validate_iff)

theorem store_consistent_witness:
  "GetObject (memAfter toy_hash rev [([], [sample_object 3]), ([3], [sample_object 4])]) 4 = Some (sample_object 4) \<and>
   obj_ID (sample_object 4) = 4 \<and> Object_Validate (sample_object 4) = Inr ()"
proof -
  let ?m = "memAfter toy_hash rev [([], [sample_object 3]), ([3], [sample_object 4])]"
  have "GetObject ?m 4 = Some (sample_object 4)"
    by (simp add: memAfter_def NewMemory_def GetObject_def mem_Apply_def prevalidate_def consume_check_def
        create_check_def Object_Validate_def validateOwnerForKind_def sample_object_def IsZero32_def
        applyMirror_def Let_def case_prod_beta)
  then show ?thesis using store_consistent [of rev toy_hash "[([], [sample_object 3]), ([3], [sample_object 4])]"] by auto
qed

text \<open>
  C32. \<open>Simulate\<close> returns the root and the error that \<open>Apply\<close> would, whatever orders the two
  visit the updates in. \<open>Apply\<close> accepts exactly the deltas that consume distinct present objects and create valid
  objects of distinct identifiers not left in the store; it then installs them, and changes nothing otherwise.
\<close>

theorem simulate_apply:
  assumes "covers ord" "covers ord'" "m = memAfter H ord'' ds" "covers ord''"
  shows "mem_Simulate H ord consumed created m = fst (mem_Apply H ord' consumed created m) \<and>
    (if delta_ok (mem_objects m) consumed created
     then is_ok (snd (fst (mem_Apply H ord' consumed created m))) \<and>
       mem_objects (snd (mem_Apply H ord' consumed created m)) = applyMirror consumed created (mem_objects m)
     else \<not> is_ok (snd (fst (mem_Apply H ord' consumed created m))) \<and> snd (mem_Apply H ord' consumed created m) = m)"
proof -
  have inv: "MemInv H m" using assms(3,4) by (simp add: memAfter_inv)
  show ?thesis
  proof (cases "delta_ok (mem_objects m) consumed created")
    case True
    obtain m' where "mem_Apply H ord' consumed created m = ((mem_Root m', Inr ()), m')"
      "mem_objects m' = applyMirror consumed created (mem_objects m)"
      using mem_Apply_accepts [OF inv assms(2) True] by blast
    then show ?thesis using True mem_Simulate_eq [OF inv assms(1,2), of consumed created] by simp
  next
    case False
    then obtain e where "mem_Apply H ord' consumed created m = ((mem_Root m, Inl e), m)"
      using mem_Apply_rejects by blast
    then show ?thesis using False mem_Simulate_eq [OF inv assms(1,2), of consumed created] by simp
  qed
qed

theorem simulate_apply_witness:
  "mem_Simulate toy_hash rev [] [sample_object 3] (memAfter toy_hash rev []) =
     fst (mem_Apply toy_hash (\<lambda>ks. ks) [] [sample_object 3] (memAfter toy_hash rev [])) \<and>
   mem_objects (snd (mem_Apply toy_hash (\<lambda>ks. ks) [] [sample_object 3] (memAfter toy_hash rev []))) =
     applyMirror [] [sample_object 3] Map.empty"
  using simulate_apply [OF covers_simps(1) covers_simps(2) refl covers_simps(1), of toy_hash "[]" "[sample_object 3]" "[]"]
  by (simp add: delta_ok_def memAfter_def NewMemory_def)

end
