(* ===== verification/DurableState.thy ===== *)
theory DurableState
  imports WorldState Storage
begin

text \<open>
  The object store on disk (\<open>internal/v2/worldstate/durable.go\<close>): a checkpoint file and a log of deltas, from
  which opening the directory rebuilds the store in memory.

  The two files are byte strings. Each write takes its outcome as an argument, and a crash during a write leaves any
  prefix of the bytes being written; the checkpoint is installed by an atomic rename. The directory lock and the errors
  of opening files are the argument \<open>lock\<close> of \<open>OpenDisk\<close>. The checkpoint ranges over a Go map before it sorts: the list
  of its keys in the order visited is an argument. Seeking in a regular file is taken to succeed.

  The lemmas show that the log's records are read back, that a torn tail is cut off, and that after any sequence of
  deltas, checkpoints, failures and crashes opening the directory succeeds and gives the store of exactly the logged
  deltas, as long as no record is written after one that failed; and that it does not otherwise.
\<close>

record Files =
  fs_checkpoint :: "byte list option"
  fs_wal :: "byte list"

record Disk =
  dk_network :: networkid
  dk_mem :: Memory
  dk_objects :: objects
  dk_seq :: u64
  dk_closed :: bool

abbreviation walMagic :: string where "walMagic \<equiv> ''ZWL2''"
abbreviation checkpointMagic :: string where "checkpointMagic \<equiv> ''ZCP2''"
abbreviation persistenceVersion :: u16 where "persistenceVersion \<equiv> 1"
abbreviation maxWALRecordBytes :: nat where "maxWALRecordBytes \<equiv> 67108864"
abbreviation maxCheckpointBytes :: nat where "maxCheckpointBytes \<equiv> 1073741824"
abbreviation maxCheckpointObjects :: nat where "maxCheckpointObjects \<equiv> 10000000"
abbreviation maxDeltaCount :: nat where "maxDeltaCount \<equiv> 1000000"

definition encodeWALPayload :: "networkid \<Rightarrow> u64 \<Rightarrow> objectid list \<Rightarrow> Object list \<Rightarrow> byte list" where
  "encodeWALPayload network seq consumed created =
     w_U16 persistenceVersion @ w_Fixed32 network @ w_U64 seq @
     w_U32 (of_nat (length consumed)) @ concat (map w_Fixed32 consumed) @
     w_U32 (of_nat (length created)) @ concat (map (\<lambda>item. w_Bytes (Object_CanonicalBytes item)) created)"

definition read_object :: "reader \<Rightarrow> (Object \<times> reader) result" where
  "read_object r = r_Sub ErrPersistenceCorrupt 1048704 ParseObject r"

definition parseWALPayload :: "byte list \<Rightarrow> (networkid \<times> u64 \<times> objectid list \<times> Object list) result" where
  "parseWALPayload payload =
     tryAs ErrPersistenceCorrupt (r_U16 payload) (\<lambda>(version, r).
     if version \<noteq> persistenceVersion then Inl ErrPersistenceCorrupt else
     tryAs ErrPersistenceCorrupt (r_Fixed32 r) (\<lambda>(network, r).
     tryAs ErrPersistenceCorrupt (r_U64 r) (\<lambda>(seq, r).
     if seq = 0 then Inl ErrPersistenceCorrupt else
     tryAs ErrPersistenceCorrupt (r_U32 r) (\<lambda>(consumedCount, r).
     if maxDeltaCount < unat consumedCount then Inl ErrPersistenceCorrupt else
     tryAs ErrPersistenceCorrupt (r_many (unat consumedCount) r_Fixed32 r) (\<lambda>(consumed, r).
     tryAs ErrPersistenceCorrupt (r_U32 r) (\<lambda>(createdCount, r).
     if maxDeltaCount < unat createdCount then Inl ErrPersistenceCorrupt else
     tryAs ErrPersistenceCorrupt (r_many (unat createdCount) read_object r) (\<lambda>(created, r).
     tryAs ErrPersistenceCorrupt (r_Done r) (\<lambda>_. Inr (network, seq, consumed, created)))))))))"

text \<open>A record of the log: magic, length, payload, checksum.\<close>

definition wal_frame :: "byte list \<Rightarrow> byte list" where
  "wal_frame payload = str walMagic @ w_U32 (of_nat (length payload)) @ payload @ w_U32 (crc32c payload)"

definition appendWAL :: "byte list \<Rightarrow> io_outcome \<Rightarrow> Files \<Rightarrow> unit result \<times> Files" where
  "appendWAL payload io f =
     (if payload = [] \<or> maxWALRecordBytes < length payload then (Inl ErrPersistenceCorrupt, f)
      else (if io = IoOk then Inr () else Inl ErrIO, f\<lparr>fs_wal := fs_wal f @ written (wal_frame payload) io\<rparr>))"

definition disk_Apply :: "hashfun \<Rightarrow> key_order \<Rightarrow> objectid list \<Rightarrow> Object list \<Rightarrow> io_outcome \<Rightarrow> Disk \<Rightarrow> Files \<Rightarrow>
    (hash \<times> unit result) \<times> Disk \<times> Files" where
  "disk_Apply H ord consumed created io d f =
     (if dk_closed d then ((mem_Root (dk_mem d), Inl ErrPersistenceClosed), d, f)
      else case prevalidate (dk_objects d) consumed created of
        Inl e \<Rightarrow> ((mem_Root (dk_mem d), Inl e), d, f)
      | Inr _ \<Rightarrow>
          let next = dk_seq d + 1;
              payload = encodeWALPayload (dk_network d) next consumed created
          in case appendWAL payload io f of
            (Inl e, f) \<Rightarrow> ((mem_Root (dk_mem d), Inl e), d, f)
          | (Inr _, f) \<Rightarrow>
              (case mem_Apply H ord consumed created (dk_mem d) of
                 ((_, Inl e), mem) \<Rightarrow> ((mem_Root mem, Inl ErrPersistenceCorrupt), d\<lparr>dk_mem := mem\<rparr>, f)
               | ((root, Inr _), mem) \<Rightarrow>
                   ((root, Inr ()),
                    d\<lparr>dk_mem := mem, dk_objects := applyMirror consumed created (dk_objects d), dk_seq := next\<rparr>, f)))"

datatype wal_read = WalEnd | WalTorn | WalCorrupt | WalRecord "byte list" "byte list"

definition read_record :: "byte list \<Rightarrow> wal_read" where
  "read_record rest =
     (if rest = [] then WalEnd
      else if length rest < 8 then WalTorn
      else if take 4 rest \<noteq> str walMagic then WalCorrupt
      else
        let len = unat (from_be (take 4 (drop 4 rest)) :: u32); body = drop 8 rest
        in if len = 0 \<or> maxWALRecordBytes < len then WalCorrupt
           else if length body < len then WalTorn
           else
             let payload = take len body; tail = drop len body
             in if length tail < 4 then WalTorn
                else if (from_be (take 4 tail) :: u32) \<noteq> crc32c payload then WalCorrupt
                else WalRecord payload (drop 4 tail))"

lemma read_record_shorter: "read_record rest = WalRecord payload rest' \<Longrightarrow> length rest' < length rest"
  by (auto simp: read_record_def Let_def split: if_splits)

text \<open>What a record does to the store; a record of the checkpoint or before is skipped.\<close>

definition replay_record :: "hashfun \<Rightarrow> key_order \<Rightarrow> Disk \<Rightarrow> byte list \<Rightarrow> Disk result" where
  "replay_record H ord d payload =
     tryE (parseWALPayload payload) (\<lambda>(network, seq, consumed, created).
     if network \<noteq> dk_network d then Inl ErrPersistenceNetwork
     else if seq \<le> dk_seq d then Inr d
     else if seq \<noteq> dk_seq d + 1 then Inl ErrPersistenceCorrupt
     else if \<not> is_ok (prevalidate (dk_objects d) consumed created) then Inl ErrPersistenceCorrupt
     else case mem_Apply H ord consumed created (dk_mem d) of
       ((_, Inl e), _) \<Rightarrow> Inl ErrPersistenceCorrupt
     | ((_, Inr _), mem) \<Rightarrow>
         Inr (d\<lparr>dk_mem := mem, dk_objects := applyMirror consumed created (dk_objects d), dk_seq := seq\<rparr>))"

text \<open>The result has the offset at which a torn tail is cut off.\<close>

function replay_loop :: "hashfun \<Rightarrow> key_order \<Rightarrow> Disk \<Rightarrow> nat \<Rightarrow> byte list \<Rightarrow> (Disk \<times> nat option) result" where
  "replay_loop H ord d offset rest =
     (case read_record rest of
        WalEnd \<Rightarrow> Inr (d, None)
      | WalTorn \<Rightarrow> Inr (d, Some offset)
      | WalCorrupt \<Rightarrow> Inl ErrPersistenceCorrupt
      | WalRecord payload rest' \<Rightarrow>
          (case replay_record H ord d payload of
             Inl e \<Rightarrow> Inl e
           | Inr d \<Rightarrow> replay_loop H ord d (offset + (8 + length payload + 4)) rest'))"
  by pat_completeness auto

termination replay_loop
  by (relation "measure (\<lambda>(H, ord, d, offset, rest). length rest)") (auto dest: read_record_shorter)

declare replay_loop.simps [simp del]

definition replayWAL :: "hashfun \<Rightarrow> key_order \<Rightarrow> Disk \<Rightarrow> Files \<Rightarrow> Disk result \<times> Files" where
  "replayWAL H ord d f =
     (case replay_loop H ord d 0 (fs_wal f) of
        Inl e \<Rightarrow> (Inl e, f)
      | Inr (d, None) \<Rightarrow> (Inr d, f)
      | Inr (d, Some offset) \<Rightarrow> (Inr d, f\<lparr>fs_wal := take offset (fs_wal f)\<rparr>))"

definition load_objects :: "hashfun \<Rightarrow> key_order \<Rightarrow> Object list \<Rightarrow> Memory \<Rightarrow> Memory result" where
  "load_objects H ord objects mem =
     (if objects = [] then Inr mem
      else case mem_Apply H ord [] objects mem of
        ((_, Inl e), _) \<Rightarrow> Inl ErrPersistenceCorrupt
      | ((_, Inr _), mem) \<Rightarrow> Inr mem)"

definition parse_checkpoint :: "hashfun \<Rightarrow> key_order \<Rightarrow> byte list \<Rightarrow> Disk \<Rightarrow> Disk result" where
  "parse_checkpoint H ord payload d =
     tryAs ErrPersistenceCorrupt (r_U16 payload) (\<lambda>(version, r).
     if version \<noteq> persistenceVersion then Inl ErrPersistenceCorrupt else
     tryAs ErrPersistenceCorrupt (r_Fixed32 r) (\<lambda>(network, r).
     if network \<noteq> dk_network d then Inl ErrPersistenceNetwork else
     tryAs ErrPersistenceCorrupt (r_U64 r) (\<lambda>(seq, r).
     tryAs ErrPersistenceCorrupt (r_U32 r) (\<lambda>(count, r).
     if maxCheckpointObjects < unat count then Inl ErrPersistenceCorrupt else
     tryAs ErrPersistenceCorrupt (r_many (unat count) read_object r) (\<lambda>(objects, r).
     tryAs ErrPersistenceCorrupt (r_Fixed32 r) (\<lambda>(expectedRoot, r).
     tryAs ErrPersistenceCorrupt (r_Done r) (\<lambda>_.
     tryE (load_objects H ord objects (dk_mem d)) (\<lambda>mem.
     if mem_Root mem \<noteq> expectedRoot then Inl ErrPersistenceCorrupt
     else Inr (d\<lparr>dk_mem := mem, dk_objects := foldl (\<lambda>m item. m(obj_ID item \<mapsto> item)) (dk_objects d) objects,
                 dk_seq := seq\<rparr>)))))))))"

definition loadCheckpoint :: "hashfun \<Rightarrow> key_order \<Rightarrow> Files \<Rightarrow> Disk \<Rightarrow> Disk result" where
  "loadCheckpoint H ord f d =
     (case fs_checkpoint f of
        None \<Rightarrow> Inr d
      | Some raw \<Rightarrow>
          if length raw < 4 + 4 + 32 \<or> take 4 raw \<noteq> str checkpointMagic then Inl ErrPersistenceCorrupt
          else
            let len = unat (from_be (take 4 (drop 4 raw)) :: u32)
            in if len = 0 \<or> maxCheckpointBytes < len \<or> length raw \<noteq> 8 + len + 32 then Inl ErrPersistenceCorrupt
               else
                 let payload = take len (drop 8 raw);
                     digest = DomainHash H ''zephyr/state-checkpoint/v2'' payload
                 in if be_bytes 32 digest \<noteq> drop (8 + len) raw then Inl ErrPersistenceCorrupt
                    else parse_checkpoint H ord payload d)"

definition new_disk :: "hashfun \<Rightarrow> networkid \<Rightarrow> Disk" where
  "new_disk H network =
     \<lparr>dk_network = network, dk_mem = NewMemory H, dk_objects = Map.empty, dk_seq = 0, dk_closed = False\<rparr>"

definition OpenDisk :: "hashfun \<Rightarrow> key_order \<Rightarrow> networkid \<Rightarrow> error option \<Rightarrow> Files \<Rightarrow> Disk result \<times> Files" where
  "OpenDisk H ord network lock f =
     (if IsZero32 network then (Inl ErrPersistenceNetwork, f)
      else case lock of
        Some e \<Rightarrow> (Inl e, f)
      | None \<Rightarrow>
          (case loadCheckpoint H ord f (new_disk H network) of
             Inl e \<Rightarrow> (Inl e, f)
           | Inr d \<Rightarrow> replayWAL H ord d f))"

definition checkpoint_payload :: "objectid list \<Rightarrow> Disk \<Rightarrow> byte list" where
  "checkpoint_payload ks d =
     (let objects = sort_key obj_ID (map (\<lambda>k. the (dk_objects d k)) ks)
      in w_U16 persistenceVersion @ w_Fixed32 (dk_network d) @ w_U64 (dk_seq d) @
         w_U32 (of_nat (length objects)) @ concat (map (\<lambda>item. w_Bytes (Object_CanonicalBytes item)) objects) @
         w_Fixed32 (mem_Root (dk_mem d)))"

definition checkpoint_file :: "hashfun \<Rightarrow> byte list \<Rightarrow> byte list" where
  "checkpoint_file H rawPayload =
     str checkpointMagic @ w_U32 (of_nat (length rawPayload)) @ rawPayload @
     be_bytes 32 (DomainHash H ''zephyr/state-checkpoint/v2'' rawPayload)"

text \<open>How far a checkpoint gets: to the temporary file, the rename, the directory sync, the truncation, the last sync.\<close>

datatype ck_outcome = CkTmpFails | CkRenameFails | CkDirSyncFails | CkTruncateFails | CkWalSyncFails | CkOk

definition Checkpoint :: "hashfun \<Rightarrow> objectid list \<Rightarrow> ck_outcome \<Rightarrow> Disk \<Rightarrow> Files \<Rightarrow> unit result \<times> Files" where
  "Checkpoint H ks io d f =
     (if dk_closed d then (Inl ErrPersistenceClosed, f)
      else
        let installed = f\<lparr>fs_checkpoint := Some (checkpoint_file H (checkpoint_payload ks d))\<rparr>
        in case io of
          CkTmpFails \<Rightarrow> (Inl ErrIO, f)
        | CkRenameFails \<Rightarrow> (Inl ErrIO, f)
        | CkDirSyncFails \<Rightarrow> (Inl ErrIO, installed)
        | CkTruncateFails \<Rightarrow> (Inl ErrIO, installed)
        | CkWalSyncFails \<Rightarrow> (Inl ErrIO, installed\<lparr>fs_wal := []\<rparr>)
        | CkOk \<Rightarrow> (Inr (), installed\<lparr>fs_wal := []\<rparr>))"

definition disk_Close :: "Disk \<Rightarrow> Disk" where
  "disk_Close d = (if dk_closed d then d else d\<lparr>dk_closed := True\<rparr>)"


subsection \<open>Records and checkpoints on disk\<close>

interpretation ObjectField: wire_format "\<lambda>item. w_Bytes (Object_CanonicalBytes item)" read_object object_valid
proof
  fix r x s
  show "read_object r = Inr (x, s) \<longleftrightarrow> object_valid x \<and> r = w_Bytes (Object_CanonicalBytes x) @ s"
    by (auto simp: read_object_def ObjectWire.r_Sub_iff length_Object_CanonicalBytes object_valid_def)
qed

text \<open>What the parser of a record demands of a delta.\<close>

definition delta_fits :: "networkid \<Rightarrow> u64 \<Rightarrow> delta \<Rightarrow> bool" where
  "delta_fits nw seq d \<longleftrightarrow> (case d of (consumed, created) \<Rightarrow>
     seq \<noteq> 0 \<and> length consumed \<le> maxDeltaCount \<and> length created \<le> maxDeltaCount \<and> list_all object_valid created \<and>
     length (encodeWALPayload nw seq consumed created) \<le> maxWALRecordBytes)"

lemma parseWALPayload_iff:
  "parseWALPayload bs = Inr (network, seq, consumed, created) \<longleftrightarrow>
     seq \<noteq> 0 \<and> length consumed \<le> maxDeltaCount \<and> length created \<le> maxDeltaCount \<and> list_all object_valid created \<and>
     bs = encodeWALPayload network seq consumed created"
proof -
  have count: "n \<le> maxDeltaCount \<Longrightarrow> unat (of_nat n :: u32) = n" for n
    by (rule unat_of_nat_small) simp
  show ?thesis (is "?L \<longleftrightarrow> ?R")
  proof
    assume ?L
    then show ?R
      by (auto simp: parseWALPayload_def encodeWALPayload_def wire_iff Fixed32.r_many_iff ObjectField.r_many_iff)
  next
    assume r: ?R
    then show ?L
      using count [of "length consumed"] count [of "length created"] Fixed32.many_back [of consumed] ObjectField.many_back_end [of created]
      by (simp add: parseWALPayload_def encodeWALPayload_def)
  qed
qed

lemma encodeWALPayload_ne: "encodeWALPayload network seq consumed created \<noteq> []"
  by (auto simp: encodeWALPayload_def dest: arg_cong [of _ _ length])

lemma length_wal_frame: "length (wal_frame payload) = 12 + length payload"
  by (simp add: wal_frame_def)

lemma wal_frame_ne [simp]: "wal_frame payload \<noteq> []"
  using length_wal_frame [of payload] by auto

lemma read_record_frame:
  assumes "payload \<noteq> []" "length payload \<le> maxWALRecordBytes"
  shows "read_record (wal_frame payload @ rest) = WalRecord payload rest"
proof -
  have len: "unat (of_nat (length payload) :: u32) = length payload"
    using assms(2) by (intro unat_of_nat_small) simp
  have t: "take 4 (w_U32 x @ r) = w_U32 x" "drop 4 (w_U32 x @ r) = r" "from_be (w_U32 x) = x" for x r
    by (simp_all add: w_U32_def from_be_be_bytes_full)
  show ?thesis
    using assms by (simp add: read_record_def wal_frame_def Let_def len t)
qed

lemma read_record_torn:
  assumes "n < length (wal_frame payload)" "payload \<noteq> []" "length payload \<le> maxWALRecordBytes"
  shows "read_record (take n (wal_frame payload)) = (if n = 0 then WalEnd else WalTorn)"
proof (cases "n < 8")
  case True
  then show ?thesis using assms by (simp add: read_record_def length_wal_frame)
next
  case False
  let ?t = "take n (wal_frame payload)"
  have len: "unat (of_nat (length payload) :: u32) = length payload"
    using assms(3) by (intro unat_of_nat_small) simp
  have "take 4 ?t = str walMagic" "take 4 (drop 4 ?t) = w_U32 (of_nat (length payload))"
    "drop 8 ?t = take (n - 8) (payload @ w_U32 (crc32c payload))"
    using False by (simp_all add: wal_frame_def drop_take take_Cons' min_def)
  then show ?thesis
    using False assms
    by (simp add: read_record_def Let_def length_wal_frame w_U32_def from_be_be_bytes_full len)
qed


subsection \<open>Replaying the log\<close>

text \<open>The objects that a list of deltas leaves, and a list of deltas each of which the store admits.\<close>

definition deltas_objects :: "delta list \<Rightarrow> objects" where
  "deltas_objects ds = foldl (\<lambda>objs (consumed, created). applyMirror consumed created objs) Map.empty ds"

lemma deltas_objects_snoc [simp]: "deltas_objects (ds @ [(c, o')]) = applyMirror c o' (deltas_objects ds)"
  by (simp add: deltas_objects_def)

definition history_ok :: "networkid \<Rightarrow> delta list \<Rightarrow> bool" where
  "history_ok nw ds \<longleftrightarrow> length ds < 2 ^ 64 \<and>
     (\<forall>n < length ds. (case ds ! n of (c, o') \<Rightarrow> delta_ok (deltas_objects (take n ds)) c o') \<and> delta_fits nw (of_nat (Suc n)) (ds ! n))"

primrec wal_bytes :: "networkid \<Rightarrow> nat \<Rightarrow> delta list \<Rightarrow> byte list" where
  "wal_bytes nw n [] = []"
| "wal_bytes nw n (d # ds) =
     (case d of (consumed, created) \<Rightarrow> wal_frame (encodeWALPayload nw (of_nat (Suc n)) consumed created)) @ wal_bytes nw (Suc n) ds"

text \<open>An open store that holds exactly the given deltas.\<close>

definition disk_at :: "hashfun \<Rightarrow> networkid \<Rightarrow> Disk \<Rightarrow> delta list \<Rightarrow> bool" where
  "disk_at H nw d ds \<longleftrightarrow> dk_network d = nw \<and> \<not> dk_closed d \<and> MemInv H (dk_mem d) \<and> mem_objects (dk_mem d) = deltas_objects ds \<and>
     dk_objects d = deltas_objects ds \<and> dk_seq d = of_nat (length ds)"

lemma history_ok_nth:
  assumes "history_ok nw (hs0 @ (consumed, created) # ds)"
  shows "delta_ok (deltas_objects hs0) consumed created" "delta_fits nw (of_nat (Suc (length hs0))) (consumed, created)"
    "length hs0 < 2 ^ 64 - 1"
  using assms by (auto simp: history_ok_def dest!: spec [of _ "length hs0"])

lemma of_nat_le_64: "m < 2 ^ 64 \<Longrightarrow> n < 2 ^ 64 \<Longrightarrow> (of_nat m :: u64) \<le> of_nat n \<longleftrightarrow> m \<le> n"
  by (simp add: word_le_nat_alt unat_of_nat_small)

lemma replay_record_next:
  assumes "disk_at H nw d hs0" "covers ord" "history_ok nw (hs0 @ (consumed, created) # ds)"
  obtains d' where "replay_record H ord d (encodeWALPayload nw (of_nat (Suc (length hs0))) consumed created) = Inr d'"
    "disk_at H nw d' (hs0 @ [(consumed, created)])"
proof -
  note h = history_ok_nth [OF assms(3)]
  have d: "dk_network d = nw" "MemInv H (dk_mem d)" "mem_objects (dk_mem d) = deltas_objects hs0"
      "dk_objects d = deltas_objects hs0" "dk_seq d = of_nat (length hs0)" "\<not> dk_closed d"
    using assms(1) by (simp_all add: disk_at_def)
  have "parseWALPayload (encodeWALPayload nw (of_nat (Suc (length hs0))) consumed created) =
      Inr (nw, of_nat (Suc (length hs0)), consumed, created)"
    using h(2) by (simp only: parseWALPayload_iff) (simp add: delta_fits_def)
  moreover have "\<not> (of_nat (Suc (length hs0)) :: u64) \<le> of_nat (length hs0)"
    using of_nat_le_64 [of "Suc (length hs0)" "length hs0"] h(3) by simp
  moreover obtain m' where m': "mem_Apply H ord consumed created (dk_mem d) = ((mem_Root m', Inr ()), m')" "MemInv H m'"
      "mem_objects m' = applyMirror consumed created (deltas_objects hs0)"
    using mem_Apply_accepts [OF d(2) assms(2), of consumed created] h(1) d(3) by metis
  moreover have "is_ok (prevalidate (deltas_objects hs0) consumed created)"
    using h(1) by (simp add: is_ok_iff prevalidate_iff)
  ultimately show thesis
    using d by (intro that [of "d\<lparr>dk_mem := m', dk_objects := applyMirror consumed created (dk_objects d),
          dk_seq := of_nat (Suc (length hs0))\<rparr>"]) (simp_all add: replay_record_def disk_at_def add.commute)
qed

lemma replay_record_skip:
  assumes "disk_at H nw d hs" "history_ok nw (hs0 @ (consumed, created) # ds)" "length hs0 < length hs" "length hs < 2 ^ 64"
  shows "replay_record H ord d (encodeWALPayload nw (of_nat (Suc (length hs0))) consumed created) = Inr d"
proof -
  note h = history_ok_nth [OF assms(2)]
  have "parseWALPayload (encodeWALPayload nw (of_nat (Suc (length hs0))) consumed created) =
      Inr (nw, of_nat (Suc (length hs0)), consumed, created)"
    using h(2) by (simp only: parseWALPayload_iff) (simp add: delta_fits_def)
  moreover have "(of_nat (Suc (length hs0)) :: u64) \<le> of_nat (length hs)"
    using of_nat_le_64 [of "Suc (length hs0)" "length hs"] assms(3,4) by simp
  ultimately show ?thesis using assms(1) by (simp add: replay_record_def disk_at_def)
qed

lemma length_wal_bytes_Cons:
  "length (wal_bytes nw n ((c, o') # ds)) = 12 + length (encodeWALPayload nw (of_nat (Suc n)) c o') + length (wal_bytes nw (Suc n) ds)"
  by (simp add: length_wal_frame)

definition torn_tail :: "byte list \<Rightarrow> bool" where
  "torn_tail tail \<longleftrightarrow> read_record tail = (if tail = [] then WalEnd else WalTorn)"

lemma replay_loop_history:
  assumes "covers ord" "torn_tail tail" "history_ok nw (hs0 @ ds)" "disk_at H nw d (hs0 @ take m ds)"
  shows "\<exists>d'. replay_loop H ord d off (wal_bytes nw (length hs0) ds @ tail) =
      Inr (d', if tail = [] then None else Some (off + length (wal_bytes nw (length hs0) ds))) \<and> disk_at H nw d' (hs0 @ ds)"
  using assms(3,4)
proof (induction ds arbitrary: hs0 d off m)
  case Nil
  then show ?case using assms(2) by (simp add: replay_loop.simps [of H ord d off tail] torn_tail_def)
next
  case (Cons x ds)
  obtain c o' where x: "x = (c, o')" by (cases x)
  let ?p = "encodeWALPayload nw (of_nat (Suc (length hs0))) c o'"
  note h = history_ok_nth [OF Cons.prems(1) [unfolded x]]
  have rr: "read_record (wal_bytes nw (length hs0) (x # ds) @ tail) = WalRecord ?p (wal_bytes nw (Suc (length hs0)) ds @ tail)"
    using h(2) encodeWALPayload_ne read_record_frame [of ?p] by (simp add: x delta_fits_def)
  obtain d1 m1 where d1: "replay_record H ord d ?p = Inr d1" "disk_at H nw d1 ((hs0 @ [x]) @ take m1 ds)"
  proof (cases m)
    case 0
    then have "disk_at H nw d hs0" using Cons.prems(2) by simp
    from replay_record_next [OF this assms(1) Cons.prems(1) [unfolded x]] obtain d' where
      "replay_record H ord d ?p = Inr d'" "disk_at H nw d' (hs0 @ [(c, o')])" .
    then show thesis using that [of d' 0] by (simp add: x)
  next
    case (Suc k)
    have "length (hs0 @ take m (x # ds)) \<le> length (hs0 @ x # ds)" by simp
    moreover have "length (hs0 @ x # ds) < 2 ^ 64" using Cons.prems(1) unfolding history_ok_def by blast
    ultimately have "length (hs0 @ take m (x # ds)) < 2 ^ 64" by linarith
    then have "replay_record H ord d ?p = Inr d"
      by (intro replay_record_skip [OF Cons.prems(2) Cons.prems(1) [unfolded x]]) (simp_all add: Suc)
    then show thesis using that [of d k] Cons.prems(2) by (simp add: Suc)
  qed
  have "history_ok nw ((hs0 @ [x]) @ ds)" using Cons.prems(1) by simp
  from Cons.IH [OF this d1(2), of "off + (8 + length ?p + 4)"]
  show ?case
    using rr d1(1) by (simp add: replay_loop.simps [of H ord d off] x length_wal_frame add.assoc add.left_commute [of 12] cong: if_cong)
qed


subsection \<open>Loading a checkpoint\<close>

definition sorted_objects :: "objectid list \<Rightarrow> objects \<Rightarrow> Object list" where
  "sorted_objects ks objs = sort_key obj_ID (map (\<lambda>k. the (objs k)) ks)"

lemma sorted_objects:
  assumes "objects_ok objs" "distinct ks" "set ks = dom objs"
  shows "list_all object_valid (sorted_objects ks objs)" "distinct (map obj_ID (sorted_objects ks objs))"
    "created_at (sorted_objects ks objs) = objs" "length (sorted_objects ks objs) = length ks"
proof -
  let ?os = "sorted_objects ks objs"
  have at: "k \<in> set ks \<Longrightarrow> objs k = Some (the (objs k))" for k using assms(3) by auto
  have ident: "k \<in> set ks \<Longrightarrow> obj_ID (the (objs k)) = k \<and> object_valid (the (objs k))" for k
    using at [of k] assms(1) unfolding objects_ok_def by blast
  have set: "set ?os = (\<lambda>k. the (objs k)) ` set ks" by (simp add: sorted_objects_def)
  show "list_all object_valid ?os" using ident by (auto simp: list_all_iff set)
  have "map obj_ID (map (\<lambda>k. the (objs k)) ks) = ks" using ident by (simp add: map_idI)
  then have "mset ks = image_mset obj_ID (mset (map (\<lambda>k. the (objs k)) ks))" by (simp only: mset_map [symmetric])
  also have "\<dots> = mset (map obj_ID ?os)" by (simp only: mset_map [of obj_ID] sorted_objects_def mset_sort)
  finally have "mset (map obj_ID ?os) = mset ks" by simp
  then show d: "distinct (map obj_ID ?os)" using assms(2) mset_eq_imp_distinct_iff by blast
  show "length ?os = length ks" by (simp add: sorted_objects_def)
  show "created_at ?os = objs"
  proof
    fix k
    show "created_at ?os k = objs k"
    proof (cases "k \<in> set ks")
      case True
      then have "k \<in> obj_ID ` set ?os" using ident by (force simp: set)
      then obtain o' where o': "created_at ?os k = Some o'" using dom_created_at [of ?os] by auto
      then obtain k' where "k' \<in> set ks" "o' = the (objs k')" "obj_ID o' = k" using created_at_Some set by blast
      then show ?thesis using o' ident at True by auto
    next
      case False
      then have "k \<notin> obj_ID ` set ?os" using ident by (auto simp: set)
      then have "created_at ?os k = None" using dom_created_at [of ?os] by (auto simp: domIff)
      then show ?thesis using False assms(3) by auto
    qed
  qed
qed

definition checkpoint_fits :: "objectid list \<Rightarrow> Disk \<Rightarrow> bool" where
  "checkpoint_fits ks d \<longleftrightarrow> length (checkpoint_payload ks d) \<le> maxCheckpointBytes \<and> length ks \<le> maxCheckpointObjects"

lemma load_objects_ok:
  assumes "covers ord" "list_all object_valid os" "distinct (map obj_ID os)"
  obtains m where "load_objects H ord os (NewMemory H) = Inr m" "MemInv H m" "mem_objects m = created_at os"
proof (cases "os = []")
  case True
  then show thesis using that [of "NewMemory H"] NewMemory_inv
    by (simp add: load_objects_def) (simp add: NewMemory_def created_at_def fun_eq_iff)
next
  case False
  have ok: "delta_ok (mem_objects (NewMemory H)) [] os" using assms(2,3) by (simp add: delta_ok_def NewMemory_def)
  obtain m where "mem_Apply H ord [] os (NewMemory H) = ((mem_Root m, Inr ()), m)" "MemInv H m"
    "mem_objects m = applyMirror [] os (mem_objects (NewMemory H))"
    using mem_Apply_accepts [OF NewMemory_inv assms(1) ok] .
  then show thesis
    using that [of m] False by (simp add: load_objects_def applyMirror_eq [OF assms(3)] NewMemory_def)
qed

lemma parse_checkpoint_ok:
  assumes at: "disk_at H nw d hs" and ks: "distinct ks" "set ks = dom (dk_objects d)" and fits: "checkpoint_fits ks d"
    and ord: "covers ord"
  obtains d' where "parse_checkpoint H ord (checkpoint_payload ks d) (new_disk H nw) = Inr d'" "disk_at H nw d' hs"
proof -
  let ?os = "sorted_objects ks (dk_objects d)"
  have "objects_ok (dk_objects d)" using at unfolding disk_at_def MemInv_def by metis
  note os = sorted_objects [OF this ks]
  have count: "unat (of_nat (length ?os) :: u32) = length ?os"
    using fits os(4) by (intro unat_of_nat_small) (simp add: checkpoint_fits_def)
  obtain m where m: "load_objects H ord ?os (NewMemory H) = Inr m" "MemInv H m" "mem_objects m = dk_objects d"
    using load_objects_ok [OF ord os(1,2)] os(3) by metis
  have root: "mem_Root m = mem_Root (dk_mem d)"
    using mem_Root_canonical [OF m(2)] mem_Root_canonical [of H "dk_mem d"] at m(3) by (simp add: disk_at_def)
  have objs: "foldl (\<lambda>m item. m(obj_ID item \<mapsto> item)) Map.empty ?os = dk_objects d"
    using applyMirror_eq [OF os(2), of "[]" Map.empty] os(3) by (simp add: applyMirror_def)
  have "dk_network d = nw" using at by (simp add: disk_at_def)
  then have "parse_checkpoint H ord (checkpoint_payload ks d) (new_disk H nw) =
      Inr ((new_disk H nw)\<lparr>dk_mem := m, dk_objects := dk_objects d, dk_seq := dk_seq d\<rparr>)"
    using fits os m(1) root objs count ObjectField.many_back [OF os(1)]
    by (simp add: parse_checkpoint_def checkpoint_payload_def new_disk_def checkpoint_fits_def Let_def flip: sorted_objects_def)
  then show thesis
    using that at m by (simp add: disk_at_def new_disk_def)
qed

lemma loadCheckpoint_ok:
  assumes "fs_checkpoint f = Some (checkpoint_file H (checkpoint_payload ks d))" "checkpoint_fits ks d"
  shows "loadCheckpoint H ord f d0 = parse_checkpoint H ord (checkpoint_payload ks d) d0"
proof -
  let ?p = "checkpoint_payload ks d"
  have ne: "?p \<noteq> []" by (auto simp: checkpoint_payload_def Let_def dest: arg_cong [of _ _ length])
  have len: "unat (of_nat (length ?p) :: u32) = length ?p"
    using assms(2) by (intro unat_of_nat_small) (simp add: checkpoint_fits_def)
  have t: "take 4 (w_U32 x @ r) = w_U32 x" "drop 4 (w_U32 x @ r) = r" "from_be (w_U32 x) = x" for x r
    by (simp_all add: w_U32_def from_be_be_bytes_full)
  show ?thesis
    using assms ne by (simp add: loadCheckpoint_def checkpoint_file_def Let_def len t checkpoint_fits_def)
qed


subsection \<open>The store and its crashes\<close>

text \<open>
  The history is the list of the deltas that the files hold, oldest first: those whose records are complete. The live
  deltas are those that the open store has applied. The store has failed when a write or sync of \<open>Apply\<close> failed and the
  process went on: then the log may hold a part of a record, or a whole one, that the live store does not.
\<close>

record Store =
  so_files :: Files
  so_disk :: "Disk option"
  so_history :: "delta list"
  so_live :: "delta list"
  so_failed :: bool

definition initial_store :: Store where
  "initial_store = \<lparr>so_files = \<lparr>fs_checkpoint = None, fs_wal = []\<rparr>, so_disk = None, so_history = [], so_live = [], so_failed = False\<rparr>"

text \<open>
  The limits that the code reads back with but does not check when it writes: the number of
  consumed objects of a delta, the sequence number, and the size of a checkpoint.
\<close>

definition delta_small :: "Disk \<Rightarrow> objectid list \<Rightarrow> bool" where
  "delta_small d consumed \<longleftrightarrow> length consumed \<le> maxDeltaCount \<and> dk_seq d + 1 \<noteq> 0"

definition record_complete :: "Disk \<Rightarrow> objectid list \<Rightarrow> Object list \<Rightarrow> Files \<Rightarrow> Files \<Rightarrow> bool" where
  "record_complete d consumed created f f' \<longleftrightarrow>
     fs_wal f' = fs_wal f @ wal_frame (encodeWALPayload (dk_network d) (dk_seq d + 1) consumed created)"

text \<open>
  A step is one call with any outcome of its reads and writes, or a crash. A crash during a call is the call with the
  writes it got to, and then the crash. One thing is left out: after a failed \<open>Apply\<close> no other record is written before
  the store is checkpointed or opened again. A checkpoint that empties the log drops what a failed \<open>Apply\<close> left there.
\<close>

inductive disk_step :: "hashfun \<Rightarrow> key_order \<Rightarrow> networkid \<Rightarrow> Store \<Rightarrow> Store \<Rightarrow> bool" for H ord nw where
  open_ok: "so_disk s = None \<Longrightarrow> OpenDisk H ord nw lock (so_files s) = (Inr d, f) \<Longrightarrow>
     disk_step H ord nw s (s\<lparr>so_files := f, so_disk := Some d, so_live := so_history s, so_failed := False\<rparr>)"
| open_error: "so_disk s = None \<Longrightarrow> OpenDisk H ord nw lock (so_files s) = (Inl e, f) \<Longrightarrow>
     disk_step H ord nw s (s\<lparr>so_files := f\<rparr>)"
| apply_delta: "so_disk s = Some d \<Longrightarrow> delta_small d consumed \<Longrightarrow>
     disk_Apply H ord consumed created io d (so_files s) = ((root, res), d', f) \<Longrightarrow> (so_failed s \<Longrightarrow> f = so_files s) \<Longrightarrow>
     disk_step H ord nw s
       (s\<lparr>so_files := f, so_disk := Some d',
          so_history := so_history s @ (if record_complete d consumed created (so_files s) f then [(consumed, created)] else []),
          so_live := so_live s @ (if is_ok res then [(consumed, created)] else []),
          so_failed := so_failed s \<or> res = Inl ErrIO\<rparr>)"
| checkpoint: "so_disk s = Some d \<Longrightarrow> distinct ks \<Longrightarrow> set ks = dom (dk_objects d) \<Longrightarrow> checkpoint_fits ks d \<Longrightarrow>
     Checkpoint H ks io d (so_files s) = (res, f) \<Longrightarrow>
     disk_step H ord nw s
       (s\<lparr>so_files := f, so_history := if fs_wal f = [] then so_live s else so_history s, so_failed := so_failed s \<and> fs_wal f \<noteq> []\<rparr>)"
| close: "so_disk s = Some d \<Longrightarrow> disk_step H ord nw s (s\<lparr>so_disk := Some (disk_Close d)\<rparr>)"
| crash: "disk_step H ord nw s (s\<lparr>so_disk := None\<rparr>)"

inductive disk_reach :: "hashfun \<Rightarrow> key_order \<Rightarrow> networkid \<Rightarrow> Store \<Rightarrow> bool" for H ord nw where
  start: "disk_reach H ord nw initial_store"
| step: "disk_reach H ord nw s \<Longrightarrow> disk_step H ord nw s s' \<Longrightarrow> disk_reach H ord nw s'"

text \<open>
  The checkpoint holds the first \<open>k\<close> deltas of the history, and the log all of them from some \<open>j\<close> up
  to \<open>k\<close> on, perhaps followed by a torn record.
\<close>

definition checkpoint_holds :: "hashfun \<Rightarrow> networkid \<Rightarrow> Files \<Rightarrow> delta list \<Rightarrow> bool" where
  "checkpoint_holds H nw f hs \<longleftrightarrow>
     fs_checkpoint f = None \<and> hs = [] \<or>
     (\<exists>ks d. fs_checkpoint f = Some (checkpoint_file H (checkpoint_payload ks d)) \<and> disk_at H nw d hs \<and>
        distinct ks \<and> set ks = dom (dk_objects d) \<and> checkpoint_fits ks d)"

definition files_hold :: "hashfun \<Rightarrow> networkid \<Rightarrow> Files \<Rightarrow> delta list \<Rightarrow> nat \<Rightarrow> nat \<Rightarrow> byte list \<Rightarrow> bool" where
  "files_hold H nw f hist j k tail \<longleftrightarrow>
     j \<le> k \<and> k \<le> length hist \<and> history_ok nw hist \<and> torn_tail tail \<and>
     checkpoint_holds H nw f (take k hist) \<and> fs_wal f = wal_bytes nw j (drop j hist) @ tail"

lemma torn_tail_Nil [simp]: "torn_tail []"
  by (simp add: torn_tail_def read_record_def)

lemma loadCheckpoint_holds:
  assumes "checkpoint_holds H nw f hs" "covers ord"
  shows "\<exists>d. loadCheckpoint H ord f (new_disk H nw) = Inr d \<and> disk_at H nw d hs"
  using assms(1) unfolding checkpoint_holds_def
proof (elim disjE exE conjE)
  assume "fs_checkpoint f = None" "hs = []"
  then show ?thesis
    by (simp add: loadCheckpoint_def disk_at_def new_disk_def NewMemory_inv deltas_objects_def) (simp add: NewMemory_def)
next
  fix ks d
  assume c: "fs_checkpoint f = Some (checkpoint_file H (checkpoint_payload ks d))" "checkpoint_fits ks d"
    and d: "disk_at H nw d hs" "distinct ks" "set ks = dom (dk_objects d)"
  obtain d' where "parse_checkpoint H ord (checkpoint_payload ks d) (new_disk H nw) = Inr d'" "disk_at H nw d' hs"
    using parse_checkpoint_ok [OF d c(2) assms(2)] .
  then show ?thesis using loadCheckpoint_ok [OF c] by simp
qed

lemma open_holds:
  assumes "files_hold H nw f hist j k tail" "covers ord" "nw \<noteq> 0"
  shows "\<exists>d f'. OpenDisk H ord nw None f = (Inr d, f') \<and> disk_at H nw d hist \<and> files_hold H nw f' hist j k []"
proof -
  let ?w = "wal_bytes nw j (drop j hist)"
  have f: "j \<le> k" "k \<le> length hist" "history_ok nw hist" "torn_tail tail" "checkpoint_holds H nw f (take k hist)"
      "fs_wal f = ?w @ tail"
    using assms(1) by (simp_all add: files_hold_def)
  obtain d where d: "loadCheckpoint H ord f (new_disk H nw) = Inr d" "disk_at H nw d (take k hist)"
    using loadCheckpoint_holds [OF f(5) assms(2)] by blast
  have "take k hist = take j hist @ take (k - j) (drop j hist)" using f(1) by (metis le_add_diff_inverse take_add)
  then have at: "disk_at H nw d (take j hist @ take (k - j) (drop j hist))" using d(2) by simp
  have hok: "history_ok nw (take j hist @ drop j hist)" using f(3) by simp
  have len: "length (take j hist) = j" using f(1,2) by simp
  obtain d' where d': "replay_loop H ord d 0 (?w @ tail) = Inr (d', if tail = [] then None else Some (length ?w))"
      "disk_at H nw d' hist"
    using replay_loop_history [OF assms(2) f(4) hok at, of 0, unfolded len] by auto
  have "files_hold H nw (f\<lparr>fs_wal := take (length ?w) (fs_wal f)\<rparr>) hist j k []" "tail = [] \<Longrightarrow> files_hold H nw f hist j k []"
    using f by (simp_all add: files_hold_def checkpoint_holds_def)
  then show ?thesis
    using d(1) d' f(6) assms(3) by (auto simp: OpenDisk_def IsZero32_def replayWAL_def)
qed

lemma open_error_holds:
  assumes "files_hold H nw f hist j k tail" "covers ord" "OpenDisk H ord nw lock f = (Inl e, f')"
  shows "f' = f"
  using assms(3) by (auto simp: OpenDisk_def replayWAL_def split: if_splits option.splits sum.splits prod.splits)

lemma wal_bytes_snoc:
  "wal_bytes nw n (ds @ [(c, o')]) = wal_bytes nw n ds @ wal_frame (encodeWALPayload nw (of_nat (Suc (n + length ds))) c o')"
  by (induction ds arbitrary: n) (simp_all add: split_def)

lemma concat_length: "\<forall>x \<in> set xs. n \<le> length (f x) \<Longrightarrow> n * length xs \<le> length (concat (map f xs))"
  by (induction xs) auto

lemma of_nat_2_64: "(of_nat (2 ^ 64) :: u64) = 0"
  by simp

lemma history_ok_snoc:
  assumes "history_ok nw hist" "disk_at H nw d hist" "delta_small d c" "delta_ok (deltas_objects hist) c o'"
    "length (encodeWALPayload nw (dk_seq d + 1) c o') \<le> maxWALRecordBytes"
  shows "history_ok nw (hist @ [(c, o')])"
proof -
  have seq: "dk_seq d + 1 = of_nat (Suc (length hist))" using assms(2) by (simp add: disk_at_def add.commute)
  have "82 * length o' \<le> length (concat (map (\<lambda>item. w_Bytes (Object_CanonicalBytes item)) o'))"
    by (rule concat_length) (simp add: length_Object_CanonicalBytes)
  then have "82 * length o' \<le> maxWALRecordBytes" using assms(5) by (simp add: encodeWALPayload_def)
  then have fits: "delta_fits nw (of_nat (Suc (length hist))) (c, o')"
    using assms(3-5) unfolding seq by (simp add: delta_fits_def delta_small_def delta_ok_def seq)
  have "(of_nat (Suc (length hist)) :: u64) \<noteq> 0" using assms(3) seq by (simp add: delta_small_def)
  moreover have "length hist < 2 ^ 64" using assms(1) by (simp add: history_ok_def)
  ultimately have "Suc (length hist) < 2 ^ 64"
    using of_nat_2_64 by (metis Suc_lessI)
  then show ?thesis
    using assms(1,4) fits by (auto simp: history_ok_def nth_append less_Suc_eq)
qed


lemma foldE_error: "foldE f s xs = Inl e \<Longrightarrow> \<exists>s x. f s x = Inl e"
proof (induction xs arbitrary: s)
  case (Cons x xs)
  then show ?case by (cases "f s x") auto
qed simp

lemma prevalidate_error:
  assumes "prevalidate objs c o' = Inl e"
  shows "e \<noteq> ErrIO"
proof (cases "foldE (consume_check objs) {} c")
  case (Inl e')
  then have "e = e'" using assms by (simp add: prevalidate_def)
  then show ?thesis using foldE_error [OF Inl] by (auto simp: consume_check_def split: if_splits)
next
  case (Inr seen)
  then have "foldE (create_check objs seen) {} o' = Inl e"
    using assms by (cases "foldE (create_check objs seen) {} o'") (simp_all add: prevalidate_def)
  from foldE_error [OF this] show ?thesis
    by (auto simp: create_check_def Object_Validate_def validateOwnerForKind_def split: if_splits)
qed

lemma disk_Apply_rejects:
  assumes at: "disk_at H nw d hist"
    and no: "\<not> (delta_ok (deltas_objects hist) c o' \<and> length (encodeWALPayload nw (dk_seq d + 1) c o') \<le> maxWALRecordBytes)"
  shows "\<exists>root e. disk_Apply H ord c o' io d f = ((root, Inl e), d, f) \<and> e \<noteq> ErrIO"
proof -
  have d: "dk_network d = nw" "\<not> dk_closed d" "dk_objects d = deltas_objects hist" using at by (simp_all add: disk_at_def)
  show ?thesis
  proof (cases "prevalidate (deltas_objects hist) c o'")
    case (Inl e)
    then show ?thesis using d prevalidate_error [OF Inl] by (simp add: disk_Apply_def)
  next
    case (Inr u)
    then have "\<not> length (encodeWALPayload nw (dk_seq d + 1) c o') \<le> maxWALRecordBytes" using no prevalidate_iff by blast
    then show ?thesis using d Inr by (simp add: disk_Apply_def appendWAL_def Let_def)
  qed
qed

lemma disk_Apply_accepts:
  assumes at: "disk_at H nw d hist" and ord: "covers ord"
    and ok: "delta_ok (deltas_objects hist) c o'" "length (encodeWALPayload nw (dk_seq d + 1) c o') \<le> maxWALRecordBytes"
  shows "\<exists>root d'. disk_Apply H ord c o' io d f = ((root, if io = IoOk then Inr () else Inl ErrIO), d',
      f\<lparr>fs_wal := fs_wal f @ written (wal_frame (encodeWALPayload nw (dk_seq d + 1) c o')) io\<rparr>) \<and>
    (if io = IoOk then disk_at H nw d' (hist @ [(c, o')]) else d' = d)"
proof -
  let ?p = "encodeWALPayload nw (dk_seq d + 1) c o'"
  have d: "dk_network d = nw" "\<not> dk_closed d" "MemInv H (dk_mem d)" "mem_objects (dk_mem d) = deltas_objects hist"
      "dk_objects d = deltas_objects hist" "dk_seq d = of_nat (length hist)"
    using at by (simp_all add: disk_at_def)
  have pv: "prevalidate (deltas_objects hist) c o' = Inr ()" using ok(1) by (simp add: prevalidate_iff)
  have ap: "appendWAL ?p io f = (if io = IoOk then Inr () else Inl ErrIO, f\<lparr>fs_wal := fs_wal f @ written (wal_frame ?p) io\<rparr>)"
    using ok(2) encodeWALPayload_ne by (simp add: appendWAL_def)
  obtain m' where m': "mem_Apply H ord c o' (dk_mem d) = ((mem_Root m', Inr ()), m')" "MemInv H m'"
      "mem_objects m' = applyMirror c o' (deltas_objects hist)"
    using mem_Apply_accepts [OF d(3) ord, of c o'] ok(1) d(4) by metis
  have "disk_at H nw (d\<lparr>dk_mem := m', dk_objects := applyMirror c o' (dk_objects d), dk_seq := dk_seq d + 1\<rparr>) (hist @ [(c, o')])"
    using d m' by (simp add: disk_at_def add.commute)
  then show ?thesis using d(1,2,5) pv ap m'(1) by (cases "io = IoOk") (simp_all add: disk_Apply_def Let_def)
qed

lemma disk_Apply_cases:
  assumes at: "disk_at H nw d hist" and ord: "covers ord"
    and a: "disk_Apply H ord c o' io d f = ((root, res), d', f')"
  obtains (rejected) "f' = f" "d' = d" "\<not> is_ok res" "res \<noteq> Inl ErrIO"
  | (logged) "delta_ok (deltas_objects hist) c o'" "length (encodeWALPayload nw (dk_seq d + 1) c o') \<le> maxWALRecordBytes"
      "f' = f\<lparr>fs_wal := fs_wal f @ written (wal_frame (encodeWALPayload nw (dk_seq d + 1) c o')) io\<rparr>"
      "res = (if io = IoOk then Inr () else Inl ErrIO)" "if io = IoOk then disk_at H nw d' (hist @ [(c, o')]) else d' = d"
proof (cases "delta_ok (deltas_objects hist) c o' \<and> length (encodeWALPayload nw (dk_seq d + 1) c o') \<le> maxWALRecordBytes")
  case False
  then show thesis using disk_Apply_rejects [OF at False, of ord io f] a by (intro rejected) auto
next
  case True
  then show thesis
    using disk_Apply_accepts [OF at ord, of c o' io f] a by (intro logged) (auto split: if_splits)
qed

lemma files_hold_append:
  assumes "files_hold H nw f hist j k []" "history_ok nw (hist @ [(c, o')])" "seq = of_nat (Suc (length hist))"
  shows "files_hold H nw (f\<lparr>fs_wal := fs_wal f @ wal_frame (encodeWALPayload nw seq c o')\<rparr>) (hist @ [(c, o')]) j k []"
  using assms wal_bytes_snoc [of nw j "drop j hist" c o'] by (simp add: files_hold_def checkpoint_holds_def)

lemma files_hold_torn:
  assumes "files_hold H nw f hist j k []" "payload \<noteq> []" "length payload \<le> maxWALRecordBytes" "n < length (wal_frame payload)"
  shows "files_hold H nw (f\<lparr>fs_wal := fs_wal f @ take n (wal_frame payload)\<rparr>) hist j k (take n (wal_frame payload))"
  using assms read_record_torn [OF assms(4,2,3)] by (simp add: files_hold_def checkpoint_holds_def torn_tail_def)

lemma history_ok_take: "history_ok nw hs \<Longrightarrow> history_ok nw (take n hs)"
  by (auto simp: history_ok_def min_def)

lemma files_hold_empty:
  assumes "files_hold H nw f hist j k tail" "k \<le> n" "fs_wal f = []"
  shows "files_hold H nw f (take n hist) (length (take n hist)) (length (take n hist)) []"
proof -
  have "drop j hist = []" using assms(1,3) by (cases "drop j hist") (auto simp: files_hold_def split_def)
  then have "j = length hist" "k = length hist" using assms(1) by (auto simp: files_hold_def)
  then show ?thesis using assms by (simp add: files_hold_def)
qed

lemma files_hold_checkpoint:
  assumes "files_hold H nw f hist j k tail" "disk_at H nw d live" "distinct ks" "set ks = dom (dk_objects d)" "checkpoint_fits ks d"
    and "Checkpoint H ks io d f = (res, f')" "k \<le> length live" "live = take (length live) hist"
  shows "(fs_wal f' = [] \<longrightarrow> files_hold H nw f' live (length live) (length live) []) \<and>
    (fs_wal f' \<noteq> [] \<longrightarrow> (\<exists>k \<le> length live. files_hold H nw f' hist j k tail))"
proof -
  let ?f = "f\<lparr>fs_checkpoint := Some (checkpoint_file H (checkpoint_payload ks d))\<rparr>"
  have holds: "checkpoint_holds H nw (?f\<lparr>fs_wal := w\<rparr>) live" "checkpoint_holds H nw ?f live" for w
    using assms(2-5) unfolding checkpoint_holds_def by auto
  have len: "length live \<le> length hist" by (metis assms(8) length_take min.cobounded1)
  have ok: "history_ok nw live" using assms(1,8) history_ok_take [of nw hist "length live"] by (simp add: files_hold_def)
  have inst: "files_hold H nw ?f hist j (length live) tail" using assms(1,7,8) len holds by (simp add: files_hold_def)
  have cut: "files_hold H nw (?f\<lparr>fs_wal := []\<rparr>) live (length live) (length live) []" using ok holds by (simp add: files_hold_def)
  have empty: "files_hold H nw g live (length live) (length live) []" if "files_hold H nw g hist j k' tail" "k' \<le> length live" "fs_wal g = []" for g k'
    using files_hold_empty [OF that] assms(8) len by simp
  show ?thesis
    using assms(1,2,6,7) inst cut empty by (auto simp: Checkpoint_def disk_at_def Let_def split: ck_outcome.splits)
qed

text \<open>
  What is kept: the files hold the history. While the store is open it holds the live deltas, which are the history, or
  after a failure the history without a last delta that was not acknowledged.
\<close>

definition live_ok :: "Store \<Rightarrow> nat \<Rightarrow> byte list \<Rightarrow> bool" where
  "live_ok s k tail \<longleftrightarrow> k \<le> length (so_live s) \<and>
     (if so_failed s then so_history s = so_live s \<or> (\<exists>x. so_history s = so_live s @ [x])
      else tail = [] \<and> so_history s = so_live s)"

definition store_ok :: "hashfun \<Rightarrow> networkid \<Rightarrow> Store \<Rightarrow> bool" where
  "store_ok H nw s \<longleftrightarrow> (\<exists>j k tail. files_hold H nw (so_files s) (so_history s) j k tail \<and>
     (\<forall>d. so_disk s = Some d \<longrightarrow> disk_at H nw (d\<lparr>dk_closed := False\<rparr>) (so_live s) \<and> live_ok s k tail))"

lemma store_okI:
  "files_hold H nw (so_files s) (so_history s) j k tail \<Longrightarrow>
    (\<And>d. so_disk s = Some d \<Longrightarrow> disk_at H nw (d\<lparr>dk_closed := False\<rparr>) (so_live s) \<and> live_ok s k tail) \<Longrightarrow> store_ok H nw s"
  unfolding store_ok_def by blast

lemma store_okE:
  assumes "store_ok H nw s"
  obtains j k tail where "files_hold H nw (so_files s) (so_history s) j k tail"
    "\<And>d. so_disk s = Some d \<Longrightarrow> disk_at H nw (d\<lparr>dk_closed := False\<rparr>) (so_live s) \<and> live_ok s k tail"
  using assms unfolding store_ok_def by blast

lemma disk_at_closed: "disk_at H nw d hs \<Longrightarrow> disk_at H nw (d\<lparr>dk_closed := False\<rparr>) hs"
  by (simp add: disk_at_def)

lemma open_disk_at: "\<not> dk_closed d \<Longrightarrow> d\<lparr>dk_closed := False\<rparr> = d"
  by (cases d) simp

lemma disk_Apply_closed: "dk_closed d \<Longrightarrow> disk_Apply H ord c o' io d f = ((mem_Root (dk_mem d), Inl ErrPersistenceClosed), d, f)"
  by (simp add: disk_Apply_def)

lemma disk_Apply_unwritten:
  assumes "disk_at H nw d hist" "covers ord" "disk_Apply H ord c o' io d f = ((root, res), d', f)"
  shows "\<not> is_ok res \<and> d' = d"
  using assms
proof (cases rule: disk_Apply_cases)
  case logged
  have "written (wal_frame (encodeWALPayload nw (dk_seq d + 1) c o')) io = []"
    using arg_cong [OF logged(3), of fs_wal] by simp
  then have "io \<noteq> IoOk" by auto
  then show ?thesis using logged(4,5) by simp
qed simp

lemma record_complete_same [simp]: "\<not> record_complete d c o' f f"
  by (simp add: record_complete_def)

text \<open>An \<open>Apply\<close> on a store that has not failed; the last two cases are those of a failed write or sync.\<close>

lemma apply_files:
  assumes fh: "files_hold H nw f hist j k []" and at: "disk_at H nw d hist" and ord: "covers ord" and small: "delta_small d c"
    and a: "disk_Apply H ord c o' io d f = ((root, res), d', f')"
  obtains (rejected) "f' = f" "d' = d" "\<not> is_ok res" "res \<noteq> Inl ErrIO"
  | (applied) "res = Inr ()" "record_complete d c o' f f'" "files_hold H nw f' (hist @ [(c, o')]) j k []" "disk_at H nw d' (hist @ [(c, o')])"
  | (kept) "res = Inl ErrIO" "d' = d" "record_complete d c o' f f'" "files_hold H nw f' (hist @ [(c, o')]) j k []"
  | (torn) tail where "res = Inl ErrIO" "d' = d" "\<not> record_complete d c o' f f'" "files_hold H nw f' hist j k tail"
  using at ord a
proof (cases rule: disk_Apply_cases)
  case rejected
  then show thesis using that(1) by blast
next
  case logged
  let ?p = "encodeWALPayload nw (dk_seq d + 1) c o'"
  have hok: "history_ok nw hist" using fh by (simp add: files_hold_def)
  have seq: "dk_seq d + 1 = of_nat (Suc (length hist))" "dk_network d = nw" using at by (simp_all add: disk_at_def add.commute)
  note whole = files_hold_append [OF fh history_ok_snoc [OF hok at small logged(1,2)] seq(1)]
  have rc: "record_complete d c o' f f' \<longleftrightarrow> written (wal_frame ?p) io = wal_frame ?p"
    using logged(3) seq(2) by (simp add: record_complete_def)
  obtain n where n: "written (wal_frame ?p) io = take n (wal_frame ?p)" using written_prefix by blast
  show thesis
  proof (cases "written (wal_frame ?p) io = wal_frame ?p")
    case True
    then show thesis using whole logged(3-5) rc that(2,3) by (cases "io = IoOk") auto
  next
    case False
    have "n < length (wal_frame ?p)" using False n by (metis take_all not_le)
    moreover have "io \<noteq> IoOk" using False by auto
    ultimately show thesis using files_hold_torn [OF fh encodeWALPayload_ne logged(2)] n logged(3-5) rc False that(4) by auto
  qed
qed

lemma store_ok_apply:
  assumes ok: "store_ok H nw s" and ord: "covers ord" and d: "so_disk s = Some d" and small: "delta_small d c"
    and a: "disk_Apply H ord c o' io d (so_files s) = ((root, res), d', f)" and failed: "so_failed s \<Longrightarrow> f = so_files s"
  shows "store_ok H nw (s\<lparr>so_files := f, so_disk := Some d',
          so_history := so_history s @ (if record_complete d c o' (so_files s) f then [(c, o')] else []),
          so_live := so_live s @ (if is_ok res then [(c, o')] else []),
          so_failed := so_failed s \<or> res = Inl ErrIO\<rparr>)" (is "store_ok H nw ?s")
proof -
  obtain j k tail where fh: "files_hold H nw (so_files s) (so_history s) j k tail"
      and at: "disk_at H nw (d\<lparr>dk_closed := False\<rparr>) (so_live s)" and live: "live_ok s k tail"
    using ok d by (elim store_okE) simp
  have unchanged: "store_ok H nw ?s" if "f = so_files s" "d' = d" "\<not> is_ok res" "so_failed s \<or> res \<noteq> Inl ErrIO"
    using fh at live that by (intro store_okI [of H nw _ j k tail]) (auto simp: live_ok_def)
  show ?thesis
  proof (cases "so_failed s \<or> dk_closed d")
    case True
    then have "f = so_files s \<and> \<not> is_ok res \<and> d' = d \<and> (so_failed s \<or> res \<noteq> Inl ErrIO)"
    proof (cases "dk_closed d")
      case True
      then show ?thesis using a by (auto simp: disk_Apply_closed)
    next
      case open': False
      then have "f = so_files s" "so_failed s" using True failed by auto
      then show ?thesis using disk_Apply_unwritten [OF _ ord a [unfolded \<open>f = so_files s\<close>]] at open' by (simp add: open_disk_at)
    qed
    then show ?thesis using unchanged by blast
  next
    case False
    then have l: "tail = []" "so_live s = so_history s" "k \<le> length (so_history s)" using live by (auto simp: live_ok_def)
    have "disk_at H nw d (so_history s)" using at False l(2) by (simp add: open_disk_at)
    with fh [unfolded l(1)] show ?thesis using ord small a
    proof (cases rule: apply_files)
      case rejected
      then show ?thesis using unchanged by simp
    next
      case applied
      then show ?thesis using l False by (intro store_okI [of H nw _ j k "[]"]) (auto simp: live_ok_def dest: disk_at_closed)
    next
      case kept
      then show ?thesis using l at by (intro store_okI [of H nw _ j k "[]"]) (auto simp: live_ok_def)
    next
      case (torn tl')
      then show ?thesis using l at by (intro store_okI [of H nw _ j k tl']) (auto simp: live_ok_def)
    qed
  qed
qed

lemma OpenDisk_lock: "OpenDisk H ord nw lock f = (Inr d, f') \<Longrightarrow> lock = None \<and> nw \<noteq> 0"
  by (auto simp: OpenDisk_def IsZero32_def split: if_splits option.splits)

lemma store_ok_step:
  assumes "disk_step H ord nw s s'" "store_ok H nw s" "covers ord"
  shows "store_ok H nw s'"
  using assms(1)
proof cases
  case (open_ok lock d f)
  obtain j k tail where fh: "files_hold H nw (so_files s) (so_history s) j k tail" using assms(2) by (rule store_okE)
  have "lock = None" "nw \<noteq> 0" using OpenDisk_lock [OF open_ok(3)] by simp_all
  then have "disk_at H nw d (so_history s)" "files_hold H nw f (so_history s) j k []"
    using open_holds [OF fh assms(3)] open_ok(3) by auto
  then show ?thesis unfolding open_ok(1)
    by (intro store_okI [of H nw _ j k "[]"]) (auto simp: live_ok_def files_hold_def dest: disk_at_closed)
next
  case (open_error lock e f)
  obtain j k tail where fh: "files_hold H nw (so_files s) (so_history s) j k tail" using assms(2) by (rule store_okE)
  have "s' = s" using open_error_holds [OF fh assms(3) open_error(3)] open_error(1) by simp
  then show ?thesis using assms(2) by simp
next
  case apply_delta
  show ?thesis unfolding apply_delta(1) by (rule store_ok_apply [OF assms(2,3) apply_delta(2-5)])
next
  case (checkpoint d ks io res f)
  obtain j k tail where fh: "files_hold H nw (so_files s) (so_history s) j k tail"
      and at: "disk_at H nw (d\<lparr>dk_closed := False\<rparr>) (so_live s)" and live: "live_ok s k tail"
    using assms(2) checkpoint(2) by (elim store_okE) simp
  have l: "k \<le> length (so_live s)" "so_live s = take (length (so_live s)) (so_history s)" using live by (auto simp: live_ok_def split: if_splits)
  have "(fs_wal f = [] \<longrightarrow> files_hold H nw f (so_live s) (length (so_live s)) (length (so_live s)) []) \<and>
      (fs_wal f \<noteq> [] \<longrightarrow> (\<exists>k \<le> length (so_live s). files_hold H nw f (so_history s) j k tail))"
  proof (cases "dk_closed d")
    case True
    then have "f = so_files s" using checkpoint(6) by (simp add: Checkpoint_def)
    then show ?thesis using files_hold_empty [OF fh l(1)] fh l by (metis length_take min.cobounded1)
  next
    case False
    then show ?thesis using files_hold_checkpoint [OF fh _ checkpoint(3-6) l] at by (simp add: open_disk_at)
  qed
  then show ?thesis
  proof (elim conjE, cases "fs_wal f = []")
    case True
    assume "fs_wal f = [] \<longrightarrow> files_hold H nw f (so_live s) (length (so_live s)) (length (so_live s)) []"
    then show ?thesis unfolding checkpoint(1) using True at checkpoint(2)
      by (intro store_okI [of H nw _ "length (so_live s)" "length (so_live s)" "[]"]) (auto simp: live_ok_def)
  next
    case False
    assume "fs_wal f \<noteq> [] \<longrightarrow> (\<exists>k \<le> length (so_live s). files_hold H nw f (so_history s) j k tail)"
    then obtain k' where "k' \<le> length (so_live s)" "files_hold H nw f (so_history s) j k' tail" using False by blast
    then show ?thesis unfolding checkpoint(1) using False at live checkpoint(2)
      by (intro store_okI [of H nw _ j k' tail]) (auto simp: live_ok_def)
  qed
next
  case (close d)
  obtain j k tail where "files_hold H nw (so_files s) (so_history s) j k tail"
      "disk_at H nw (d\<lparr>dk_closed := False\<rparr>) (so_live s)" "live_ok s k tail"
    using assms(2) close(2) by (elim store_okE) simp
  then show ?thesis unfolding close(1) by (intro store_okI [of H nw _ j k tail]) (auto simp: disk_Close_def live_ok_def)
next
  case crash
  obtain j k tail where fh: "files_hold H nw (so_files s) (so_history s) j k tail" using assms(2) by (rule store_okE)
  then show ?thesis unfolding crash by (intro store_okI [of H nw _ j k tail]) auto
qed

lemma store_ok_reach:
  assumes "disk_reach H ord nw s" "covers ord"
  shows "store_ok H nw s"
  using assms(1)
proof induction
  case start
  have "files_hold H nw \<lparr>fs_checkpoint = None, fs_wal = []\<rparr> [] 0 0 []"
    by (simp add: files_hold_def history_ok_def checkpoint_holds_def)
  then show ?case by (intro store_okI [of H nw _ 0 0 "[]"]) (simp_all add: initial_store_def)
next
  case (step s s')
  then show ?case using store_ok_step assms(2) by blast
qed


subsection \<open>The store on disk as a whole\<close>

text \<open>
  C33. Crash recovery. Take any sequence of opens, deltas, checkpoints, closes and crashes of the process, where each
  write or sync of a delta or a checkpoint may fail at any point and the process crash or go on. Then opening the
  directory succeeds and gives the store of exactly the deltas whose records are complete, in order. A process that has
  the store open sees the same, except that after a failed write or sync the files may hold one more delta, which was not
  acknowledged. Two things are excluded: that after a failed \<open>Apply\<close> another record is written before a checkpoint or a
  reopening, which the next theorem shows to diverge; and deltas and checkpoints beyond the limits that the code enforces
  only when it reads (\<open>delta_small\<close>, \<open>checkpoint_fits\<close>).
\<close>

theorem disk_recovery:
  assumes "disk_reach H ord nw s" "covers ord" "nw \<noteq> 0"
  shows "\<exists>d f. OpenDisk H ord nw None (so_files s) = (Inr d, f) \<and>
    GetObject (dk_mem d) = deltas_objects (so_history s) \<and>
    mem_Root (dk_mem d) = canonicalRoot H (object_values H (deltas_objects (so_history s))) \<and>
    dk_seq d = of_nat (length (so_history s)) \<and>
    (\<forall>d'. so_disk s = Some d' \<longrightarrow> GetObject (dk_mem d') = deltas_objects (so_live s) \<and>
       mem_Root (dk_mem d') = canonicalRoot H (object_values H (deltas_objects (so_live s))) \<and>
       dk_seq d' = of_nat (length (so_live s)) \<and>
       (so_history s = so_live s \<or> so_failed s \<and> (\<exists>x. so_history s = so_live s @ [x])))"
proof -
  obtain j k tail where fh: "files_hold H nw (so_files s) (so_history s) j k tail"
      and at': "\<And>d. so_disk s = Some d \<Longrightarrow> disk_at H nw (d\<lparr>dk_closed := False\<rparr>) (so_live s) \<and> live_ok s k tail"
    using store_okE [OF store_ok_reach [OF assms(1,2)]] by metis
  obtain d f where d: "OpenDisk H ord nw None (so_files s) = (Inr d, f)" "disk_at H nw d (so_history s)"
    using open_holds [OF fh assms(2,3)] by blast
  have view: "GetObject (dk_mem e) = deltas_objects hs \<and>
      mem_Root (dk_mem e) = canonicalRoot H (object_values H (deltas_objects hs)) \<and> dk_seq e = of_nat (length hs)"
    if "disk_at H nw (e\<lparr>dk_closed := x\<rparr>) hs" for e x hs
    using that mem_Root_canonical [of H "dk_mem e"] by (simp add: disk_at_def GetObject_def [abs_def])
  have "dk_closed d = False" using d(2) by (simp add: disk_at_def)
  then have "disk_at H nw (d\<lparr>dk_closed := False\<rparr>) (so_history s)" using d(2) by (simp add: open_disk_at)
  from view [OF this] d(1) show ?thesis
    using view at' by (intro exI [of _ d] exI [of _ f]) (auto simp: live_ok_def split: if_splits)
qed

lemma reach_first:
  assumes "covers ord" "nw \<noteq> 0"
  shows "\<exists>d. OpenDisk H ord nw None \<lparr>fs_checkpoint = None, fs_wal = []\<rparr> = (Inr d, \<lparr>fs_checkpoint = None, fs_wal = []\<rparr>) \<and>
    disk_at H nw d [] \<and> disk_reach H ord nw \<lparr>so_files = \<lparr>fs_checkpoint = None, fs_wal = []\<rparr>, so_disk = Some d, so_history = [], so_live = [], so_failed = False\<rparr>"
proof -
  let ?f = "\<lparr>fs_checkpoint = None, fs_wal = []\<rparr>"
  have "files_hold H nw ?f [] 0 0 []" by (simp add: files_hold_def history_ok_def checkpoint_holds_def)
  from open_holds [OF this assms] obtain d f where d: "OpenDisk H ord nw None ?f = (Inr d, f)" "disk_at H nw d []" by blast
  then have "f = ?f"
    by (simp add: OpenDisk_def IsZero32_def assms(2) loadCheckpoint_def replayWAL_def replay_loop.simps [of _ _ _ _ "[]"] read_record_def)
  moreover have "disk_step H ord nw initial_store (initial_store\<lparr>so_files := f, so_disk := Some d, so_live := so_history initial_store, so_failed := False\<rparr>)"
    by (rule disk_step.open_ok [where lock = None]) (use d in \<open>simp_all add: initial_store_def\<close>)
  ultimately show ?thesis using d disk_reach.step [OF disk_reach.start] by (simp add: initial_store_def)
qed

definition sample_delta :: "bytes32 \<Rightarrow> delta" where
  "sample_delta x = ([], [sample_object x])"

lemma sample_apply:
  assumes "covers ord" "disk_at H nw d []" "x \<noteq> 0"
  shows "\<exists>root d'. disk_Apply H ord [] [sample_object x] io d f =
     ((root, if io = IoOk then Inr () else Inl ErrIO), d',
      f\<lparr>fs_wal := fs_wal f @ written (wal_frame (encodeWALPayload nw 1 [] [sample_object x])) io\<rparr>) \<and>
    (if io = IoOk then disk_at H nw d' [sample_delta x] else d' = d)"
proof -
  have seq: "dk_seq d + 1 = 1" using assms(2) by (simp add: disk_at_def)
  have "length (encodeWALPayload nw (dk_seq d + 1) [] [sample_object x]) \<le> maxWALRecordBytes"
    by (simp add: encodeWALPayload_def length_Object_CanonicalBytes sample_object_def)
  moreover have "delta_ok (deltas_objects []) [] [sample_object x]"
    using assms(3) by (simp add: delta_ok_def deltas_objects_def)
  ultimately show ?thesis
    using disk_Apply_accepts [OF assms(2,1), of "[]" "[sample_object x]" io f]
    by (simp only: seq append_Nil sample_delta_def)
qed

theorem disk_recovery_witness:
  "\<exists>s d f. disk_reach toy_hash rev 9 s \<and> so_failed s \<and> so_disk s \<noteq> None \<and> so_live s = [] \<and> so_history s = [sample_delta 3] \<and>
     OpenDisk toy_hash rev 9 None (so_files s) = (Inr d, f) \<and> GetObject (dk_mem d) = deltas_objects [sample_delta 3]"
proof -
  let ?f = "\<lparr>fs_checkpoint = None, fs_wal = []\<rparr>"
  obtain d where d: "disk_at toy_hash 9 d []"
      "disk_reach toy_hash rev 9 \<lparr>so_files = ?f, so_disk = Some d, so_history = [], so_live = [], so_failed = False\<rparr>"
    using reach_first [of rev 9 toy_hash] by auto
  obtain root where a: "disk_Apply toy_hash rev [] [sample_object 3] IoSyncFails d ?f =
     ((root, Inl ErrIO), d, ?f\<lparr>fs_wal := wal_frame (encodeWALPayload 9 1 [] [sample_object 3])\<rparr>)"
    using sample_apply [OF covers_simps(1) d(1), of 3 IoSyncFails ?f] by auto
  have small: "delta_small d []" and seq: "dk_seq d + 1 = 1" "dk_network d = 9" using d(1) by (simp_all add: delta_small_def disk_at_def)
  let ?s = "\<lparr>so_files = ?f\<lparr>fs_wal := wal_frame (encodeWALPayload 9 1 [] [sample_object 3])\<rparr>, so_disk = Some d, so_history = [sample_delta 3],
     so_live = [], so_failed = True\<rparr>"
  have "disk_step toy_hash rev 9 \<lparr>so_files = ?f, so_disk = Some d, so_history = [], so_live = [], so_failed = False\<rparr> ?s"
    using disk_step.apply_delta [OF _ small, of "\<lparr>so_files = ?f, so_disk = Some d, so_history = [], so_live = [], so_failed = False\<rparr>"
        toy_hash rev "[sample_object 3]" IoSyncFails root "Inl ErrIO" d _ 9] a seq
    by (simp add: sample_delta_def record_complete_def)
  from disk_reach.step [OF d(2) this] have r: "disk_reach toy_hash rev 9 ?s" .
  from disk_recovery [OF r covers_simps(1)] obtain d2 f2 where
    "OpenDisk toy_hash rev 9 None (so_files ?s) = (Inr d2, f2)" "GetObject (dk_mem d2) = deltas_objects [sample_delta 3]"
    by auto
  with r show ?thesis by (intro exI [of _ ?s] exI [of _ d2] exI [of _ f2]) simp
qed


lemma sample_history_ok: "x \<noteq> 0 \<Longrightarrow> history_ok nw [sample_delta x]"
  by (simp add: history_ok_def sample_delta_def delta_fits_def delta_ok_def deltas_objects_def encodeWALPayload_def
      length_Object_CanonicalBytes sample_object_def object_valid_def)

lemma sample_replay_same_sequence:
  assumes "covers ord" "x \<noteq> 0" "y \<noteq> 0"
    and f: "fs_checkpoint f = None" "fs_wal f = wal_frame (encodeWALPayload nw 1 [] [sample_object x]) @ wal_frame (encodeWALPayload nw 1 [] [sample_object y])"
    and "nw \<noteq> 0"
  shows "\<exists>d. OpenDisk H ord nw None f = (Inr d, f) \<and> disk_at H nw d [sample_delta x]"
proof -
  let ?p = "\<lambda>x. encodeWALPayload nw 1 [] [sample_object x]"
  have new: "disk_at H nw (new_disk H nw) []"
    by (simp add: disk_at_def new_disk_def NewMemory_inv deltas_objects_def) (simp add: NewMemory_def)
  have rr: "z \<noteq> 0 \<Longrightarrow> read_record (wal_frame (?p z) @ rest) = WalRecord (?p z) rest" for z rest
    using encodeWALPayload_ne sample_history_ok [of z nw]
    by (intro read_record_frame) (simp_all add: history_ok_def sample_delta_def delta_fits_def)
  obtain d where d: "replay_record H ord (new_disk H nw) (?p x) = Inr d" "disk_at H nw d [sample_delta x]"
    using replay_record_next [OF new assms(1), of "[]" "[sample_object x]" "[]"] sample_history_ok [OF assms(2), of nw]
    by (auto simp: sample_delta_def)
  have skip: "replay_record H ord d (?p y) = Inr d"
    using replay_record_skip [OF d(2), of "[]" "[]" "[sample_object y]" "[]" ord] sample_history_ok [OF assms(3), of nw]
    by (simp add: sample_delta_def)
  have "replay_loop H ord (new_disk H nw) 0 (fs_wal f) = Inr (d, None)"
    using rr [OF assms(2)] rr [OF assms(3), of "[]"] d(1) skip f(2)
    by (simp add: replay_loop.simps [of _ _ "new_disk H nw"] replay_loop.simps [of _ _ d] read_record_def [of "[]"])
  then show ?thesis
    using d(2) f(1) assms(6) by (simp add: OpenDisk_def IsZero32_def loadCheckpoint_def replayWAL_def)
qed

text \<open>
  C34. A failed sync is not handled. When the sync of a record fails, \<open>Apply\<close> reports an error but the record stays in
  the log, and the next delta is written with the same sequence number and acknowledged. Opening the directory again
  then installs the delta that was refused and skips the one that was acknowledged.
\<close>

theorem disk_failed_sync_diverges:
  assumes "covers ord" "nw \<noteq> 0" "x \<noteq> 0" "y \<noteq> 0" "x \<noteq> y"
  shows "\<exists>d r1 d1 f1 r2 d2 f2 d3 f3.
    OpenDisk H ord nw None \<lparr>fs_checkpoint = None, fs_wal = []\<rparr> = (Inr d, \<lparr>fs_checkpoint = None, fs_wal = []\<rparr>) \<and>
    disk_Apply H ord [] [sample_object x] IoSyncFails d \<lparr>fs_checkpoint = None, fs_wal = []\<rparr> = ((r1, Inl ErrIO), d1, f1) \<and>
    disk_Apply H ord [] [sample_object y] IoOk d1 f1 = ((r2, Inr ()), d2, f2) \<and>
    GetObject (dk_mem d2) x = None \<and> GetObject (dk_mem d2) y = Some (sample_object y) \<and>
    OpenDisk H ord nw None f2 = (Inr d3, f3) \<and>
    GetObject (dk_mem d3) x = Some (sample_object x) \<and> GetObject (dk_mem d3) y = None"
proof -
  let ?f = "\<lparr>fs_checkpoint = None, fs_wal = []\<rparr>" and ?r = "\<lambda>x. wal_frame (encodeWALPayload nw 1 [] [sample_object x])"
  obtain d where d: "OpenDisk H ord nw None ?f = (Inr d, ?f)" "disk_at H nw d []"
    using reach_first [OF assms(1,2)] by blast
  obtain r1 where a1: "disk_Apply H ord [] [sample_object x] IoSyncFails d ?f = ((r1, Inl ErrIO), d, ?f\<lparr>fs_wal := ?r x\<rparr>)"
    using sample_apply [OF assms(1) d(2) assms(3), of IoSyncFails ?f] by auto
  obtain r2 d2 where a2: "disk_Apply H ord [] [sample_object y] IoOk d (?f\<lparr>fs_wal := ?r x\<rparr>) =
      ((r2, Inr ()), d2, ?f\<lparr>fs_wal := ?r x @ ?r y\<rparr>)" "disk_at H nw d2 [sample_delta y]"
    using sample_apply [OF assms(1) d(2) assms(4), of IoOk "?f\<lparr>fs_wal := ?r x\<rparr>"] by auto
  obtain d3 where d3: "OpenDisk H ord nw None (?f\<lparr>fs_wal := ?r x @ ?r y\<rparr>) = (Inr d3, ?f\<lparr>fs_wal := ?r x @ ?r y\<rparr>)"
      "disk_at H nw d3 [sample_delta x]"
    using sample_replay_same_sequence [OF assms(1,3,4), of "?f\<lparr>fs_wal := ?r x @ ?r y\<rparr>" nw] assms(2) by auto
  have obj: "disk_at H nw e [sample_delta z] \<Longrightarrow> GetObject (dk_mem e) = [z \<mapsto> sample_object z]" for e z
    by (simp add: disk_at_def GetObject_def [abs_def] deltas_objects_def sample_delta_def applyMirror_def)
  have "GetObject (dk_mem d2) x = None" "GetObject (dk_mem d2) y = Some (sample_object y)"
      "GetObject (dk_mem d3) x = Some (sample_object x)" "GetObject (dk_mem d3) y = None"
    using obj [OF a2(2)] obj [OF d3(2)] assms(5) by simp_all
  with d(1) a1 a2(1) d3(1) show ?thesis by blast
qed

theorem disk_failed_sync_diverges_witness:
  "\<exists>d r1 d1 f1 r2 d2 f2 d3 f3.
    OpenDisk toy_hash rev 9 None \<lparr>fs_checkpoint = None, fs_wal = []\<rparr> = (Inr d, \<lparr>fs_checkpoint = None, fs_wal = []\<rparr>) \<and>
    disk_Apply toy_hash rev [] [sample_object 3] IoSyncFails d \<lparr>fs_checkpoint = None, fs_wal = []\<rparr> = ((r1, Inl ErrIO), d1, f1) \<and>
    disk_Apply toy_hash rev [] [sample_object 4] IoOk d1 f1 = ((r2, Inr ()), d2, f2) \<and>
    GetObject (dk_mem d2) 3 = None \<and> GetObject (dk_mem d2) 4 = Some (sample_object 4) \<and>
    OpenDisk toy_hash rev 9 None f2 = (Inr d3, f3) \<and>
    GetObject (dk_mem d3) 3 = Some (sample_object 3) \<and> GetObject (dk_mem d3) 4 = None"
  by (rule disk_failed_sync_diverges) simp_all

end
