(* ===== verification/Transactions.thy ===== *)
theory Transactions
  imports WorldState Signatures
begin

text \<open>
  Proof-carrying transactions (\<open>internal/v2/tx/transaction.go\<close>): the signed intent, its wire format, static validation,
  signing, and the state witnesses of the inputs.

  The 16-byte salt is a 128-bit word. \<open>Sign\<close> changes the transaction it is called on, so it returns the new one
  beside its error.

  The lemmas show that the parser accepts exactly the encodings of valid transactions, that a signed transaction
  validates, and that accepted witnesses show the true objects of the state, or a hash collision.
\<close>

abbreviation tx_Version2 :: u16 where "tx_Version2 \<equiv> 2"

abbreviation OpTransfer :: u16 where "OpTransfer \<equiv> 1"
abbreviation OpCreateToken :: u16 where "OpCreateToken \<equiv> 2"
abbreviation OpDeployContract :: u16 where "OpDeployContract \<equiv> 3"
abbreviation OpContractCall :: u16 where "OpContractCall \<equiv> 4"
abbreviation OpComputeOffer :: u16 where "OpComputeOffer \<equiv> 5"
abbreviation OpComputeJob :: u16 where "OpComputeJob \<equiv> 6"
abbreviation OpComputeResult :: u16 where "OpComputeResult \<equiv> 7"
abbreviation OpComputeAccept :: u16 where "OpComputeAccept \<equiv> 8"
abbreviation OpComputeIngestAssignment :: u16 where "OpComputeIngestAssignment \<equiv> 9"
abbreviation OpComputeIngestResult :: u16 where "OpComputeIngestResult \<equiv> 10"
abbreviation OpComputeFinalize :: u16 where "OpComputeFinalize \<equiv> 11"
abbreviation OpComputeResolveReplicated :: u16 where "OpComputeResolveReplicated \<equiv> 12"
abbreviation OpComputeExpire :: u16 where "OpComputeExpire \<equiv> 13"
abbreviation OpMintToken :: u16 where "OpMintToken \<equiv> 14"
abbreviation OpBurnToken :: u16 where "OpBurnToken \<equiv> 15"
abbreviation OpLoanOffer :: u16 where "OpLoanOffer \<equiv> 16"
abbreviation OpLoanCancel :: u16 where "OpLoanCancel \<equiv> 17"
abbreviation OpLoanAccept :: u16 where "OpLoanAccept \<equiv> 18"
abbreviation OpLoanRepay :: u16 where "OpLoanRepay \<equiv> 19"
abbreviation OpLoanDefault :: u16 where "OpLoanDefault \<equiv> 20"
abbreviation OpDeviceCredentialRegister :: u16 where "OpDeviceCredentialRegister \<equiv> 21"
abbreviation OpDeviceCredentialUpdate :: u16 where "OpDeviceCredentialUpdate \<equiv> 22"
abbreviation OpDeviceCredentialRevoke :: u16 where "OpDeviceCredentialRevoke \<equiv> 23"
abbreviation OpCrossLoanOffer :: u16 where "OpCrossLoanOffer \<equiv> 24"
abbreviation OpCrossLoanAccept :: u16 where "OpCrossLoanAccept \<equiv> 25"
abbreviation OpCrossLoanRepay :: u16 where "OpCrossLoanRepay \<equiv> 26"
abbreviation OpCrossLoanSettle :: u16 where "OpCrossLoanSettle \<equiv> 27"
abbreviation OpCrossLoanDefault :: u16 where "OpCrossLoanDefault \<equiv> 28"
abbreviation OpCrossLoanExpire :: u16 where "OpCrossLoanExpire \<equiv> 29"

abbreviation MaxInputs :: nat where "MaxInputs \<equiv> 4096"
abbreviation MaxOutputs :: nat where "MaxOutputs \<equiv> 4096"
abbreviation MaxOperations :: nat where "MaxOperations \<equiv> 64"
abbreviation MaxOpPayload :: nat where "MaxOpPayload \<equiv> 4194304"
abbreviation MaxWireBytes :: nat where "MaxWireBytes \<equiv> 33554432"
abbreviation MaxIntentBytes :: nat where "MaxIntentBytes \<equiv> 25165824"

record InputRef =
  in_ObjectID :: objectid
  in_Version :: u64
  in_ObjectHash :: hash

record Operation =
  op_Kind :: u16
  op_Payload :: "byte list"

record Witness =
  wit_Object :: Object
  wit_Proof :: SmtProof

record Transaction =
  tx_Version :: u16
  tx_Network :: networkid
  tx_ShardID :: u32
  tx_Sender :: accountid
  tx_SenderPublicKey :: "byte list"
  tx_StateRoot :: hash
  tx_Inputs :: "InputRef list"
  tx_Outputs :: "OutputSpec list"
  tx_Operations :: "Operation list"
  tx_Fee :: u64
  tx_ValidUntilHeight :: u64
  tx_Salt :: "128 word"
  tx_Signature :: "byte list"
  tx_Witnesses :: "Witness list"

definition input_bytes :: "InputRef \<Rightarrow> byte list" where
  "input_bytes inp = w_Fixed32 (in_ObjectID inp) @ w_U64 (in_Version inp) @ w_Fixed32 (in_ObjectHash inp)"

definition output_bytes :: "OutputSpec \<Rightarrow> byte list" where
  "output_bytes out = w_Bytes (OutputSpec_CanonicalBytes out)"

definition operation_bytes :: "Operation \<Rightarrow> byte list" where
  "operation_bytes op = w_U16 (op_Kind op) @ w_Bytes (op_Payload op)"

definition IntentBytes :: "Transaction \<Rightarrow> byte list" where
  "IntentBytes t =
     w_U16 (tx_Version t) @ w_Fixed32 (tx_Network t) @ w_U32 (tx_ShardID t) @ w_Fixed32 (tx_Sender t) @
     w_Bytes (tx_SenderPublicKey t) @ w_Fixed32 (tx_StateRoot t) @
     w_U32 (of_nat (length (tx_Inputs t))) @ concat (map input_bytes (tx_Inputs t)) @
     w_U32 (of_nat (length (tx_Outputs t))) @ concat (map output_bytes (tx_Outputs t)) @
     w_U32 (of_nat (length (tx_Operations t))) @ concat (map operation_bytes (tx_Operations t)) @
     w_U64 (tx_Fee t) @ w_U64 (tx_ValidUntilHeight t) @ be_bytes 16 (tx_Salt t)"

definition tx_SigningDigest :: "hashfun \<Rightarrow> Transaction \<Rightarrow> hash" where
  "tx_SigningDigest H t = DomainHash H ''zephyr/transaction/signing/v2'' (IntentBytes t)"

definition tx_ID :: "hashfun \<Rightarrow> Transaction \<Rightarrow> hash" where
  "tx_ID H t = DomainHash H ''zephyr/transaction/id/v2'' (IntentBytes t)"

definition check_input :: "objectid set \<Rightarrow> InputRef \<Rightarrow> objectid set result" where
  "check_input seen inp =
     (if IsZero32 (in_ObjectID inp) \<or> in_Version inp = 0 \<or> IsZero32 (in_ObjectHash inp) then Inl ErrStructure
      else if in_ObjectID inp \<in> seen then Inl ErrStructure
      else Inr (insert (in_ObjectID inp) seen))"

definition check_output :: "OutputSpec \<Rightarrow> unit result" where
  "check_output out = (if \<not> is_ok (OutputSpec_Validate out) then Inl ErrStructure else Inr ())"

definition check_operation :: "Operation \<Rightarrow> unit result" where
  "check_operation op = (if op_Kind op = 0 \<or> MaxOpPayload < length (op_Payload op) then Inl ErrStructure else Inr ())"

definition ValidateStatic :: "crypto \<Rightarrow> Transaction \<Rightarrow> unit result" where
  "ValidateStatic C t =
     (if tx_Version t \<noteq> tx_Version2 then Inl ErrVersion
      else if IsZero32 (tx_Network t) \<or> IsZero32 (tx_StateRoot t) then Inl ErrNetwork
      else if length (tx_SenderPublicKey t) \<noteq> 65 then Inl ErrSender
      else if \<not> unmarshal_ok C (tx_SenderPublicKey t) then Inl ErrSender
      else if AccountIDFromPublicKey (sha256 C) (tx_SenderPublicKey t) \<noteq> tx_Sender t then Inl ErrSender
      else if tx_Salt t = 0 \<or> MaxInputs < length (tx_Inputs t) \<or> MaxOutputs < length (tx_Outputs t) \<or>
              tx_Operations t = [] \<or> MaxOperations < length (tx_Operations t) then Inl ErrStructure
      else
        tryE (foldE check_input {} (tx_Inputs t)) (\<lambda>_.
        tryE (checkE check_output (tx_Outputs t)) (\<lambda>_.
        tryE (checkE check_operation (tx_Operations t)) (\<lambda>_.
        verifySignature C (tx_SenderPublicKey t) (tx_SigningDigest (sha256 C) t) (tx_Signature t)))))"

definition ValidateAtHeight :: "crypto \<Rightarrow> u64 \<Rightarrow> Transaction \<Rightarrow> unit result" where
  "ValidateAtHeight C height t =
     tryE (ValidateStatic C t) (\<lambda>_.
     if 0 < tx_ValidUntilHeight t \<and> tx_ValidUntilHeight t < height then Inl ErrExpired else Inr ())"

definition VerifyForNetwork :: "crypto \<Rightarrow> networkid \<Rightarrow> Transaction \<Rightarrow> unit result" where
  "VerifyForNetwork C network t = (if tx_Network t \<noteq> network then Inl ErrNetwork else ValidateStatic C t)"

definition verify_witness :: "hashfun \<Rightarrow> hash \<Rightarrow> InputRef \<times> Witness \<Rightarrow> unit result" where
  "verify_witness H stateRoot = (\<lambda>(inp, witness).
     let obj = wit_Object witness
     in if obj_ID obj \<noteq> in_ObjectID inp \<or> obj_Version obj \<noteq> in_Version inp \<or> Object_Hash H obj \<noteq> in_ObjectHash inp
        then Inl ErrWitness
        else if \<not> smt_Verify H stateRoot (in_ObjectID inp) (Some (be_bytes 32 (Object_Hash H obj))) (wit_Proof witness)
        then Inl ErrWitness
        else Inr ())"

definition VerifyWitnesses :: "hashfun \<Rightarrow> Transaction \<Rightarrow> unit result" where
  "VerifyWitnesses H t =
     (if length (tx_Witnesses t) \<noteq> length (tx_Inputs t) then Inl ErrWitness
      else checkE (verify_witness H (tx_StateRoot t)) (zip (tx_Inputs t) (tx_Witnesses t)))"

definition witness_bytes :: "Witness \<Rightarrow> byte list" where
  "witness_bytes w = w_Bytes (Object_CanonicalBytes (wit_Object w)) @ w_Bytes (MarshalSmtProof (wit_Proof w))"

definition wire_payload :: "Transaction \<Rightarrow> byte list" where
  "wire_payload t =
     w_Bytes (IntentBytes t) @ w_Bytes (tx_Signature t) @
     w_U32 (of_nat (length (tx_Witnesses t))) @ concat (map witness_bytes (tx_Witnesses t))"

definition tx_MarshalBinary :: "crypto \<Rightarrow> Transaction \<Rightarrow> byte list result" where
  "tx_MarshalBinary C t =
     tryE (ValidateStatic C t) (\<lambda>_.
     if length (tx_Witnesses t) \<noteq> length (tx_Inputs t) then Inl ErrWitness
     else
       let payload = wire_payload t
       in if MaxWireBytes < length payload then Inl ErrWire else Inr payload)"

definition read_input :: "reader \<Rightarrow> (InputRef \<times> reader) result" where
  "read_input r =
     tryAs ErrWire (r_Fixed32 r) (\<lambda>(oid, r).
     tryAs ErrWire (r_U64 r) (\<lambda>(version, r).
     tryAs ErrWire (r_Fixed32 r) (\<lambda>(h, r).
     Inr (\<lparr>in_ObjectID = oid, in_Version = version, in_ObjectHash = h\<rparr>, r))))"

definition read_output :: "reader \<Rightarrow> (OutputSpec \<times> reader) result" where
  "read_output r = r_Sub ErrWire 1048640 ParseOutputSpec r"

definition read_operation :: "reader \<Rightarrow> (Operation \<times> reader) result" where
  "read_operation r =
     tryAs ErrWire (r_U16 r) (\<lambda>(kind, r).
     tryAs ErrWire (r_Bytes 4194304 r) (\<lambda>(payload, r).
     Inr (\<lparr>op_Kind = kind, op_Payload = payload\<rparr>, r)))"

definition parseIntent :: "byte list \<Rightarrow> Transaction result" where
  "parseIntent data =
     tryAs ErrWire (r_U16 data) (\<lambda>(version, r).
     tryAs ErrWire (r_Fixed32 r) (\<lambda>(network, r).
     tryAs ErrWire (r_U32 r) (\<lambda>(shardID, r).
     tryAs ErrWire (r_Fixed32 r) (\<lambda>(sender, r).
     tryAs ErrWire (r_Bytes 65 r) (\<lambda>(publicKey, r).
     tryAs ErrWire (r_Fixed32 r) (\<lambda>(stateRoot, r).
     tryAs ErrWire (r_U32 r) (\<lambda>(inputCount, r).
     if MaxInputs < unat inputCount then Inl ErrWire else
     tryAs ErrWire (r_many (unat inputCount) read_input r) (\<lambda>(inputs, r).
     tryAs ErrWire (r_U32 r) (\<lambda>(outputCount, r).
     if MaxOutputs < unat outputCount then Inl ErrWire else
     tryAs ErrWire (r_many (unat outputCount) read_output r) (\<lambda>(outputs, r).
     tryAs ErrWire (r_U32 r) (\<lambda>(opCount, r).
     if opCount = 0 \<or> MaxOperations < unat opCount then Inl ErrWire else
     tryAs ErrWire (r_many (unat opCount) read_operation r) (\<lambda>(operations, r).
     tryAs ErrWire (r_U64 r) (\<lambda>(fee, r).
     tryAs ErrWire (r_U64 r) (\<lambda>(validUntil, r).
     tryAs ErrWire (r_Fixed 16 r) (\<lambda>(salt, r).
     tryAs ErrWire (r_Done r) (\<lambda>_.
     Inr \<lparr>tx_Version = version, tx_Network = network, tx_ShardID = shardID, tx_Sender = sender,
          tx_SenderPublicKey = publicKey, tx_StateRoot = stateRoot, tx_Inputs = inputs, tx_Outputs = outputs,
          tx_Operations = operations, tx_Fee = fee, tx_ValidUntilHeight = validUntil, tx_Salt = from_be salt,
          tx_Signature = [], tx_Witnesses = []\<rparr>))))))))))))))))"

definition read_witness :: "reader \<Rightarrow> (Witness \<times> reader) result" where
  "read_witness r =
     tryAs ErrWire (r_Sub ErrWire 1048704 ParseObject r) (\<lambda>(obj, r).
     tryAs ErrWire (r_Sub ErrWire 16384 ParseSmtProof r) (\<lambda>(prf, r).
     Inr (\<lparr>wit_Object = obj, wit_Proof = prf\<rparr>, r)))"

text \<open>The part after the intent: signature and witnesses.\<close>

definition parse_signed :: "crypto \<Rightarrow> Transaction \<Rightarrow> reader \<Rightarrow> Transaction result" where
  "parse_signed C t r =
     tryAs ErrWire (r_Bytes 64 r) (\<lambda>(signature, r).
     if length signature \<noteq> 64 then Inl ErrWire else
     tryAs ErrWitness (r_U32 r) (\<lambda>(count, r).
     if MaxInputs < unat count \<or> unat count \<noteq> length (tx_Inputs t) then Inl ErrWitness else
     tryAs ErrWire (r_many (unat count) read_witness r) (\<lambda>(witnesses, r).
     tryAs ErrWire (r_Done r) (\<lambda>_.
     let t = t\<lparr>tx_Signature := signature, tx_Witnesses := witnesses\<rparr>
     in tryE (ValidateStatic C t) (\<lambda>_. Inr t)))))"

definition ParseTransaction :: "crypto \<Rightarrow> byte list \<Rightarrow> Transaction result" where
  "ParseTransaction C data =
     (if data = [] \<or> MaxWireBytes < length data then Inl ErrWire
      else
        tryAs ErrWire (r_Bytes 25165824 data) (\<lambda>(intent, r).
        tryE (parseIntent intent) (\<lambda>t. parse_signed C t r)))"

definition tx_Sign :: "crypto \<Rightarrow> signer option \<Rightarrow> Transaction \<Rightarrow> unit result \<times> Transaction" where
  "tx_Sign C privateKey t =
     (case privateKey of
        None \<Rightarrow> (Inl ErrSender, t)
      | Some k \<Rightarrow>
          if \<not> sk_P256 k then (Inl ErrSender, t)
          else
            let t = t\<lparr>tx_Version := tx_Version2, tx_SenderPublicKey := sk_public k,
                       tx_Sender := AccountIDFromPublicKey (sha256 C) (sk_public k)\<rparr>
            in case sk_sign k (tx_SigningDigest (sha256 C) t) of
                 None \<Rightarrow> (Inl ErrSign, t)
               | Some (r, s) \<Rightarrow> (Inr (), t\<lparr>tx_Signature := pad32 r @ pad32 (normalizeLowS s)\<rparr>))"


subsection \<open>The wire format\<close>

interpretation InputField: wire_format input_bytes read_input "\<lambda>_. True"
proof
  fix r x s
  show "read_input r = Inr (x, s) \<longleftrightarrow> True \<and> r = input_bytes x @ s"
    by (cases x) (auto simp: read_input_def input_bytes_def wire_iff)
qed

interpretation OutputField: wire_format output_bytes read_output output_valid
proof
  fix r x s
  show "read_output r = Inr (x, s) \<longleftrightarrow> output_valid x \<and> r = output_bytes x @ s"
    by (auto simp: read_output_def output_bytes_def OutputWire.r_Sub_iff length_OutputSpec_CanonicalBytes output_valid_def)
qed

interpretation OperationField: wire_format operation_bytes read_operation "\<lambda>op. length (op_Payload op) \<le> MaxOpPayload"
proof
  fix r x s
  show "read_operation r = Inr (x, s) \<longleftrightarrow> length (op_Payload x) \<le> MaxOpPayload \<and> r = operation_bytes x @ s"
    by (cases x) (auto simp: read_operation_def operation_bytes_def wire_iff)
qed

definition witness_wf :: "Witness \<Rightarrow> bool" where
  "witness_wf w \<longleftrightarrow> object_valid (wit_Object w) \<and> smt_proof_wf (wit_Proof w)"

lemma length_concat_Fixed32: "length (concat (map w_Fixed32 xs)) = 32 * length xs"
  by (induction xs) simp_all

lemma length_MarshalSmtProof: "length (MarshalSmtProof p) = 35 + 32 * length (smp_Siblings p)"
  by (simp add: MarshalSmtProof_def length_concat_Fixed32)

interpretation WitnessField: wire_format witness_bytes read_witness witness_wf
proof
  fix r s and x :: Witness
  have "object_valid (wit_Object x) \<Longrightarrow> length (Object_CanonicalBytes (wit_Object x)) \<le> 1048704"
    by (simp add: length_Object_CanonicalBytes object_valid_def)
  moreover have "smt_proof_wf (wit_Proof x) \<Longrightarrow> length (MarshalSmtProof (wit_Proof x)) \<le> 16384"
    using smt_proof_wf_length [of "wit_Proof x"] by (simp add: length_MarshalSmtProof)
  ultimately show "read_witness r = Inr (x, s) \<longleftrightarrow> witness_wf x \<and> r = witness_bytes x @ s"
    by (cases x) (auto simp: read_witness_def witness_bytes_def witness_wf_def ObjectWire.r_Sub_iff SmtWire.r_Sub_iff)
qed

definition intent_wf :: "Transaction \<Rightarrow> bool" where
  "intent_wf t \<longleftrightarrow> length (tx_SenderPublicKey t) \<le> 65 \<and> length (tx_Inputs t) \<le> MaxInputs \<and>
     length (tx_Outputs t) \<le> MaxOutputs \<and> list_all output_valid (tx_Outputs t) \<and>
     tx_Operations t \<noteq> [] \<and> length (tx_Operations t) \<le> MaxOperations \<and>
     list_all (\<lambda>op. length (op_Payload op) \<le> MaxOpPayload) (tx_Operations t)"

definition intent_only :: "Transaction \<Rightarrow> Transaction" where
  "intent_only t = t\<lparr>tx_Signature := [], tx_Witnesses := []\<rparr>"

lemma be_bytes_16: "length b = 16 \<Longrightarrow> be_bytes 16 (from_be b :: 128 word) = b"
  using be_bytes_from_be [of b, where 'a = 128] by simp

lemma count_back: "n < 2 ^ 32 \<Longrightarrow> unat (of_nat n :: u32) = n"
  by (rule unat_of_nat_small) simp

lemma parseIntent_sound:
  assumes "parseIntent bs = Inr t"
  shows "intent_wf t \<and> intent_only t = t \<and> bs = IntentBytes t"
  using assms
  by (auto simp: parseIntent_def IntentBytes_def intent_wf_def intent_only_def wire_iff InputField.r_many_iff OutputField.r_many_iff
      OperationField.r_many_iff be_bytes_16 unat_eq_zero)

lemma parseIntent_complete:
  assumes "intent_wf t"
  shows "parseIntent (IntentBytes t) = Inr (intent_only t)"
proof -
  have c: "unat (of_nat (length (tx_Inputs t)) :: u32) = length (tx_Inputs t)"
      "unat (of_nat (length (tx_Outputs t)) :: u32) = length (tx_Outputs t)"
      "unat (of_nat (length (tx_Operations t)) :: u32) = length (tx_Operations t)"
    using assms by (auto intro!: count_back simp: intent_wf_def)
  have "(of_nat (length (tx_Operations t)) :: u32) \<noteq> 0" using c(3) assms by (auto simp: intent_wf_def)
  then show ?thesis
    using assms c InputField.many_back [of "tx_Inputs t"] OutputField.many_back [of "tx_Outputs t"]
      OperationField.many_back [of "tx_Operations t"]
    by (cases t) (simp add: parseIntent_def IntentBytes_def intent_wf_def intent_only_def from_be_be_bytes_full)
qed

definition static_valid :: "crypto \<Rightarrow> Transaction \<Rightarrow> bool" where
  "static_valid C t \<longleftrightarrow> tx_Version t = tx_Version2 \<and> tx_Network t \<noteq> 0 \<and> tx_StateRoot t \<noteq> 0 \<and>
     length (tx_SenderPublicKey t) = 65 \<and> unmarshal_ok C (tx_SenderPublicKey t) \<and>
     AccountIDFromPublicKey (sha256 C) (tx_SenderPublicKey t) = tx_Sender t \<and> tx_Salt t \<noteq> 0 \<and>
     intent_wf t \<and> list_all (\<lambda>op. op_Kind op \<noteq> 0) (tx_Operations t) \<and>
     list_all (\<lambda>i. in_ObjectID i \<noteq> 0 \<and> in_Version i \<noteq> 0 \<and> in_ObjectHash i \<noteq> 0) (tx_Inputs t) \<and>
     distinct (map in_ObjectID (tx_Inputs t)) \<and>
     verifySignature C (tx_SenderPublicKey t) (tx_SigningDigest (sha256 C) t) (tx_Signature t) = Inr ()"

lemma check_inputs:
  "foldE check_input seen inputs = Inr seen' \<longleftrightarrow>
     list_all (\<lambda>i. in_ObjectID i \<noteq> 0 \<and> in_Version i \<noteq> 0 \<and> in_ObjectHash i \<noteq> 0) inputs \<and>
     distinct (map in_ObjectID inputs) \<and> in_ObjectID ` set inputs \<inter> seen = {} \<and> seen' = seen \<union> in_ObjectID ` set inputs"
  by (induction inputs arbitrary: seen) (auto simp: check_input_def IsZero32_def)

lemma ValidateStatic_iff: "ValidateStatic C t = Inr u \<longleftrightarrow> static_valid C t"
proof -
  have ops: "checkE check_operation (tx_Operations t) = Inr () \<longleftrightarrow>
      list_all (\<lambda>op. length (op_Payload op) \<le> MaxOpPayload) (tx_Operations t) \<and> list_all (\<lambda>op. op_Kind op \<noteq> 0) (tx_Operations t)"
    by (auto simp: checkE_ok check_operation_def list_all_iff not_less)
  have outs: "checkE check_output (tx_Outputs t) = Inr () \<longleftrightarrow> list_all output_valid (tx_Outputs t)"
    by (auto simp: checkE_ok check_output_def is_ok_iff OutputSpec_Validate_iff list_all_iff)
  show ?thesis
    by (auto simp: ValidateStatic_def static_valid_def intent_wf_def IsZero32_def check_inputs ops outs not_less)
qed

lemma static_valid_wf: "static_valid C t \<Longrightarrow> intent_wf t"
  by (simp add: static_valid_def)

lemma verifySignature_length: "verifySignature C pk d sig = Inr () \<Longrightarrow> length sig = 64"
  by (simp add: verifySignature_def split: if_splits)

lemma parse_signed_sound:
  assumes "parse_signed C ti r = Inr t"
  shows "\<exists>sig ws. length sig = 64 \<and> r = w_Bytes sig @ w_U32 (of_nat (length ws)) @ concat (map witness_bytes ws) \<and>
    length ws = length (tx_Inputs ti) \<and> list_all witness_wf ws \<and> t = ti\<lparr>tx_Signature := sig, tx_Witnesses := ws\<rparr> \<and>
    ValidateStatic C t = Inr ()"
proof -
  obtain sig r1 where 1: "r_Bytes 64 r = Inr (sig, r1)" "length sig = 64"
    and p1: "tryAs ErrWitness (r_U32 r1) (\<lambda>(count, r).
     if MaxInputs < unat count \<or> unat count \<noteq> length (tx_Inputs ti) then Inl ErrWitness else
     tryAs ErrWire (r_many (unat count) read_witness r) (\<lambda>(witnesses, r).
     tryAs ErrWire (r_Done r) (\<lambda>_.
     let t = ti\<lparr>tx_Signature := sig, tx_Witnesses := witnesses\<rparr>
     in tryE (ValidateStatic C t) (\<lambda>_. Inr t)))) = Inr t"
    using assms unfolding parse_signed_def by (auto split: if_splits)
  obtain count r2 where 2: "r_U32 r1 = Inr (count, r2)" "unat count = length (tx_Inputs ti)"
    and p2: "tryAs ErrWire (r_many (unat count) read_witness r2) (\<lambda>(witnesses, r).
     tryAs ErrWire (r_Done r) (\<lambda>_.
     let t = ti\<lparr>tx_Signature := sig, tx_Witnesses := witnesses\<rparr>
     in tryE (ValidateStatic C t) (\<lambda>_. Inr t))) = Inr t"
    using p1 by (auto split: if_splits)
  obtain ws where 3: "r_many (unat count) read_witness r2 = Inr (ws, [])"
    and p3: "tryE (ValidateStatic C (ti\<lparr>tx_Signature := sig, tx_Witnesses := ws\<rparr>)) (\<lambda>_. Inr (ti\<lparr>tx_Signature := sig, tx_Witnesses := ws\<rparr>)) = Inr t"
    using p2 by (auto simp: Let_def)
  have w: "length ws = unat count" "list_all witness_wf ws" "r2 = concat (map witness_bytes ws)"
    using 3 by (simp_all add: WitnessField.r_many_iff)
  have "w_U32 count = w_U32 (of_nat (length ws))" using w(1) by simp
  then show ?thesis
    using 1 2 w p3 by (intro exI [of _ sig] exI [of _ ws]) (auto simp: wire_iff)
qed

lemma parse_signed_complete:
  assumes "static_valid C t" "length (tx_Witnesses t) = length (tx_Inputs t)" "list_all witness_wf (tx_Witnesses t)"
  shows "parse_signed C (intent_only t) (w_Bytes (tx_Signature t) @ w_U32 (of_nat (length (tx_Witnesses t))) @
     concat (map witness_bytes (tx_Witnesses t))) = Inr t"
proof -
  have sig: "length (tx_Signature t) = 64" using assms(1) verifySignature_length by (auto simp: static_valid_def)
  have "length (tx_Inputs t) \<le> MaxInputs" using static_valid_wf [OF assms(1)] by (simp add: intent_wf_def)
  moreover from this have "unat (of_nat (length (tx_Inputs t)) :: u32) = length (tx_Inputs t)" by (intro count_back) simp
  moreover have "(intent_only t)\<lparr>tx_Signature := tx_Signature t, tx_Witnesses := tx_Witnesses t\<rparr> = t" "tx_Inputs (intent_only t) = tx_Inputs t"
    by (simp_all add: intent_only_def)
  moreover have "r_many (length (tx_Inputs t)) read_witness (concat (map witness_bytes (tx_Witnesses t))) = Inr (tx_Witnesses t, [])"
    using WitnessField.many_back_end [OF assms(3)] assms(2) by simp
  ultimately show ?thesis
    using sig assms(1,2) by (simp add: parse_signed_def Let_def ValidateStatic_iff)
qed

lemma ParseTransaction_wire:
  "ParseTransaction C bs = Inr t \<longleftrightarrow>
     tx_MarshalBinary C t = Inr bs \<and> length (IntentBytes t) \<le> MaxIntentBytes \<and> list_all witness_wf (tx_Witnesses t)"
proof
  assume p: "ParseTransaction C bs = Inr t"
  then have len: "length bs \<le> MaxWireBytes" by (simp add: ParseTransaction_def)
  obtain intent ti r where in1: "length intent \<le> MaxIntentBytes" "bs = w_Bytes intent @ r" "parseIntent intent = Inr ti"
    "parse_signed C ti r = Inr t"
    using p by (auto simp: ParseTransaction_def wire_iff)
  obtain sig ws where in2: "r = w_Bytes sig @ w_U32 (of_nat (length ws)) @ concat (map witness_bytes ws)"
    "length ws = length (tx_Inputs ti)" "list_all witness_wf ws" "t = ti\<lparr>tx_Signature := sig, tx_Witnesses := ws\<rparr>" "ValidateStatic C t = Inr ()"
    using parse_signed_sound [OF in1(4)] by blast
  have sel: "tx_Signature t = sig" "tx_Witnesses t = ws" "tx_Inputs t = tx_Inputs ti" "IntentBytes t = IntentBytes ti"
    unfolding in2(4) by (simp_all add: IntentBytes_def)
  have "intent = IntentBytes t" using parseIntent_sound [OF in1(3)] sel(4) by simp
  then have "bs = wire_payload t" "length (IntentBytes t) \<le> MaxIntentBytes" using in1(1,2) in2(1) sel by (simp_all add: wire_payload_def)
  then show "tx_MarshalBinary C t = Inr bs \<and> length (IntentBytes t) \<le> MaxIntentBytes \<and> list_all witness_wf (tx_Witnesses t)"
    using in2(2,3,5) len sel by (simp add: tx_MarshalBinary_def Let_def)
next
  assume m: "tx_MarshalBinary C t = Inr bs \<and> length (IntentBytes t) \<le> MaxIntentBytes \<and> list_all witness_wf (tx_Witnesses t)"
  then have v: "static_valid C t" "length (tx_Witnesses t) = length (tx_Inputs t)" "bs = wire_payload t" "length bs \<le> MaxWireBytes"
    by (auto simp: tx_MarshalBinary_def ValidateStatic_iff Let_def split: if_splits)
  have "bs \<noteq> []" unfolding v(3) wire_payload_def by (auto dest: arg_cong [of _ _ length])
  moreover have "r_Bytes 25165824 bs = Inr (IntentBytes t, w_Bytes (tx_Signature t) @ w_U32 (of_nat (length (tx_Witnesses t))) @
     concat (map witness_bytes (tx_Witnesses t)))"
    unfolding v(3) wire_payload_def using m by simp
  ultimately show "ParseTransaction C bs = Inr t"
    using m v(4) parseIntent_complete [OF static_valid_wf [OF v(1)]] parse_signed_complete [OF v(1,2)]
    by (simp add: ParseTransaction_def)
qed


subsection \<open>Signing\<close>

lemma normalizeLowS_eq: "normalizeLowS s = (if halfOrder < s then p256_order - s else s)"
  by (simp add: normalizeLowS_def halfOrder_def)

lemma verifyDigest_Signature:
  "verifyDigest C pk d sig = Inr () \<Longrightarrow> verifySignature C pk d sig = Inr ()"
  by (auto simp: verifyDigest_def verifySignature_def Let_def halfOrder_def split: if_splits)

lemma tx_Sign_signature:
  assumes "ecdsa_contract C k" "length (sk_public k) = 65" "unmarshal_ok C (sk_public k)" "tx_Sign C (Some k) t = (Inr (), t')"
  shows "verifySignature C (sk_public k) (tx_SigningDigest (sha256 C) t') (tx_Signature t') = Inr ()"
    "tx_Version t' = tx_Version2" "tx_SenderPublicKey t' = sk_public k" "tx_Sender t' = AccountIDFromPublicKey (sha256 C) (sk_public k)"
    "t'\<lparr>tx_Version := v, tx_SenderPublicKey := p, tx_Sender := a, tx_Signature := x\<rparr> =
     t\<lparr>tx_Version := v, tx_SenderPublicKey := p, tx_Sender := a, tx_Signature := x\<rparr>"
proof -
  let ?t = "t\<lparr>tx_Version := tx_Version2, tx_SenderPublicKey := sk_public k, tx_Sender := AccountIDFromPublicKey (sha256 C) (sk_public k)\<rparr>"
  obtain r s where rs: "sk_sign k (tx_SigningDigest (sha256 C) ?t) = Some (r, s)" "t' = ?t\<lparr>tx_Signature := pad32 r @ pad32 (normalizeLowS s)\<rparr>"
    using assms(4) by (auto simp: tx_Sign_def Let_def split: if_splits option.splits)
  have d: "tx_SigningDigest (sha256 C) t' = tx_SigningDigest (sha256 C) ?t"
    unfolding rs(2) by (simp add: tx_SigningDigest_def IntentBytes_def)
  have "signDigest k (tx_SigningDigest (sha256 C) ?t) = Inr (tx_Signature t')"
    using rs by (simp add: signDigest_def normalizeLowS_eq Let_def)
  from signDigest_verifies [OF assms(1-3) this]
  show "verifySignature C (sk_public k) (tx_SigningDigest (sha256 C) t') (tx_Signature t') = Inr ()"
    using verifyDigest_Signature d by simp
  show "tx_Version t' = tx_Version2" "tx_SenderPublicKey t' = sk_public k" "tx_Sender t' = AccountIDFromPublicKey (sha256 C) (sk_public k)"
    "t'\<lparr>tx_Version := v, tx_SenderPublicKey := p, tx_Sender := a, tx_Signature := x\<rparr> =
     t\<lparr>tx_Version := v, tx_SenderPublicKey := p, tx_Sender := a, tx_Signature := x\<rparr>"
    unfolding rs(2) by simp_all
qed

subsection \<open>Witnesses\<close>

text \<open>The strings hashed to check a witness, and those that commit the state to the object of the same identifier.\<close>

definition object_frame :: "Object \<Rightarrow> byte list" where
  "object_frame o' = frame ''zephyr/object/v2'' (Object_CanonicalBytes o')"

definition witness_frames :: "hashfun \<Rightarrow> Witness \<Rightarrow> byte list list" where
  "witness_frames H w =
     (let key = obj_ID (wit_Object w); leaf = smt_leaf_frame key (Some (be_bytes 32 (Object_Hash H (wit_Object w))))
      in object_frame (wit_Object w) # leaf #
         smt_climb_frames H key 0 (usedSiblings H (wit_Proof w) [0..<Depth] 0) (H leaf))"

definition state_frames :: "hashfun \<Rightarrow> objects \<Rightarrow> objectid \<Rightarrow> byte list list" where
  "state_frames H objs oid =
     (case objs oid of None \<Rightarrow> [] | Some o' \<Rightarrow> [object_frame o']) @ smt_path_frames H (object_values H objs) oid Depth"

lemma Object_Hash_frame: "Object_Hash H o' = H (object_frame o')"
  by (simp add: Object_Hash_def DomainHash_framing object_frame_def)

lemma object_frame_inject:
  assumes "object_frame o1 = object_frame o2" "object_valid o1" "object_valid o2"
  shows "o1 = o2"
proof -
  have "length (Object_CanonicalBytes o1) < 2 ^ 32" "length (Object_CanonicalBytes o2) < 2 ^ 32"
    using assms(2,3) by (simp_all add: length_Object_CanonicalBytes object_valid_def)
  then have "Object_CanonicalBytes o1 = Object_CanonicalBytes o2"
    using frame_inject [OF assms(1) [unfolded object_frame_def]] by simp
  then show ?thesis using ObjectWire.enc_inject assms(2,3) by blast
qed

lemma witness_shows_object:
  assumes inv: "MemInv H m" and ok: "object_valid (wit_Object w)"
    and v: "verify_witness H (mem_Root m) (inp, w) = Inr ()"
    and nc: "\<not> collides H (witness_frames H w) (state_frames H (mem_objects m) (in_ObjectID inp))"
  shows "GetObject m (in_ObjectID inp) = Some (wit_Object w)"
proof -
  let ?o = "wit_Object w" and ?key = "in_ObjectID inp" and ?f = "object_values H (mem_objects m)"
  have key: "obj_ID ?o = ?key" and sv: "smt_Verify H (mem_Root m) ?key (Some (be_bytes 32 (Object_Hash H ?o))) (wit_Proof w)"
    using v by (auto simp: verify_witness_def Let_def split: if_splits)
  have len: "length (slice_bytes (Some (be_bytes 32 (Object_Hash H ?o)))) + 36 < 2 ^ 32" "length (slice_bytes (?f ?key)) + 36 < 2 ^ 32"
    by (simp_all add: slice_bytes_def object_values_def split: option.split)
  have "\<not> collides H (smt_leaf_frame ?key (Some (be_bytes 32 (Object_Hash H ?o))) #
        smt_climb_frames H ?key 0 (usedSiblings H (wit_Proof w) [0..<Depth] 0) (H (smt_leaf_frame ?key (Some (be_bytes 32 (Object_Hash H ?o))))))
      (smt_path_frames H ?f ?key Depth)"
    by (rule collides_antimono [OF nc]) (auto simp: witness_frames_def state_frames_def key Let_def)
  then have "?f ?key = Some (be_bytes 32 (Object_Hash H ?o))"
    using smt_sound [OF sv [unfolded mem_Root_canonical [OF inv]] len] by blast
  then obtain o' where o': "mem_objects m ?key = Some o'" "Object_Hash H o' = Object_Hash H ?o"
    using be_bytes_inject [where 'a = 256 and n = 32] by (auto simp: object_values_def)
  have "object_valid o'" using o'(1) inv unfolding MemInv_def objects_ok_def by blast
  moreover have "object_frame ?o = object_frame o'"
    by (rule no_collision [OF nc]) (use o' in \<open>simp_all add: witness_frames_def state_frames_def Let_def flip: Object_Hash_frame\<close>)
  ultimately have "o' = ?o" using object_frame_inject ok by blast
  then show ?thesis using o'(1) by (simp add: GetObject_def)
qed

definition object_input :: "hashfun \<Rightarrow> Object \<Rightarrow> InputRef" where
  "object_input H o' = \<lparr>in_ObjectID = obj_ID o', in_Version = obj_Version o', in_ObjectHash = Object_Hash H o'\<rparr>"

definition object_witness :: "Memory \<Rightarrow> Object \<Rightarrow> Witness" where
  "object_witness m o' = \<lparr>wit_Object = o', wit_Proof = snd (mem_Proof m (obj_ID o'))\<rparr>"

lemma object_witness_verifies:
  assumes "MemInv H m" "GetObject m (obj_ID o') = Some o'"
  shows "verify_witness H (mem_Root m) (object_input H o', object_witness m o') = Inr ()"
  using mem_Proof_verifies [OF assms(1), of "obj_ID o'"] assms(2)
  by (simp add: verify_witness_def object_input_def object_witness_def GetObject_def mem_Proof_def)

lemma VerifyWitnesses_nth:
  assumes "VerifyWitnesses H t = Inr ()" "i < length (tx_Inputs t)"
  shows "verify_witness H (tx_StateRoot t) (tx_Inputs t ! i, tx_Witnesses t ! i) = Inr ()" "length (tx_Witnesses t) = length (tx_Inputs t)"
proof -
  show len: "length (tx_Witnesses t) = length (tx_Inputs t)" using assms(1) by (simp add: VerifyWitnesses_def split: if_splits)
  have "(tx_Inputs t ! i, tx_Witnesses t ! i) \<in> set (zip (tx_Inputs t) (tx_Witnesses t))"
    using assms(2) len by (metis length_zip min.idem nth_mem nth_zip)
  then show "verify_witness H (tx_StateRoot t) (tx_Inputs t ! i, tx_Witnesses t ! i) = Inr ()"
    using assms(1) by (simp add: VerifyWitnesses_def checkE_ok len)
qed

subsection \<open>Transactions as a whole\<close>

text \<open>
  C36. The parser accepts exactly what \<open>MarshalBinary\<close> produces for a transaction that validates, whose intent
  is within the 24 MiB it reads, and whose witnesses hold valid objects and well-formed proofs. So a transaction has one
  encoding, and everything parsed has passed \<open>ValidateStatic\<close>.
\<close>

theorem transaction_wire_canonical:
  "ParseTransaction C bs = Inr t \<longleftrightarrow>
     tx_MarshalBinary C t = Inr bs \<and> length (IntentBytes t) \<le> MaxIntentBytes \<and> list_all witness_wf (tx_Witnesses t)"
  by (rule ParseTransaction_wire)

text \<open>
  C37. Accepted witnesses tell the truth. When \<open>VerifyWitnesses\<close> accepts a transaction whose state root is the root of
  a store that some deltas built, every witness object is the object that the store holds under that input's
  identifier, unless two of the strings hashed by the check and by the store on that path collide.
\<close>

theorem witnesses_sound:
  assumes "VerifyWitnesses H t = Inr ()" "list_all (\<lambda>w. object_valid (wit_Object w)) (tx_Witnesses t)"
    and "covers ord" "tx_StateRoot t = mem_Root (memAfter H ord ds)" "i < length (tx_Inputs t)"
  shows "GetObject (memAfter H ord ds) (in_ObjectID (tx_Inputs t ! i)) = Some (wit_Object (tx_Witnesses t ! i)) \<or>
    collides H (witness_frames H (tx_Witnesses t ! i))
      (state_frames H (mem_objects (memAfter H ord ds)) (in_ObjectID (tx_Inputs t ! i)))"
proof -
  note v = VerifyWitnesses_nth [OF assms(1,5)]
  have "object_valid (wit_Object (tx_Witnesses t ! i))" using assms(2,5) v(2) by (simp add: list_all_length)
  then show ?thesis
    using witness_shows_object [OF memAfter_inv [OF assms(3)] _ v(1) [unfolded assms(4)]] by blast
qed

text \<open>The conditions on the parts that the signer chooses.\<close>

definition parts_ok :: "hashfun \<Rightarrow> signer \<Rightarrow> Object list \<Rightarrow> Transaction \<Rightarrow> bool" where
  "parts_ok H k os t \<longleftrightarrow> tx_Network t \<noteq> 0 \<and> tx_StateRoot t \<noteq> 0 \<and> tx_Salt t \<noteq> 0 \<and> intent_wf (t\<lparr>tx_SenderPublicKey := sk_public k\<rparr>) \<and>
     list_all (\<lambda>op. op_Kind op \<noteq> 0) (tx_Operations t) \<and> list_all (\<lambda>o'. Object_Hash H o' \<noteq> 0) os \<and> distinct (map obj_ID os)"

lemma signed_transaction_exact:
  assumes "covers ord" "list_all (\<lambda>o'. GetObject (memAfter H ord ds) (obj_ID o') = Some o') os"
    and "tx_Inputs t = map (object_input H) os" "tx_Witnesses t = map (object_witness (memAfter H ord ds)) os"
    and "tx_StateRoot t = mem_Root (memAfter H ord ds)"
    and "sha256 C = H" "ecdsa_contract C k" "length (sk_public k) = 65" "unmarshal_ok C (sk_public k)"
    and "tx_Sign C (Some k) t = (Inr (), t')"
  shows "VerifyWitnesses H t' = Inr () \<and> (ValidateStatic C t' = Inr () \<longleftrightarrow> parts_ok H k os t)"
proof -
  note sg = tx_Sign_signature [OF assms(7-10)]
  have sel: "tx_Inputs t' = tx_Inputs t" "tx_Witnesses t' = tx_Witnesses t" "tx_StateRoot t' = tx_StateRoot t" "tx_Network t' = tx_Network t"
      "tx_Salt t' = tx_Salt t" "tx_Operations t' = tx_Operations t" "tx_Outputs t' = tx_Outputs t"
    using arg_cong [OF sg(5), of tx_Inputs] arg_cong [OF sg(5), of tx_Witnesses] arg_cong [OF sg(5), of tx_StateRoot]
      arg_cong [OF sg(5), of tx_Network] arg_cong [OF sg(5), of tx_Salt] arg_cong [OF sg(5), of tx_Operations]
      arg_cong [OF sg(5), of tx_Outputs] by simp_all
  have wf: "intent_wf t' \<longleftrightarrow> intent_wf (t\<lparr>tx_SenderPublicKey := sk_public k\<rparr>)" using sel sg(3) by (simp add: intent_wf_def)
  have inv: "MemInv H (memAfter H ord ds)" using assms(1) by (rule memAfter_inv)
  let ?m = "memAfter H ord ds"
  have at: "GetObject ?m (obj_ID o') = Some o'" if "o' \<in> set os" for o' using assms(2) that by (simp add: list_all_iff)
  have "checkE (verify_witness H (mem_Root ?m)) (zip (map (object_input H) os) (map (object_witness ?m) os)) = Inr ()"
    unfolding checkE_ok set_zip using object_witness_verifies [OF inv at] by auto
  then have w: "VerifyWitnesses H t' = Inr ()" using assms(3-5) sel by (simp add: VerifyWitnesses_def)
  have "object_valid o'" if "o' \<in> set os" for o'
    using inv at [OF that] unfolding MemInv_def objects_ok_def GetObject_def by blast
  then have "list_all (\<lambda>i. in_ObjectID i \<noteq> 0 \<and> in_Version i \<noteq> 0 \<and> in_ObjectHash i \<noteq> 0) (map (object_input H) os) \<longleftrightarrow>
      list_all (\<lambda>o'. Object_Hash H o' \<noteq> 0) os"
    by (auto simp: list_all_iff object_input_def object_valid_def)
  moreover have "map in_ObjectID (map (object_input H) os) = map obj_ID os" by (simp add: object_input_def comp_def)
  ultimately have "static_valid C t' \<longleftrightarrow> parts_ok H k os t"
    using assms(3,8,9) sel sg(1-4) wf unfolding static_valid_def parts_ok_def by (simp del: list.map_comp map_map)
  with w show ?thesis by (simp add: ValidateStatic_iff)
qed

text \<open>
  C38. A transaction that spends stored objects, with the store's proofs as witnesses and the store's root, once signed
  with a P-256 key always passes \<open>VerifyWitnesses\<close>. It passes \<open>ValidateStatic\<close> exactly when the parts that the signer
  chose are well formed: network, root and salt are not zero, inputs, outputs, operations and payloads are within their
  limits, every output is valid, there is an operation and none has kind zero, no object is spent twice, and no object
  hashes to zero. So neither the proofs nor the signature are ever the reason of a refusal.
\<close>

theorem built_transaction_valid:
  assumes "covers ord" "list_all (\<lambda>o'. GetObject (memAfter H ord ds) (obj_ID o') = Some o') os"
    and "tx_Inputs t = map (object_input H) os" "tx_Witnesses t = map (object_witness (memAfter H ord ds)) os"
    and "tx_StateRoot t = mem_Root (memAfter H ord ds)"
    and "sha256 C = H" "ecdsa_contract C k" "length (sk_public k) = 65" "unmarshal_ok C (sk_public k)"
    and "tx_Sign C (Some k) t = (Inr (), t')"
  shows "VerifyWitnesses H t' = Inr () \<and>
    (ValidateStatic C t' = Inr () \<longleftrightarrow>
       tx_Network t \<noteq> 0 \<and> tx_StateRoot t \<noteq> 0 \<and> tx_Salt t \<noteq> 0 \<and>
       length (tx_Inputs t) \<le> MaxInputs \<and> length (tx_Outputs t) \<le> MaxOutputs \<and> list_all output_valid (tx_Outputs t) \<and>
       tx_Operations t \<noteq> [] \<and> length (tx_Operations t) \<le> MaxOperations \<and>
       list_all (\<lambda>op. op_Kind op \<noteq> 0 \<and> length (op_Payload op) \<le> MaxOpPayload) (tx_Operations t) \<and>
       distinct (map obj_ID os) \<and> list_all (\<lambda>o'. Object_Hash H o' \<noteq> 0) os)"
  using signed_transaction_exact [OF assms] assms(8) by (auto simp: parts_ok_def intent_wf_def list_all_iff)


definition unsigned_tx :: "hashfun \<Rightarrow> Memory \<Rightarrow> u32 \<Rightarrow> Object list \<Rightarrow> OutputSpec list \<Rightarrow> Operation \<Rightarrow> u64 \<Rightarrow> Transaction" where
  "unsigned_tx H m shard os outs op fee =
     \<lparr>tx_Version = 0, tx_Network = 9, tx_ShardID = shard, tx_Sender = 0, tx_SenderPublicKey = [], tx_StateRoot = mem_Root m,
      tx_Inputs = map (object_input H) os, tx_Outputs = outs, tx_Operations = [op], tx_Fee = fee, tx_ValidUntilHeight = 0,
      tx_Salt = 1, tx_Signature = [], tx_Witnesses = map (object_witness m) os\<rparr>"

definition sample_op :: Operation where
  "sample_op = \<lparr>op_Kind = OpTransfer, op_Payload = []\<rparr>"

abbreviation sample_store :: Memory where
  "sample_store \<equiv> memAfter toy_hash rev [([], [sample_object 3])]"

lemma sample_store_object: "GetObject sample_store 3 = Some (sample_object 3)"
  by (simp add: memAfter_def NewMemory_def GetObject_def mem_Apply_def prevalidate_def
      create_check_def Object_Validate_def validateOwnerForKind_def sample_object_def IsZero32_def
      applyMirror_def Let_def case_prod_beta)

lemma canonicalRoot_toy: "canonicalRoot toy_hash f \<noteq> 0"
proof -
  have "canonicalRoot toy_hash f = branchHash toy_hash (ideal toy_hash f 255 0) (ideal toy_hash f 255 (set_bit 255 0))"
    using ideal.simps(2) [of toy_hash f 255 0] by (simp add: canonicalRoot_def)
  then show ?thesis by (simp add: branchHash_def)
qed

lemma sample_object_hash: "Object_Hash toy_hash (sample_object x) \<noteq> 0"
  by (simp add: Object_Hash_def length_Object_CanonicalBytes sample_object_def)

lemma sample_signed: "\<exists>t'. tx_Sign toy_crypto (Some (toy_signer 4)) t = (Inr (), t')"
  by (simp add: tx_Sign_def toy_signer_def Let_def)

lemma sample_sender [simp]: "length (sk_public (toy_signer b)) = 65" "sk_P256 (toy_signer b)"
  by (simp_all add: toy_signer_def)

theorem built_transaction_valid_witness:
  "\<exists>t'. tx_Sign toy_crypto (Some (toy_signer 4)) (unsigned_tx toy_hash sample_store 0 [sample_object 3] [] sample_op 0) = (Inr (), t') \<and>
     VerifyWitnesses toy_hash t' = Inr () \<and> ValidateStatic toy_crypto t' = Inr ()"
proof -
  let ?t = "unsigned_tx toy_hash sample_store 0 [sample_object 3] [] sample_op 0"
  obtain t' where t': "tx_Sign toy_crypto (Some (toy_signer 4)) ?t = (Inr (), t')" using sample_signed by blast
  have root: "mem_Root sample_store \<noteq> 0"
    using mem_Root_canonical [OF memAfter_inv, of rev toy_hash] canonicalRoot_toy by simp
  have "VerifyWitnesses toy_hash t' = Inr () \<and> ValidateStatic toy_crypto t' = Inr ()"
    using built_transaction_valid [OF _ _ _ _ _ _ toy_contract _ _ t', where ord = rev and os = "[sample_object 3]" and ds = "[([], [sample_object 3])]"] root
    by (simp add: unsigned_tx_def sample_store_object sample_object_hash sample_op_def)
  with t' show ?thesis by blast
qed

theorem witnesses_sound_witness:
  "GetObject sample_store 3 = Some (sample_object 3) \<or>
   collides toy_hash (witness_frames toy_hash (object_witness sample_store (sample_object 3)))
     (state_frames toy_hash (mem_objects sample_store) 3)"
proof -
  let ?t = "unsigned_tx toy_hash sample_store 0 [sample_object 3] [] sample_op 0"
  have "VerifyWitnesses toy_hash ?t = Inr ()"
    using object_witness_verifies [OF memAfter_inv [OF covers_simps(1)], of toy_hash "[([], [sample_object 3])]" "sample_object 3"]
    by (simp add: VerifyWitnesses_def unsigned_tx_def sample_store_object)
  moreover have "list_all (\<lambda>w. object_valid (wit_Object w)) (tx_Witnesses ?t)"
    by (simp add: unsigned_tx_def object_witness_def)
  ultimately show ?thesis
    using witnesses_sound [of toy_hash ?t rev "[([], [sample_object 3])]" 0]
    by (simp add: unsigned_tx_def object_input_def object_witness_def)
qed

end
