(* ===== verification/GoStrings.thy ===== *)
theory GoStrings
  imports Codec "HOL-Library.Sublist"
begin

text \<open>
  What the code uses of the packages \<open>strings\<close> and \<open>unicode/utf8\<close>. A Go string is its bytes. \<open>strings.TrimSpace\<close> is
  modelled on the UTF-8 encodings of the Unicode white space characters, which is where its rune decoding can succeed at
  either end. \<open>utf8.Valid\<close> follows the table of well-formed byte sequences.

  The lemmas show that trimming is idempotent and never lengthens a string.
\<close>

subsection \<open>White space\<close>

definition white_space :: "byte list list" where
  "white_space =
     [[9], [10], [11], [12], [13], [32], [0xC2, 0x85], [0xC2, 0xA0], [0xE1, 0x9A, 0x80]] @
     map (\<lambda>b. [0xE2, 0x80, b]) [0x80, 0x81, 0x82, 0x83, 0x84, 0x85, 0x86, 0x87, 0x88, 0x89, 0x8A, 0xA8, 0xA9, 0xAF] @
     [[0xE2, 0x81, 0x9F], [0xE3, 0x80, 0x80]]"

function strip :: "byte list list \<Rightarrow> byte list \<Rightarrow> byte list" where
  "strip encs s =
     (case find (\<lambda>e. e \<noteq> [] \<and> prefix e s) encs of
        None \<Rightarrow> s
      | Some e \<Rightarrow> strip encs (drop (length e) s))"
  by pat_completeness auto

termination strip
proof (relation "measure (\<lambda>(encs, s). length s)")
  fix encs s e
  assume "find (\<lambda>e. e \<noteq> [] \<and> prefix e s) encs = Some e"
  then have "e \<noteq> []" "prefix e s" by (auto simp: find_Some_iff)
  then show "((encs, drop (length e) s), encs, s) \<in> measure (\<lambda>(encs, s). length s)"
    using prefix_length_le [of e s] by (cases e) auto
qed simp

declare strip.simps [simp del]

definition TrimSpace :: "byte list \<Rightarrow> byte list" where
  "TrimSpace s = rev (strip (map rev white_space) (rev (strip white_space s)))"

subsection \<open>Valid UTF-8\<close>

definition utf8_cont :: "byte \<Rightarrow> bool" where
  "utf8_cont b \<longleftrightarrow> 0x80 \<le> b \<and> b \<le> 0xBF"

definition utf8_rune3 :: "byte \<Rightarrow> byte \<Rightarrow> byte \<Rightarrow> bool" where
  "utf8_rune3 a b c \<longleftrightarrow>
     (a = 0xE0 \<and> 0xA0 \<le> b \<and> b \<le> 0xBF \<or> a = 0xED \<and> 0x80 \<le> b \<and> b \<le> 0x9F \<or>
      0xE0 < a \<and> a \<le> 0xEF \<and> a \<noteq> 0xED \<and> utf8_cont b) \<and> utf8_cont c"

definition utf8_rune4 :: "byte \<Rightarrow> byte \<Rightarrow> byte \<Rightarrow> byte \<Rightarrow> bool" where
  "utf8_rune4 a b c d \<longleftrightarrow>
     (a = 0xF0 \<and> 0x90 \<le> b \<and> b \<le> 0xBF \<or> a = 0xF4 \<and> 0x80 \<le> b \<and> b \<le> 0x8F \<or>
      0xF0 < a \<and> a < 0xF4 \<and> utf8_cont b) \<and> utf8_cont c \<and> utf8_cont d"

fun utf8_Valid :: "byte list \<Rightarrow> bool" where
  "utf8_Valid [] = True"
| "utf8_Valid (a # s) =
     (if a < 0x80 then utf8_Valid s
      else case s of
        [] \<Rightarrow> False
      | b # s2 \<Rightarrow>
          if 0xC2 \<le> a \<and> a \<le> 0xDF then utf8_cont b \<and> utf8_Valid s2
          else case s2 of
            [] \<Rightarrow> False
          | c # s3 \<Rightarrow>
              if 0xE0 \<le> a \<and> a \<le> 0xEF then utf8_rune3 a b c \<and> utf8_Valid s3
              else case s3 of [] \<Rightarrow> False | d # s4 \<Rightarrow> utf8_rune4 a b c d \<and> utf8_Valid s4)"

subsection \<open>Trimming\<close>

definition stripped :: "byte list list \<Rightarrow> byte list \<Rightarrow> bool" where
  "stripped encs s \<longleftrightarrow> (\<forall>e \<in> set encs. e \<noteq> [] \<longrightarrow> \<not> prefix e s)"

lemma stripped_find: "stripped encs s \<longleftrightarrow> find (\<lambda>e. e \<noteq> [] \<and> prefix e s) encs = None"
  by (auto simp: stripped_def find_None_iff)

lemma strip_id: "stripped encs s \<Longrightarrow> strip encs s = s"
  by (simp add: strip.simps [of encs s] stripped_find)

lemma strip_suffix: "stripped encs (strip encs s) \<and> suffix (strip encs s) s"
proof (induction encs s rule: strip.induct)
  case (1 encs s)
  show ?case
  proof (cases "find (\<lambda>e. e \<noteq> [] \<and> prefix e s) encs")
    case None
    then show ?thesis by (simp add: strip.simps [of encs s] stripped_find)
  next
    case (Some e)
    then show ?thesis
      using 1 by (auto simp: strip.simps [of encs s] intro: suffix_order.trans [OF _ suffix_drop])
  qed
qed

lemma stripped_prefix: "stripped encs s \<Longrightarrow> prefix t s \<Longrightarrow> stripped encs t"
  unfolding stripped_def by (meson prefix_order.trans)

lemma TrimSpace_idem [simp]: "TrimSpace (TrimSpace s) = TrimSpace s"
proof -
  let ?l = "strip white_space s" and ?r = "map rev white_space"
  have l: "stripped white_space ?l" and r: "stripped ?r (strip ?r (rev ?l))" "suffix (strip ?r (rev ?l)) (rev ?l)"
    using strip_suffix by blast+
  have "prefix (TrimSpace s) ?l" using r(2) by (simp add: TrimSpace_def suffix_to_prefix)
  then have "strip white_space (TrimSpace s) = TrimSpace s" using strip_id [OF stripped_prefix [OF l]] by simp
  then show ?thesis using strip_id [OF r(1)] by (simp add: TrimSpace_def)
qed

lemma length_TrimSpace: "length (TrimSpace s) \<le> length s"
  using strip_suffix [of white_space s] strip_suffix [of "map rev white_space" "rev (strip white_space s)"]
  unfolding TrimSpace_def by (metis le_trans length_rev suffix_length_le)

lemma strip_no_space: "list_all (\<lambda>e. e \<noteq> [] \<longrightarrow> \<not> prefix e s) encs \<Longrightarrow> strip encs s = s"
  by (rule strip_id) (simp add: stripped_def list_all_iff)

lemma TrimSpace_samples [simp]: "TrimSpace [90, 101] = [90, 101]" "TrimSpace [90] = [90]"
  by (simp_all add: TrimSpace_def strip_no_space white_space_def)

end
