(* ===== verification/Assets.thy ===== *)
theory Assets
  imports GoStrings
begin

text \<open>
  Token definitions and the token messages (\<open>internal/v2/assets/token.go\<close>).

  A \<open>SupplyPolicy\<close> is an open \<open>uint8\<close> with three named values.

  The lemmas show that minting and burning keep a definition valid and its supply exact and within the cap, and that
  the messages are read back with their names trimmed.
\<close>

subsection \<open>Data\<close>

type_synonym supply_policy = u8

abbreviation SupplyCapped :: supply_policy where "SupplyCapped \<equiv> 0"
abbreviation SupplyFixed :: supply_policy where "SupplyFixed \<equiv> 1"
abbreviation SupplyMintable :: supply_policy where "SupplyMintable \<equiv> 2"

record Definition =
  td_TokenID :: tokenid
  td_Name :: "byte list"
  td_Symbol :: "byte list"
  td_Decimals :: u8
  td_SupplyPolicy :: supply_policy
  td_MaxSupply :: u64
  td_CurrentSupply :: u64
  td_MintAuthority :: accountid
  td_Burnable :: bool
  td_Transferable :: bool

record CreateToken =
  ct_Name :: "byte list"
  ct_Symbol :: "byte list"
  ct_Decimals :: u8
  ct_SupplyPolicy :: supply_policy
  ct_MaxSupply :: u64
  ct_InitialSupply :: u64
  ct_MintAuthority :: accountid
  ct_Burnable :: bool
  ct_Transferable :: bool

record MintToken =
  mt_DefinitionObject :: objectid
  mt_Recipient :: accountid
  mt_Amount :: u64

record BurnToken =
  bt_DefinitionObject :: objectid
  bt_Amount :: u64

subsection \<open>Operations\<close>

definition CreateToken_Validate :: "CreateToken \<Rightarrow> unit result" where
  "CreateToken_Validate c =
     (let name = TrimSpace (ct_Name c); symbol = TrimSpace (ct_Symbol c)
      in if name = [] \<or> 64 < length name \<or> symbol = [] \<or> 16 < length symbol \<or> 18 < ct_Decimals c \<or>
            ct_InitialSupply c = 0 \<or> IsZero32 (ct_MintAuthority c) then Inl ErrInvalidTokenDefinition
         else if ct_SupplyPolicy c = SupplyCapped then
           (if ct_MaxSupply c = 0 \<or> ct_MaxSupply c < ct_InitialSupply c then Inl ErrInvalidTokenDefinition else Inr ())
         else if ct_SupplyPolicy c = SupplyFixed then
           (if ct_MaxSupply c = 0 \<or> ct_InitialSupply c \<noteq> ct_MaxSupply c then Inl ErrInvalidTokenDefinition else Inr ())
         else if ct_SupplyPolicy c = SupplyMintable then
           (if ct_MaxSupply c \<noteq> 0 then Inl ErrInvalidTokenDefinition else Inr ())
         else Inl ErrInvalidTokenDefinition)"

definition CreateToken_encode :: "CreateToken \<Rightarrow> byte list" where
  "CreateToken_encode c =
     w_Bytes (TrimSpace (ct_Name c)) @ w_Bytes (TrimSpace (ct_Symbol c)) @ w_U8 (ct_Decimals c) @ w_U8 (ct_SupplyPolicy c) @
     w_U64 (ct_MaxSupply c) @ w_U64 (ct_InitialSupply c) @ w_Fixed32 (ct_MintAuthority c) @
     w_Bool (ct_Burnable c) @ w_Bool (ct_Transferable c)"

definition CreateToken_MarshalBinary :: "CreateToken \<Rightarrow> byte list result" where
  "CreateToken_MarshalBinary c = tryE (CreateToken_Validate c) (\<lambda>_. Inr (CreateToken_encode c))"

definition ParseCreateToken :: "byte list \<Rightarrow> CreateToken result" where
  "ParseCreateToken data =
     tryAs ErrInvalidTokenDefinition (r_Bytes 64 data) (\<lambda>(name, r).
     tryAs ErrInvalidTokenDefinition (r_Bytes 16 r) (\<lambda>(symbol, r).
     tryAs ErrInvalidTokenDefinition (r_U8 r) (\<lambda>(decimals, r).
     tryAs ErrInvalidTokenDefinition (r_U8 r) (\<lambda>(policy, r).
     tryAs ErrInvalidTokenDefinition (r_U64 r) (\<lambda>(maxSupply, r).
     tryAs ErrInvalidTokenDefinition (r_U64 r) (\<lambda>(initialSupply, r).
     tryAs ErrInvalidTokenDefinition (r_Fixed32 r) (\<lambda>(authority, r).
     tryAs ErrInvalidTokenDefinition (r_Bool r) (\<lambda>(burnable, r).
     tryAs ErrInvalidTokenDefinition (r_Bool r) (\<lambda>(transferable, r).
     tryAs ErrInvalidTokenDefinition (r_Done r) (\<lambda>_.
     let out = \<lparr>ct_Name = name, ct_Symbol = symbol, ct_Decimals = decimals, ct_SupplyPolicy = policy,
                ct_MaxSupply = maxSupply, ct_InitialSupply = initialSupply, ct_MintAuthority = authority,
                ct_Burnable = burnable, ct_Transferable = transferable\<rparr>
     in tryE (CreateToken_Validate out) (\<lambda>_. Inr out)))))))))))"

definition Definition_Validate :: "Definition \<Rightarrow> unit result" where
  "Definition_Validate d =
     (if IsZero32 (td_TokenID d) \<or> TrimSpace (td_Name d) = [] \<or> TrimSpace (td_Symbol d) = [] \<or>
         18 < td_Decimals d \<or> IsZero32 (td_MintAuthority d) then Inl ErrInvalidTokenDefinition
      else if td_SupplyPolicy d = SupplyCapped \<or> td_SupplyPolicy d = SupplyFixed then
        (if td_MaxSupply d = 0 \<or> td_MaxSupply d < td_CurrentSupply d then Inl ErrInvalidTokenDefinition else Inr ())
      else if td_SupplyPolicy d = SupplyMintable then
        (if td_MaxSupply d \<noteq> 0 then Inl ErrInvalidTokenDefinition else Inr ())
      else Inl ErrInvalidTokenDefinition)"

definition Definition_encode :: "Definition \<Rightarrow> byte list" where
  "Definition_encode d =
     w_Fixed32 (td_TokenID d) @ w_Bytes (TrimSpace (td_Name d)) @ w_Bytes (TrimSpace (td_Symbol d)) @
     w_U8 (td_Decimals d) @ w_U8 (td_SupplyPolicy d) @ w_U64 (td_MaxSupply d) @ w_U64 (td_CurrentSupply d) @
     w_Fixed32 (td_MintAuthority d) @ w_Bool (td_Burnable d) @ w_Bool (td_Transferable d)"

definition Definition_MarshalBinary :: "Definition \<Rightarrow> byte list result" where
  "Definition_MarshalBinary d = tryE (Definition_Validate d) (\<lambda>_. Inr (Definition_encode d))"

definition ParseDefinition :: "byte list \<Rightarrow> Definition result" where
  "ParseDefinition data =
     tryAs ErrInvalidTokenDefinition (r_Fixed32 data) (\<lambda>(token, r).
     tryAs ErrInvalidTokenDefinition (r_Bytes 64 r) (\<lambda>(name, r).
     tryAs ErrInvalidTokenDefinition (r_Bytes 16 r) (\<lambda>(symbol, r).
     tryAs ErrInvalidTokenDefinition (r_U8 r) (\<lambda>(decimals, r).
     tryAs ErrInvalidTokenDefinition (r_U8 r) (\<lambda>(policy, r).
     tryAs ErrInvalidTokenDefinition (r_U64 r) (\<lambda>(maxSupply, r).
     tryAs ErrInvalidTokenDefinition (r_U64 r) (\<lambda>(currentSupply, r).
     tryAs ErrInvalidTokenDefinition (r_Fixed32 r) (\<lambda>(authority, r).
     tryAs ErrInvalidTokenDefinition (r_Bool r) (\<lambda>(burnable, r).
     tryAs ErrInvalidTokenDefinition (r_Bool r) (\<lambda>(transferable, r).
     tryAs ErrInvalidTokenDefinition (r_Done r) (\<lambda>_.
     let out = \<lparr>td_TokenID = token, td_Name = name, td_Symbol = symbol, td_Decimals = decimals, td_SupplyPolicy = policy,
                td_MaxSupply = maxSupply, td_CurrentSupply = currentSupply, td_MintAuthority = authority,
                td_Burnable = burnable, td_Transferable = transferable\<rparr>
     in tryE (Definition_Validate out) (\<lambda>_. Inr out))))))))))))"

definition Mint :: "Definition \<Rightarrow> u64 \<Rightarrow> Definition result" where
  "Mint d amount =
     (if \<not> is_ok (Definition_Validate d) \<or> amount = 0 \<or> td_SupplyPolicy d = SupplyFixed \<or> overflows (td_CurrentSupply d) amount
      then Inl ErrInvalidTokenDefinition
      else
        let next = d\<lparr>td_CurrentSupply := td_CurrentSupply d + amount\<rparr>
        in if td_SupplyPolicy d = SupplyCapped \<and> td_MaxSupply d < td_CurrentSupply next then Inl ErrInvalidTokenDefinition
           else tryE (Definition_Validate next) (\<lambda>_. Inr next))"

definition Burn :: "Definition \<Rightarrow> u64 \<Rightarrow> Definition result" where
  "Burn d amount =
     (if \<not> is_ok (Definition_Validate d) \<or> \<not> td_Burnable d \<or> amount = 0 \<or> td_CurrentSupply d < amount
      then Inl ErrInvalidTokenDefinition
      else
        let next = d\<lparr>td_CurrentSupply := td_CurrentSupply d - amount\<rparr>
        in tryE (Definition_Validate next) (\<lambda>_. Inr next))"

definition MintToken_encode :: "MintToken \<Rightarrow> byte list" where
  "MintToken_encode m = w_Fixed32 (mt_DefinitionObject m) @ w_Fixed32 (mt_Recipient m) @ w_U64 (mt_Amount m)"

definition MintToken_MarshalBinary :: "MintToken \<Rightarrow> byte list result" where
  "MintToken_MarshalBinary m =
     (if IsZero32 (mt_DefinitionObject m) \<or> IsZero32 (mt_Recipient m) \<or> mt_Amount m = 0 then Inl ErrInvalidTokenDefinition
      else Inr (MintToken_encode m))"

definition ParseMintToken :: "byte list \<Rightarrow> MintToken result" where
  "ParseMintToken data =
     (if length data \<noteq> 72 then Inl ErrInvalidTokenDefinition
      else
        let definitionObject = from_be (take 32 data); recipient = from_be (take 32 (drop 32 data))
        in tryAs ErrInvalidTokenDefinition (r_U64 (drop 64 data)) (\<lambda>(amount, r).
           tryAs ErrInvalidTokenDefinition (r_Done r) (\<lambda>_.
           let out = \<lparr>mt_DefinitionObject = definitionObject, mt_Recipient = recipient, mt_Amount = amount\<rparr>
           in tryE (MintToken_MarshalBinary out) (\<lambda>_. Inr out))))"

definition BurnToken_encode :: "BurnToken \<Rightarrow> byte list" where
  "BurnToken_encode b = w_Fixed32 (bt_DefinitionObject b) @ w_U64 (bt_Amount b)"

definition BurnToken_MarshalBinary :: "BurnToken \<Rightarrow> byte list result" where
  "BurnToken_MarshalBinary b =
     (if IsZero32 (bt_DefinitionObject b) \<or> bt_Amount b = 0 then Inl ErrInvalidTokenDefinition
      else Inr (BurnToken_encode b))"

definition ParseBurnToken :: "byte list \<Rightarrow> BurnToken result" where
  "ParseBurnToken data =
     (if length data \<noteq> 40 then Inl ErrInvalidTokenDefinition
      else
        let definitionObject = from_be (take 32 data)
        in tryAs ErrInvalidTokenDefinition (r_U64 (drop 32 data)) (\<lambda>(amount, r).
           tryAs ErrInvalidTokenDefinition (r_Done r) (\<lambda>_.
           let out = \<lparr>bt_DefinitionObject = definitionObject, bt_Amount = amount\<rparr>
           in tryE (BurnToken_MarshalBinary out) (\<lambda>_. Inr out))))"

subsection \<open>Supply\<close>

definition definition_valid :: "Definition \<Rightarrow> bool" where
  "definition_valid d \<longleftrightarrow> td_TokenID d \<noteq> 0 \<and> TrimSpace (td_Name d) \<noteq> [] \<and> TrimSpace (td_Symbol d) \<noteq> [] \<and>
     td_Decimals d \<le> 18 \<and> td_MintAuthority d \<noteq> 0 \<and>
     (td_SupplyPolicy d \<in> {SupplyCapped, SupplyFixed} \<and> td_MaxSupply d \<noteq> 0 \<and> td_CurrentSupply d \<le> td_MaxSupply d \<or>
      td_SupplyPolicy d = SupplyMintable \<and> td_MaxSupply d = 0)"

lemma Definition_Validate_iff: "Definition_Validate d = Inr u \<longleftrightarrow> definition_valid d"
  by (auto simp: Definition_Validate_def definition_valid_def IsZero32_def)

lemma is_ok_Definition_Validate: "is_ok (Definition_Validate d) \<longleftrightarrow> definition_valid d"
  by (simp add: is_ok_iff Definition_Validate_iff)

lemma Mint_iff:
  "Mint d amount = Inr d' \<longleftrightarrow>
     definition_valid d \<and> amount \<noteq> 0 \<and> td_SupplyPolicy d \<noteq> SupplyFixed \<and> unat (td_CurrentSupply d) + unat amount < 2 ^ 64 \<and>
     (td_SupplyPolicy d = SupplyCapped \<longrightarrow> td_CurrentSupply d + amount \<le> td_MaxSupply d) \<and>
     d' = d\<lparr>td_CurrentSupply := td_CurrentSupply d + amount\<rparr>"
proof -
  have "definition_valid d \<Longrightarrow> td_SupplyPolicy d \<noteq> SupplyFixed \<Longrightarrow>
      (td_SupplyPolicy d = SupplyCapped \<longrightarrow> td_CurrentSupply d + amount \<le> td_MaxSupply d) \<Longrightarrow>
      definition_valid (d\<lparr>td_CurrentSupply := td_CurrentSupply d + amount\<rparr>)"
    by (auto simp: definition_valid_def)
  then show ?thesis
    by (auto simp: Mint_def is_ok_Definition_Validate Definition_Validate_iff overflows_iff Let_def not_le not_less)
qed

lemma Burn_iff:
  "Burn d amount = Inr d' \<longleftrightarrow>
     definition_valid d \<and> td_Burnable d \<and> amount \<noteq> 0 \<and> amount \<le> td_CurrentSupply d \<and>
     d' = d\<lparr>td_CurrentSupply := td_CurrentSupply d - amount\<rparr>"
proof -
  have "definition_valid d \<Longrightarrow> amount \<le> td_CurrentSupply d \<Longrightarrow>
      definition_valid (d\<lparr>td_CurrentSupply := td_CurrentSupply d - amount\<rparr>)"
    using word_sub_le [of amount "td_CurrentSupply d"] by (auto simp: definition_valid_def)
  then show ?thesis
    by (auto simp: Burn_def is_ok_Definition_Validate Definition_Validate_iff Let_def not_less)
qed

datatype supply_op = MintOp u64 | BurnOp u64

primrec supply_step :: "Definition \<Rightarrow> supply_op \<Rightarrow> Definition result" where
  "supply_step d (MintOp amount) = Mint d amount"
| "supply_step d (BurnOp amount) = Burn d amount"

primrec supply_change :: "supply_op \<Rightarrow> int" where
  "supply_change (MintOp amount) = int (unat amount)"
| "supply_change (BurnOp amount) = - int (unat amount)"

lemma supply_step_exact:
  assumes "supply_step d op = Inr d'"
  shows "definition_valid d'" "int (unat (td_CurrentSupply d')) = int (unat (td_CurrentSupply d)) + supply_change op"
    "d'\<lparr>td_CurrentSupply := 0\<rparr> = d\<lparr>td_CurrentSupply := 0\<rparr>" "td_SupplyPolicy d = SupplyFixed \<Longrightarrow> supply_change op \<le> 0"
proof -
  show "definition_valid d'"
    using assms by (cases op) (auto simp: Mint_def Burn_def Let_def Definition_Validate_iff split: if_splits)
  show "d'\<lparr>td_CurrentSupply := 0\<rparr> = d\<lparr>td_CurrentSupply := 0\<rparr>"
    using assms by (cases op) (simp_all add: Mint_iff Burn_iff)
  show "td_SupplyPolicy d = SupplyFixed \<Longrightarrow> supply_change op \<le> 0"
    using assms by (cases op) (simp_all add: Mint_iff)
  show "int (unat (td_CurrentSupply d')) = int (unat (td_CurrentSupply d)) + supply_change op"
  proof (cases op)
    case (MintOp amount)
    then have "\<not> overflows (td_CurrentSupply d) amount" "td_CurrentSupply d' = td_CurrentSupply d + amount"
      using assms by (simp_all add: Mint_iff overflows_iff)
    then have "unat (td_CurrentSupply d') = unat (td_CurrentSupply d) + unat amount" by (simp only: unat_add_no_overflow not_False_eq_True)
    then show ?thesis using MintOp by (simp only: supply_change.simps of_nat_add)
  next
    case (BurnOp amount)
    then have le: "amount \<le> td_CurrentSupply d" and d': "td_CurrentSupply d' = td_CurrentSupply d - amount"
      using assms by (simp_all add: Burn_iff)
    have "unat amount \<le> unat (td_CurrentSupply d)" using le by (simp add: word_le_nat_alt)
    then show ?thesis using BurnOp using unat_sub_le [OF le] by (simp only: supply_change.simps d' of_nat_diff)
  qed
qed

text \<open>
  C35. Supply is exact. After any sequence of mints and burns that are all accepted, the definition is still valid,
  its supply is the initial one plus what was minted minus what was burned, with no wrap-around, a capped or fixed
  supply is within its maximum, a fixed supply has not grown, and nothing else of the definition has changed.
\<close>

theorem token_supply_exact:
  assumes "foldE supply_step d ops = Inr d'" "definition_valid d"
  shows "definition_valid d' \<and>
    int (unat (td_CurrentSupply d')) = int (unat (td_CurrentSupply d)) + sum_list (map supply_change ops) \<and>
    (td_SupplyPolicy d \<noteq> SupplyMintable \<longrightarrow> td_CurrentSupply d' \<le> td_MaxSupply d) \<and>
    (td_SupplyPolicy d = SupplyFixed \<longrightarrow> td_CurrentSupply d' \<le> td_CurrentSupply d) \<and>
    d'\<lparr>td_CurrentSupply := 0\<rparr> = d\<lparr>td_CurrentSupply := 0\<rparr>"
proof -
  have "definition_valid d' \<and>
      int (unat (td_CurrentSupply d')) = int (unat (td_CurrentSupply d)) + sum_list (map supply_change ops) \<and>
      (td_SupplyPolicy d = SupplyFixed \<longrightarrow> unat (td_CurrentSupply d') \<le> unat (td_CurrentSupply d)) \<and>
      d'\<lparr>td_CurrentSupply := 0\<rparr> = d\<lparr>td_CurrentSupply := 0\<rparr>"
    using assms
  proof (induction ops arbitrary: d)
    case (Cons op ops)
    from Cons.prems(1) obtain d1 where d1: "supply_step d op = Inr d1" "foldE supply_step d1 ops = Inr d'" by auto
    note s = supply_step_exact [OF d1(1)]
    have p: "td_SupplyPolicy d1 = td_SupplyPolicy d" using arg_cong [OF s(3), of td_SupplyPolicy] by simp
    note ih = Cons.IH [OF d1(2) s(1)]
    have "td_SupplyPolicy d = SupplyFixed \<Longrightarrow> unat (td_CurrentSupply d1) \<le> unat (td_CurrentSupply d)" using s(2,4) by linarith
    then show ?case using ih s(2,3) p by simp linarith
  qed simp
  moreover from this have "td_SupplyPolicy d' = td_SupplyPolicy d" "td_MaxSupply d' = td_MaxSupply d"
    by (metis Definition.select_convs(5,6) Definition.surjective Definition.update_convs(7))+
  ultimately show ?thesis by (auto simp: definition_valid_def word_le_nat_alt)
qed

definition sample_definition :: Definition where
  "sample_definition =
     \<lparr>td_TokenID = 5, td_Name = [90, 101], td_Symbol = [90], td_Decimals = 9, td_SupplyPolicy = SupplyCapped,
      td_MaxSupply = 1000, td_CurrentSupply = 600, td_MintAuthority = 8, td_Burnable = True, td_Transferable = True\<rparr>"

lemma sample_definition_valid: "definition_valid sample_definition"
  by (simp add: definition_valid_def sample_definition_def)

theorem token_supply_exact_witness:
  "foldE supply_step sample_definition [MintOp 300, BurnOp 100] = Inr (sample_definition\<lparr>td_CurrentSupply := 800\<rparr>) \<and>
   definition_valid (sample_definition\<lparr>td_CurrentSupply := 800\<rparr>)"
proof -
  have "foldE supply_step sample_definition [MintOp 300, BurnOp 100] = Inr (sample_definition\<lparr>td_CurrentSupply := 800\<rparr>)"
    by (simp add: Mint_iff Burn_iff definition_valid_def) (simp add: sample_definition_def)
  then show ?thesis using token_supply_exact [OF _ sample_definition_valid] by blast
qed

subsection \<open>Messages\<close>

definition create_valid :: "CreateToken \<Rightarrow> bool" where
  "create_valid c \<longleftrightarrow> TrimSpace (ct_Name c) \<noteq> [] \<and> length (TrimSpace (ct_Name c)) \<le> 64 \<and>
     TrimSpace (ct_Symbol c) \<noteq> [] \<and> length (TrimSpace (ct_Symbol c)) \<le> 16 \<and>
     ct_Decimals c \<le> 18 \<and> ct_InitialSupply c \<noteq> 0 \<and> ct_MintAuthority c \<noteq> 0 \<and>
     (ct_SupplyPolicy c = SupplyCapped \<and> ct_MaxSupply c \<noteq> 0 \<and> ct_InitialSupply c \<le> ct_MaxSupply c \<or>
      ct_SupplyPolicy c = SupplyFixed \<and> ct_MaxSupply c \<noteq> 0 \<and> ct_InitialSupply c = ct_MaxSupply c \<or>
      ct_SupplyPolicy c = SupplyMintable \<and> ct_MaxSupply c = 0)"

lemma CreateToken_Validate_iff: "CreateToken_Validate c = Inr u \<longleftrightarrow> create_valid c"
  by (auto simp: CreateToken_Validate_def create_valid_def IsZero32_def Let_def not_less)

definition trimmed :: "Definition \<Rightarrow> Definition" where
  "trimmed d = d\<lparr>td_Name := TrimSpace (td_Name d), td_Symbol := TrimSpace (td_Symbol d)\<rparr>"

definition trimmed_create :: "CreateToken \<Rightarrow> CreateToken" where
  "trimmed_create c = c\<lparr>ct_Name := TrimSpace (ct_Name c), ct_Symbol := TrimSpace (ct_Symbol c)\<rparr>"

lemma definition_valid_trimmed [simp]: "definition_valid (trimmed d) \<longleftrightarrow> definition_valid d"
  by (simp add: definition_valid_def trimmed_def)

lemma create_valid_trimmed [simp]: "create_valid (trimmed_create c) \<longleftrightarrow> create_valid c"
  by (simp add: create_valid_def trimmed_create_def)

lemma ParseDefinition_ok:
  assumes "definition_valid d" "length (td_Name d) \<le> 64" "length (td_Symbol d) \<le> 16"
  shows "ParseDefinition (Definition_encode d) = Inr (trimmed d)"
proof -
  have "length (TrimSpace (td_Name d)) \<le> 64" "length (TrimSpace (td_Symbol d)) \<le> 16"
    using length_TrimSpace [of "td_Name d"] length_TrimSpace [of "td_Symbol d"] assms by linarith+
  then show ?thesis
    using assms(1) definition_valid_trimmed [of d]
    by (cases d) (simp add: ParseDefinition_def Definition_encode_def Let_def Definition_Validate_iff trimmed_def)
qed

lemma ParseDefinition_valid:
  assumes "ParseDefinition bs = Inr d"
  shows "definition_valid d" "length (td_Name d) \<le> 64" "length (td_Symbol d) \<le> 16"
  using assms by (auto simp: ParseDefinition_def wire_iff Let_def Definition_Validate_iff)

lemma ParseCreateToken_ok:
  "create_valid c \<Longrightarrow> ParseCreateToken (CreateToken_encode c) = Inr (trimmed_create c)"
  using create_valid_trimmed [of c]
  by (cases c) (simp add: ParseCreateToken_def CreateToken_encode_def Let_def CreateToken_Validate_iff trimmed_create_def create_valid_def)

lemma ParseCreateToken_valid: "ParseCreateToken bs = Inr c \<Longrightarrow> create_valid c \<and> length (ct_Name c) \<le> 64 \<and> length (ct_Symbol c) \<le> 16"
  by (auto simp: ParseCreateToken_def wire_iff Let_def CreateToken_Validate_iff)

definition mint_valid :: "MintToken \<Rightarrow> bool" where
  "mint_valid m \<longleftrightarrow> mt_DefinitionObject m \<noteq> 0 \<and> mt_Recipient m \<noteq> 0 \<and> mt_Amount m \<noteq> 0"

definition burn_valid :: "BurnToken \<Rightarrow> bool" where
  "burn_valid b \<longleftrightarrow> bt_DefinitionObject b \<noteq> 0 \<and> bt_Amount b \<noteq> 0"

lemma split_32: "length bs = 32 + n \<Longrightarrow> bs = w_Fixed32 (from_be (take 32 bs)) @ drop 32 bs"
  using be_bytes_from_be [of "take 32 bs", where 'a = 256] by (simp add: w_Fixed32_def)

lemma take_Fixed32 [simp]: "take 32 (w_Fixed32 x @ s) = w_Fixed32 x" "drop 32 (w_Fixed32 x @ s) = s" "from_be (w_Fixed32 x) = x"
  by (simp_all add: w_Fixed32_def from_be_be_bytes_full)

interpretation MintWire: canonical_wire MintToken_encode ParseMintToken mint_valid
proof
  fix bs and x :: MintToken
  show "ParseMintToken bs = Inr x \<longleftrightarrow> mint_valid x \<and> bs = MintToken_encode x"
  proof
    assume p: "ParseMintToken bs = Inr x"
    then have len: "length bs = 72" by (simp add: ParseMintToken_def)
    have "bs = w_Fixed32 (from_be (take 32 bs)) @ w_Fixed32 (from_be (take 32 (drop 32 bs))) @ drop 64 bs"
      using split_32 [of bs 40] split_32 [of "drop 32 bs" 8] len by simp
    then show "mint_valid x \<and> bs = MintToken_encode x"
      using p by (auto simp: ParseMintToken_def MintToken_MarshalBinary_def MintToken_encode_def mint_valid_def IsZero32_def
          Let_def wire_iff split: if_splits)
  next
    assume v: "mint_valid x \<and> bs = MintToken_encode x"
    have "drop 64 (MintToken_encode x) = w_U64 (mt_Amount x)" by (simp add: MintToken_encode_def)
    then show "ParseMintToken bs = Inr x"
      using v by (cases x) (simp add: ParseMintToken_def MintToken_MarshalBinary_def MintToken_encode_def mint_valid_def IsZero32_def Let_def)
  qed
qed

interpretation BurnWire: canonical_wire BurnToken_encode ParseBurnToken burn_valid
proof
  fix bs and x :: BurnToken
  show "ParseBurnToken bs = Inr x \<longleftrightarrow> burn_valid x \<and> bs = BurnToken_encode x"
  proof
    assume p: "ParseBurnToken bs = Inr x"
    then have "bs = w_Fixed32 (from_be (take 32 bs)) @ drop 32 bs"
      using split_32 [of bs 8] by (simp add: ParseBurnToken_def)
    then show "burn_valid x \<and> bs = BurnToken_encode x"
      using p by (auto simp: ParseBurnToken_def BurnToken_MarshalBinary_def BurnToken_encode_def burn_valid_def IsZero32_def
          Let_def wire_iff split: if_splits)
  next
    assume v: "burn_valid x \<and> bs = BurnToken_encode x"
    then show "ParseBurnToken bs = Inr x"
      by (cases x) (simp add: ParseBurnToken_def BurnToken_MarshalBinary_def BurnToken_encode_def burn_valid_def IsZero32_def Let_def)
  qed
qed

text \<open>
  Every token message that is marshalled is read back, a definition or a creation with its name and symbol
  trimmed (for a definition whose names fit the 64 and 16 bytes that the reader allows), a mint or a burn unchanged;
  and nothing but its encoding is read as a given mint or burn.
\<close>

theorem token_wire_roundtrip:
  "(\<forall>c bs. CreateToken_MarshalBinary c = Inr bs \<longrightarrow> ParseCreateToken bs = Inr (trimmed_create c)) \<and>
   (\<forall>d bs. Definition_MarshalBinary d = Inr bs \<longrightarrow> length (td_Name d) \<le> 64 \<longrightarrow> length (td_Symbol d) \<le> 16 \<longrightarrow>
      ParseDefinition bs = Inr (trimmed d)) \<and>
   (\<forall>m bs. MintToken_MarshalBinary m = Inr bs \<longleftrightarrow> ParseMintToken bs = Inr m) \<and>
   (\<forall>b bs. BurnToken_MarshalBinary b = Inr bs \<longleftrightarrow> ParseBurnToken bs = Inr b)"
proof (intro conjI allI impI)
  show "CreateToken_MarshalBinary c = Inr bs \<Longrightarrow> ParseCreateToken bs = Inr (trimmed_create c)" for c bs
    by (auto simp: CreateToken_MarshalBinary_def CreateToken_Validate_iff ParseCreateToken_ok)
  show "Definition_MarshalBinary d = Inr bs \<Longrightarrow> length (td_Name d) \<le> 64 \<Longrightarrow> length (td_Symbol d) \<le> 16 \<Longrightarrow>
      ParseDefinition bs = Inr (trimmed d)" for d bs
    by (auto simp: Definition_MarshalBinary_def Definition_Validate_iff ParseDefinition_ok)
  show "MintToken_MarshalBinary m = Inr bs \<longleftrightarrow> ParseMintToken bs = Inr m" for m bs
    by (auto simp: MintWire.parse_iff MintToken_MarshalBinary_def mint_valid_def IsZero32_def)
  show "BurnToken_MarshalBinary b = Inr bs \<longleftrightarrow> ParseBurnToken bs = Inr b" for b bs
    by (auto simp: BurnWire.parse_iff BurnToken_MarshalBinary_def burn_valid_def IsZero32_def)
qed

theorem token_wire_roundtrip_witness:
  "ParseDefinition (Definition_encode sample_definition) = Inr sample_definition"
proof -
  have "Definition_MarshalBinary sample_definition = Inr (Definition_encode sample_definition)"
    using sample_definition_valid by (simp add: Definition_MarshalBinary_def Definition_Validate_iff)
  moreover have "trimmed sample_definition = sample_definition" "length (td_Name sample_definition) \<le> 64" "length (td_Symbol sample_definition) \<le> 16"
    by (simp_all add: trimmed_def sample_definition_def)
  ultimately show ?thesis using token_wire_roundtrip by metis
qed

end
