(* ===== verification/Lending.thy ===== *)
theory Lending
  imports Codec "HOL-Library.Signed_Division"
begin

text \<open>
  Native bilateral loans (\<open>internal/v2/lending/lending.go\<close>) and the messages of loans between shards
  (\<open>internal/v2/lending/cross_shard.go\<close>).

  The term rate is an \<open>int32\<close>, a 32-bit word read by \<open>sint\<close>. The interest is computed over unbounded integers in the
  code; \<open>sdiv\<close> is its division, truncated toward zero.

  The lemmas show what is due and that it is due at all for every rate, and that each parser accepts exactly the
  encodings of the valid values.
\<close>

abbreviation lending_Version :: u16 where "lending_Version \<equiv> 1"
abbreviation MaxPositiveRateBps :: int where "MaxPositiveRateBps \<equiv> 100000"
abbreviation MinNegativeRateBps :: int where "MinNegativeRateBps \<equiv> - 9999"
abbreviation OfferObjectIndex :: u32 where "OfferObjectIndex \<equiv> 0xD0000000"
abbreviation LoanObjectIndex :: u32 where "LoanObjectIndex \<equiv> 0xD0000001"
abbreviation PayoutObjectIndex :: u32 where "PayoutObjectIndex \<equiv> 0xD0000010"
abbreviation CrossShardVersion :: u16 where "CrossShardVersion \<equiv> 1"
abbreviation CrossOfferMessageIndex :: u32 where "CrossOfferMessageIndex \<equiv> 0xD0000100"
abbreviation CrossAcceptanceMessageIndex :: u32 where "CrossAcceptanceMessageIndex \<equiv> 0xD0000101"
abbreviation CrossPrincipalObjectIndex :: u32 where "CrossPrincipalObjectIndex \<equiv> 0xD0000110"
abbreviation CrossActivationObjectIndex :: u32 where "CrossActivationObjectIndex \<equiv> 0xD0000111"
abbreviation CrossRepaymentMessageIndex :: u32 where "CrossRepaymentMessageIndex \<equiv> 0xD0000120"
abbreviation CrossCollateralReturnIndex :: u32 where "CrossCollateralReturnIndex \<equiv> 0xD0000130"
abbreviation CrossPrincipalReturnIndex :: u32 where "CrossPrincipalReturnIndex \<equiv> 0xD0000131"
abbreviation CrossShardSettlementGraceBlocks :: u64 where "CrossShardSettlementGraceBlocks \<equiv> 16"

subsection \<open>Terms\<close>

record Terms =
  tm_Lender :: accountid
  tm_Borrower :: accountid
  tm_Principal :: u64
  tm_Collateral :: u64
  tm_TermRateBps :: "32 word"
  tm_MaturityHeight :: u64

definition RepaymentDue :: "Terms \<Rightarrow> u64 result" where
  "RepaymentDue t =
     (if tm_Principal t = 0 \<or> sint (tm_TermRateBps t) < MinNegativeRateBps \<or> MaxPositiveRateBps < sint (tm_TermRateBps t)
      then Inl ErrLending
      else
        let principal = uint (tm_Principal t);
            interest = (principal * sint (tm_TermRateBps t)) sdiv 10000;
            due = principal + interest
        in if due \<le> 0 \<or> 2 ^ 64 \<le> due then Inl ErrLending else Inr (word_of_int due))"

definition Terms_Validate :: "Terms \<Rightarrow> unit result" where
  "Terms_Validate t =
     (if IsZero32 (tm_Lender t) \<or> IsZero32 (tm_Borrower t) \<or> tm_Lender t = tm_Borrower t then Inl ErrLending
      else if tm_Principal t = 0 \<or> tm_MaturityHeight t = 0 then Inl ErrLending
      else if sint (tm_TermRateBps t) < MinNegativeRateBps \<or> MaxPositiveRateBps < sint (tm_TermRateBps t) then Inl ErrLending
      else tryE (RepaymentDue t) (\<lambda>_. Inr ()))"

definition Terms_encode :: "Terms \<Rightarrow> byte list" where
  "Terms_encode t =
     w_U16 lending_Version @ w_Fixed32 (tm_Lender t) @ w_Fixed32 (tm_Borrower t) @ w_U64 (tm_Principal t) @
     w_U64 (tm_Collateral t) @ w_U32 (tm_TermRateBps t) @ w_U64 (tm_MaturityHeight t)"

definition Terms_MarshalBinary :: "Terms \<Rightarrow> byte list result" where
  "Terms_MarshalBinary t = tryE (Terms_Validate t) (\<lambda>_. Inr (Terms_encode t))"

definition ParseTerms :: "byte list \<Rightarrow> Terms result" where
  "ParseTerms data =
     tryAs ErrLending (r_U16 data) (\<lambda>(version, r).
     if version \<noteq> lending_Version then Inl ErrLending else
     tryAs ErrLending (r_Fixed32 r) (\<lambda>(lender, r).
     tryAs ErrLending (r_Fixed32 r) (\<lambda>(borrower, r).
     tryAs ErrLending (r_U64 r) (\<lambda>(principal, r).
     tryAs ErrLending (r_U64 r) (\<lambda>(collateral, r).
     tryAs ErrLending (r_U32 r) (\<lambda>(rate, r).
     tryAs ErrLending (r_U64 r) (\<lambda>(maturity, r).
     tryAs ErrLending (r_Done r) (\<lambda>_.
     let out = \<lparr>tm_Lender = lender, tm_Borrower = borrower, tm_Principal = principal, tm_Collateral = collateral,
                tm_TermRateBps = rate, tm_MaturityHeight = maturity\<rparr>
     in tryE (Terms_Validate out) (\<lambda>_. Inr out)))))))))"

subsection \<open>Loans and references\<close>

record Loan =
  ln_OfferObject :: objectid
  ln_Terms :: Terms
  ln_AcceptedHeight :: u64

definition Loan_Validate :: "Loan \<Rightarrow> unit result" where
  "Loan_Validate l =
     (if IsZero32 (ln_OfferObject l) \<or> ln_AcceptedHeight l = 0 then Inl ErrLending
      else tryE (Terms_Validate (ln_Terms l)) (\<lambda>_.
        if tm_MaturityHeight (ln_Terms l) \<le> ln_AcceptedHeight l then Inl ErrLending else Inr ()))"

definition Loan_encode :: "Loan \<Rightarrow> byte list" where
  "Loan_encode l =
     w_U16 lending_Version @ w_Fixed32 (ln_OfferObject l) @ w_Bytes (Terms_encode (ln_Terms l)) @ w_U64 (ln_AcceptedHeight l)"

definition Loan_MarshalBinary :: "Loan \<Rightarrow> byte list result" where
  "Loan_MarshalBinary l =
     tryE (Loan_Validate l) (\<lambda>_. tryE (Terms_MarshalBinary (ln_Terms l)) (\<lambda>_. Inr (Loan_encode l)))"

definition ParseLoan :: "byte list \<Rightarrow> Loan result" where
  "ParseLoan data =
     tryAs ErrLending (r_U16 data) (\<lambda>(version, r).
     if version \<noteq> lending_Version then Inl ErrLending else
     tryAs ErrLending (r_Fixed32 r) (\<lambda>(offer, r).
     tryAs ErrLending (r_Bytes 256 r) (\<lambda>(termsRaw, r).
     tryAs ErrLending (r_U64 r) (\<lambda>(accepted, r).
     tryAs ErrLending (r_Done r) (\<lambda>_.
     tryE (ParseTerms termsRaw) (\<lambda>terms.
     let out = \<lparr>ln_OfferObject = offer, ln_Terms = terms, ln_AcceptedHeight = accepted\<rparr>
     in tryE (Loan_Validate out) (\<lambda>_. Inr out)))))))"

definition LoanRef_encode :: "objectid \<Rightarrow> byte list" where
  "LoanRef_encode oid = w_U16 lending_Version @ w_Fixed32 oid"

definition LoanRef_MarshalBinary :: "objectid \<Rightarrow> byte list result" where
  "LoanRef_MarshalBinary oid = (if IsZero32 oid then Inl ErrLending else Inr (LoanRef_encode oid))"

definition ParseLoanRef :: "byte list \<Rightarrow> objectid result" where
  "ParseLoanRef data =
     tryAs ErrLending (r_U16 data) (\<lambda>(version, r).
     if version \<noteq> lending_Version then Inl ErrLending else
     tryAs ErrLending (r_Fixed32 r) (\<lambda>(oid, r).
     tryAs ErrLending (r_Done r) (\<lambda>_.
     if IsZero32 oid then Inl ErrLending else Inr oid)))"

subsection \<open>Messages between shards\<close>

record CrossOffer =
  co_OfferObject :: objectid
  co_LenderShard :: u32
  co_BorrowerShard :: u32
  co_OfferedHeight :: u64
  co_Terms :: Terms

definition CrossOffer_Validate :: "CrossOffer \<Rightarrow> unit result" where
  "CrossOffer_Validate m =
     (if IsZero32 (co_OfferObject m) \<or> co_LenderShard m = co_BorrowerShard m \<or> co_OfferedHeight m = 0 \<or>
         tm_MaturityHeight (co_Terms m) \<le> co_OfferedHeight m \<or> \<not> is_ok (Terms_Validate (co_Terms m))
      then Inl ErrLending else Inr ())"

definition CrossOffer_encode :: "CrossOffer \<Rightarrow> byte list" where
  "CrossOffer_encode m =
     w_U16 CrossShardVersion @ w_Fixed32 (co_OfferObject m) @ w_U32 (co_LenderShard m) @ w_U32 (co_BorrowerShard m) @
     w_U64 (co_OfferedHeight m) @ w_Bytes (Terms_encode (co_Terms m))"

definition CrossOffer_MarshalBinary :: "CrossOffer \<Rightarrow> byte list result" where
  "CrossOffer_MarshalBinary m = tryE (CrossOffer_Validate m) (\<lambda>_. Inr (CrossOffer_encode m))"

definition ParseCrossOffer :: "byte list \<Rightarrow> CrossOffer result" where
  "ParseCrossOffer data =
     tryAs ErrLending (r_U16 data) (\<lambda>(version, r).
     if version \<noteq> CrossShardVersion then Inl ErrLending else
     tryAs ErrLending (r_Fixed32 r) (\<lambda>(oid, r).
     tryAs ErrLending (r_U32 r) (\<lambda>(lenderShard, r).
     tryAs ErrLending (r_U32 r) (\<lambda>(borrowerShard, r).
     tryAs ErrLending (r_U64 r) (\<lambda>(offered, r).
     tryAs ErrLending (r_Bytes 256 r) (\<lambda>(termsRaw, r).
     tryAs ErrLending (r_Done r) (\<lambda>_.
     tryE (ParseTerms termsRaw) (\<lambda>terms.
     let out = \<lparr>co_OfferObject = oid, co_LenderShard = lenderShard, co_BorrowerShard = borrowerShard,
                co_OfferedHeight = offered, co_Terms = terms\<rparr>
     in tryE (CrossOffer_Validate out) (\<lambda>_. Inr out)))))))))"

record CrossAcceptance =
  ca_OfferObject :: objectid
  ca_ActivationObject :: objectid
  ca_LenderShard :: u32
  ca_BorrowerShard :: u32
  ca_AcceptedHeight :: u64
  ca_Terms :: Terms

definition CrossAcceptance_Validate :: "CrossAcceptance \<Rightarrow> unit result" where
  "CrossAcceptance_Validate m =
     (if IsZero32 (ca_OfferObject m) \<or> IsZero32 (ca_ActivationObject m) \<or> ca_LenderShard m = ca_BorrowerShard m \<or>
         ca_AcceptedHeight m = 0 \<or> tm_MaturityHeight (ca_Terms m) \<le> ca_AcceptedHeight m \<or>
         \<not> is_ok (Terms_Validate (ca_Terms m))
      then Inl ErrLending else Inr ())"

definition CrossAcceptance_encode :: "CrossAcceptance \<Rightarrow> byte list" where
  "CrossAcceptance_encode m =
     w_U16 CrossShardVersion @ w_Fixed32 (ca_OfferObject m) @ w_Fixed32 (ca_ActivationObject m) @ w_U32 (ca_LenderShard m) @
     w_U32 (ca_BorrowerShard m) @ w_U64 (ca_AcceptedHeight m) @ w_Bytes (Terms_encode (ca_Terms m))"

definition CrossAcceptance_MarshalBinary :: "CrossAcceptance \<Rightarrow> byte list result" where
  "CrossAcceptance_MarshalBinary m = tryE (CrossAcceptance_Validate m) (\<lambda>_. Inr (CrossAcceptance_encode m))"

definition ParseCrossAcceptance :: "byte list \<Rightarrow> CrossAcceptance result" where
  "ParseCrossAcceptance data =
     tryAs ErrLending (r_U16 data) (\<lambda>(version, r).
     if version \<noteq> CrossShardVersion then Inl ErrLending else
     tryAs ErrLending (r_Fixed32 r) (\<lambda>(offer, r).
     tryAs ErrLending (r_Fixed32 r) (\<lambda>(activation, r).
     tryAs ErrLending (r_U32 r) (\<lambda>(lenderShard, r).
     tryAs ErrLending (r_U32 r) (\<lambda>(borrowerShard, r).
     tryAs ErrLending (r_U64 r) (\<lambda>(accepted, r).
     tryAs ErrLending (r_Bytes 256 r) (\<lambda>(termsRaw, r).
     tryAs ErrLending (r_Done r) (\<lambda>_.
     tryE (ParseTerms termsRaw) (\<lambda>terms.
     let out = \<lparr>ca_OfferObject = offer, ca_ActivationObject = activation, ca_LenderShard = lenderShard,
                ca_BorrowerShard = borrowerShard, ca_AcceptedHeight = accepted, ca_Terms = terms\<rparr>
     in tryE (CrossAcceptance_Validate out) (\<lambda>_. Inr out))))))))))"

record CrossActivation =
  cv_AcceptanceObject :: objectid
  cv_LenderShard :: u32
  cv_BorrowerShard :: u32
  cv_AcceptedHeight :: u64
  cv_Terms :: Terms

definition CrossActivation_Validate :: "CrossActivation \<Rightarrow> unit result" where
  "CrossActivation_Validate m =
     (if IsZero32 (cv_AcceptanceObject m) \<or> cv_LenderShard m = cv_BorrowerShard m \<or> cv_AcceptedHeight m = 0 \<or>
         tm_MaturityHeight (cv_Terms m) \<le> cv_AcceptedHeight m \<or> \<not> is_ok (Terms_Validate (cv_Terms m))
      then Inl ErrLending else Inr ())"

definition CrossActivation_encode :: "CrossActivation \<Rightarrow> byte list" where
  "CrossActivation_encode m =
     w_U16 CrossShardVersion @ w_Fixed32 (cv_AcceptanceObject m) @ w_U32 (cv_LenderShard m) @ w_U32 (cv_BorrowerShard m) @
     w_U64 (cv_AcceptedHeight m) @ w_Bytes (Terms_encode (cv_Terms m))"

definition CrossActivation_MarshalBinary :: "CrossActivation \<Rightarrow> byte list result" where
  "CrossActivation_MarshalBinary m = tryE (CrossActivation_Validate m) (\<lambda>_. Inr (CrossActivation_encode m))"

definition ParseCrossActivation :: "byte list \<Rightarrow> CrossActivation result" where
  "ParseCrossActivation data =
     tryAs ErrLending (r_U16 data) (\<lambda>(version, r).
     if version \<noteq> CrossShardVersion then Inl ErrLending else
     tryAs ErrLending (r_Fixed32 r) (\<lambda>(acceptance, r).
     tryAs ErrLending (r_U32 r) (\<lambda>(lenderShard, r).
     tryAs ErrLending (r_U32 r) (\<lambda>(borrowerShard, r).
     tryAs ErrLending (r_U64 r) (\<lambda>(accepted, r).
     tryAs ErrLending (r_Bytes 256 r) (\<lambda>(termsRaw, r).
     tryAs ErrLending (r_Done r) (\<lambda>_.
     tryE (ParseTerms termsRaw) (\<lambda>terms.
     let out = \<lparr>cv_AcceptanceObject = acceptance, cv_LenderShard = lenderShard, cv_BorrowerShard = borrowerShard,
                cv_AcceptedHeight = accepted, cv_Terms = terms\<rparr>
     in tryE (CrossActivation_Validate out) (\<lambda>_. Inr out)))))))))"

record CrossRepayment =
  cr_AcceptanceObject :: objectid
  cr_ActivationObject :: objectid
  cr_LenderShard :: u32
  cr_BorrowerShard :: u32
  cr_Amount :: u64
  cr_PaidHeight :: u64
  cr_TermsHash :: hash

definition CrossRepayment_Validate :: "CrossRepayment \<Rightarrow> unit result" where
  "CrossRepayment_Validate m =
     (if IsZero32 (cr_AcceptanceObject m) \<or> IsZero32 (cr_ActivationObject m) \<or> cr_LenderShard m = cr_BorrowerShard m \<or>
         cr_Amount m = 0 \<or> cr_PaidHeight m = 0 \<or> IsZero32 (cr_TermsHash m)
      then Inl ErrLending else Inr ())"

definition CrossRepayment_encode :: "CrossRepayment \<Rightarrow> byte list" where
  "CrossRepayment_encode m =
     w_U16 CrossShardVersion @ w_Fixed32 (cr_AcceptanceObject m) @ w_Fixed32 (cr_ActivationObject m) @ w_U32 (cr_LenderShard m) @
     w_U32 (cr_BorrowerShard m) @ w_U64 (cr_Amount m) @ w_U64 (cr_PaidHeight m) @ w_Fixed32 (cr_TermsHash m)"

definition CrossRepayment_MarshalBinary :: "CrossRepayment \<Rightarrow> byte list result" where
  "CrossRepayment_MarshalBinary m = tryE (CrossRepayment_Validate m) (\<lambda>_. Inr (CrossRepayment_encode m))"

definition ParseCrossRepayment :: "byte list \<Rightarrow> CrossRepayment result" where
  "ParseCrossRepayment data =
     tryAs ErrLending (r_U16 data) (\<lambda>(version, r).
     if version \<noteq> CrossShardVersion then Inl ErrLending else
     tryAs ErrLending (r_Fixed32 r) (\<lambda>(acceptance, r).
     tryAs ErrLending (r_Fixed32 r) (\<lambda>(activation, r).
     tryAs ErrLending (r_U32 r) (\<lambda>(lenderShard, r).
     tryAs ErrLending (r_U32 r) (\<lambda>(borrowerShard, r).
     tryAs ErrLending (r_U64 r) (\<lambda>(amount, r).
     tryAs ErrLending (r_U64 r) (\<lambda>(paidHeight, r).
     tryAs ErrLending (r_Fixed32 r) (\<lambda>(termsHash, r).
     tryAs ErrLending (r_Done r) (\<lambda>_.
     let out = \<lparr>cr_AcceptanceObject = acceptance, cr_ActivationObject = activation, cr_LenderShard = lenderShard,
                cr_BorrowerShard = borrowerShard, cr_Amount = amount, cr_PaidHeight = paidHeight, cr_TermsHash = termsHash\<rparr>
     in tryE (CrossRepayment_Validate out) (\<lambda>_. Inr out))))))))))"

definition Terms_Hash :: "hashfun \<Rightarrow> Terms \<Rightarrow> hash result" where
  "Terms_Hash H t = tryE (Terms_MarshalBinary t) (\<lambda>raw. Inr (DomainHash H ''zephyr/lending-terms/v1'' raw))"

definition SameTerms :: "Terms \<Rightarrow> Terms \<Rightarrow> bool" where
  "SameTerms a b =
     (case Terms_MarshalBinary a of
        Inl _ \<Rightarrow> False
      | Inr left \<Rightarrow> (case Terms_MarshalBinary b of Inl _ \<Rightarrow> False | Inr right \<Rightarrow> left = right))"

subsection \<open>What is due\<close>

definition rate_ok :: "Terms \<Rightarrow> bool" where
  "rate_ok t \<longleftrightarrow> MinNegativeRateBps \<le> sint (tm_TermRateBps t) \<and> sint (tm_TermRateBps t) \<le> MaxPositiveRateBps"

definition due_amount :: "Terms \<Rightarrow> int" where
  "due_amount t = uint (tm_Principal t) + (uint (tm_Principal t) * sint (tm_TermRateBps t)) sdiv 10000"

lemma sdiv_pos: "0 \<le> a \<Longrightarrow> a sdiv 10000 = a div 10000" for a :: int
  by (simp add: signed_divide_int_def sgn_if)

lemma sdiv_neg: "a < 0 \<Longrightarrow> a sdiv 10000 = - ((- a) div 10000)" for a :: int
  by (simp add: signed_divide_int_def sgn_if)

lemma due_positive:
  assumes "tm_Principal t \<noteq> 0" "rate_ok t"
  shows "0 < due_amount t"
proof -
  let ?p = "uint (tm_Principal t)" and ?r = "sint (tm_TermRateBps t)"
  have p: "0 < ?p" using assms(1) by (simp add: uint_0_iff order.not_eq_order_implies_strict)
  show ?thesis
  proof (cases "0 \<le> ?r")
    case True
    then have "0 \<le> ?p * ?r" using p by simp
    then show ?thesis using p pos_imp_zdiv_nonneg_iff [of 10000 "?p * ?r"] by (simp add: due_amount_def sdiv_pos)
  next
    case False
    then have "?p * ?r < 0" using p by (simp add: mult_pos_neg)
    moreover have "- (?p * ?r) \<le> ?p * 9999"
      using p assms(2) mult_left_mono [of "- ?r" 9999 ?p] by (simp add: rate_ok_def)
    then have "- (?p * ?r) div 10000 < ?p" using p by linarith
    ultimately show ?thesis by (simp add: due_amount_def sdiv_neg)
  qed
qed

lemma RepaymentDue_iff:
  "RepaymentDue t = Inr due \<longleftrightarrow>
     tm_Principal t \<noteq> 0 \<and> rate_ok t \<and> due_amount t < 2 ^ 64 \<and> uint due = due_amount t"
proof -
  have "word_of_int (due_amount t) = due \<longleftrightarrow> uint due = due_amount t" if "0 < due_amount t" "due_amount t < 2 ^ 64"
  proof
    assume "uint due = due_amount t"
    then show "word_of_int (due_amount t) = due" by (simp flip: \<open>uint due = due_amount t\<close>)
  qed (use that in \<open>auto simp: take_bit_int_eq_self_iff uint_word_of_int_eq\<close>)
  then show ?thesis
    using due_positive [of t] by (auto simp: RepaymentDue_def rate_ok_def due_amount_def [symmetric] Let_def not_less not_le)
qed

lemma due_bounds:
  assumes "RepaymentDue t = Inr due"
  shows "0 < due" "0 \<le> sint (tm_TermRateBps t) \<Longrightarrow> tm_Principal t \<le> due" "sint (tm_TermRateBps t) \<le> 0 \<Longrightarrow> due \<le> tm_Principal t"
proof -
  let ?p = "uint (tm_Principal t)" and ?r = "sint (tm_TermRateBps t)"
  have d: "uint due = ?p + (?p * ?r) sdiv 10000" "0 < uint due"
    using assms due_positive [of t] by (auto simp: RepaymentDue_iff due_amount_def)
  show "0 < due" using d(2) by (simp add: word_less_def)
  show "tm_Principal t \<le> due" if "0 \<le> ?r"
    using d(1) that by (simp add: word_le_def sdiv_pos pos_imp_zdiv_nonneg_iff)
  show "due \<le> tm_Principal t" if "?r \<le> 0"
  proof (cases "?p * ?r = 0")
    case False
    then have "?p * ?r < 0" using that by (simp add: mult_le_0_iff order_less_le)
    then show ?thesis using d(1) pos_imp_zdiv_nonneg_iff [of 10000 "- (?p * ?r)"] by (simp add: word_le_def sdiv_neg)
  next
    case True
    then show ?thesis unfolding word_le_def d(1) by (simp only: sdiv_pos [of 0, simplified]) simp
  qed
qed

subsection \<open>The message formats\<close>

definition terms_valid :: "Terms \<Rightarrow> bool" where
  "terms_valid t \<longleftrightarrow> tm_Lender t \<noteq> 0 \<and> tm_Borrower t \<noteq> 0 \<and> tm_Lender t \<noteq> tm_Borrower t \<and> tm_Principal t \<noteq> 0 \<and>
     tm_MaturityHeight t \<noteq> 0 \<and> rate_ok t \<and> due_amount t < 2 ^ 64"

definition loan_valid :: "Loan \<Rightarrow> bool" where
  "loan_valid l \<longleftrightarrow> ln_OfferObject l \<noteq> 0 \<and> ln_AcceptedHeight l \<noteq> 0 \<and> terms_valid (ln_Terms l) \<and>
     ln_AcceptedHeight l < tm_MaturityHeight (ln_Terms l)"

definition cross_offer_valid :: "CrossOffer \<Rightarrow> bool" where
  "cross_offer_valid m \<longleftrightarrow> co_OfferObject m \<noteq> 0 \<and> co_LenderShard m \<noteq> co_BorrowerShard m \<and> co_OfferedHeight m \<noteq> 0 \<and>
     terms_valid (co_Terms m) \<and> co_OfferedHeight m < tm_MaturityHeight (co_Terms m)"

definition acceptance_valid :: "CrossAcceptance \<Rightarrow> bool" where
  "acceptance_valid m \<longleftrightarrow> ca_OfferObject m \<noteq> 0 \<and> ca_ActivationObject m \<noteq> 0 \<and> ca_LenderShard m \<noteq> ca_BorrowerShard m \<and>
     ca_AcceptedHeight m \<noteq> 0 \<and> terms_valid (ca_Terms m) \<and> ca_AcceptedHeight m < tm_MaturityHeight (ca_Terms m)"

definition activation_valid :: "CrossActivation \<Rightarrow> bool" where
  "activation_valid m \<longleftrightarrow> cv_AcceptanceObject m \<noteq> 0 \<and> cv_LenderShard m \<noteq> cv_BorrowerShard m \<and> cv_AcceptedHeight m \<noteq> 0 \<and>
     terms_valid (cv_Terms m) \<and> cv_AcceptedHeight m < tm_MaturityHeight (cv_Terms m)"

definition repayment_valid :: "CrossRepayment \<Rightarrow> bool" where
  "repayment_valid m \<longleftrightarrow> cr_AcceptanceObject m \<noteq> 0 \<and> cr_ActivationObject m \<noteq> 0 \<and> cr_LenderShard m \<noteq> cr_BorrowerShard m \<and>
     cr_Amount m \<noteq> 0 \<and> cr_PaidHeight m \<noteq> 0 \<and> cr_TermsHash m \<noteq> 0"

lemma RepaymentDue_ok: "terms_valid t \<Longrightarrow> RepaymentDue t = Inr (word_of_int (due_amount t))"
  using due_positive [of t] by (simp add: RepaymentDue_iff terms_valid_def uint_word_of_int_eq take_bit_int_eq_self_iff)

lemma Terms_Validate_iff: "Terms_Validate t = Inr u \<longleftrightarrow> terms_valid t"
proof -
  have "(\<exists>d. RepaymentDue t = Inr d) \<longleftrightarrow> tm_Principal t \<noteq> 0 \<and> rate_ok t \<and> due_amount t < 2 ^ 64"
    using due_positive [of t]
    by (auto simp: RepaymentDue_iff uint_word_of_int_eq take_bit_int_eq_self_iff intro!: exI [of _ "word_of_int (due_amount t)"])
  then show ?thesis
    by (auto simp: Terms_Validate_def terms_valid_def IsZero32_def rate_ok_def not_less)
qed

lemma is_ok_Terms_Validate: "is_ok (Terms_Validate t) \<longleftrightarrow> terms_valid t"
  by (simp add: is_ok_iff Terms_Validate_iff)

lemma Loan_Validate_iff: "Loan_Validate l = Inr u \<longleftrightarrow> loan_valid l"
  by (auto simp: Loan_Validate_def loan_valid_def IsZero32_def Terms_Validate_iff not_le)

lemma cross_Validate_iff:
  "CrossOffer_Validate a = Inr u \<longleftrightarrow> cross_offer_valid a"
  "CrossAcceptance_Validate b = Inr u \<longleftrightarrow> acceptance_valid b"
  "CrossActivation_Validate c = Inr u \<longleftrightarrow> activation_valid c"
  "CrossRepayment_Validate d = Inr u \<longleftrightarrow> repayment_valid d"
  by (auto simp: CrossOffer_Validate_def cross_offer_valid_def CrossAcceptance_Validate_def acceptance_valid_def
      CrossActivation_Validate_def activation_valid_def CrossRepayment_Validate_def repayment_valid_def
      IsZero32_def is_ok_Terms_Validate not_le)

lemma length_Terms_encode [simp]: "length (Terms_encode t) = 94"
  by (simp add: Terms_encode_def)

interpretation TermsWire: canonical_wire Terms_encode ParseTerms terms_valid
proof
  fix bs and x :: Terms
  show "ParseTerms bs = Inr x \<longleftrightarrow> terms_valid x \<and> bs = Terms_encode x"
    by (cases x) (auto simp: ParseTerms_def Terms_encode_def wire_iff Terms_Validate_iff Let_def)
qed

interpretation LoanWire: canonical_wire Loan_encode ParseLoan loan_valid
proof
  fix bs and x :: Loan
  show "ParseLoan bs = Inr x \<longleftrightarrow> loan_valid x \<and> bs = Loan_encode x"
    by (cases x) (auto simp: ParseLoan_def Loan_encode_def wire_iff Loan_Validate_iff TermsWire.parse_iff loan_valid_def Let_def)
qed

interpretation LoanRefWire: canonical_wire LoanRef_encode ParseLoanRef "\<lambda>oid. oid \<noteq> 0"
  by unfold_locales (auto simp: ParseLoanRef_def LoanRef_encode_def wire_iff IsZero32_def)

interpretation CrossOfferWire: canonical_wire CrossOffer_encode ParseCrossOffer cross_offer_valid
proof
  fix bs and x :: CrossOffer
  show "ParseCrossOffer bs = Inr x \<longleftrightarrow> cross_offer_valid x \<and> bs = CrossOffer_encode x"
    by (cases x) (auto simp: ParseCrossOffer_def CrossOffer_encode_def wire_iff cross_Validate_iff TermsWire.parse_iff
        cross_offer_valid_def Let_def)
qed

interpretation AcceptanceWire: canonical_wire CrossAcceptance_encode ParseCrossAcceptance acceptance_valid
proof
  fix bs and x :: CrossAcceptance
  show "ParseCrossAcceptance bs = Inr x \<longleftrightarrow> acceptance_valid x \<and> bs = CrossAcceptance_encode x"
    by (cases x) (auto simp: ParseCrossAcceptance_def CrossAcceptance_encode_def wire_iff cross_Validate_iff TermsWire.parse_iff
        acceptance_valid_def Let_def)
qed

interpretation ActivationWire: canonical_wire CrossActivation_encode ParseCrossActivation activation_valid
proof
  fix bs and x :: CrossActivation
  show "ParseCrossActivation bs = Inr x \<longleftrightarrow> activation_valid x \<and> bs = CrossActivation_encode x"
    by (cases x) (auto simp: ParseCrossActivation_def CrossActivation_encode_def wire_iff cross_Validate_iff TermsWire.parse_iff
        activation_valid_def Let_def)
qed

interpretation RepaymentWire: canonical_wire CrossRepayment_encode ParseCrossRepayment repayment_valid
proof
  fix bs and x :: CrossRepayment
  show "ParseCrossRepayment bs = Inr x \<longleftrightarrow> repayment_valid x \<and> bs = CrossRepayment_encode x"
    by (cases x) (auto simp: ParseCrossRepayment_def CrossRepayment_encode_def wire_iff cross_Validate_iff repayment_valid_def Let_def)
qed

lemma lending_Marshal_iff:
  "Terms_MarshalBinary t = Inr raw \<longleftrightarrow> terms_valid t \<and> raw = Terms_encode t"
  "Loan_MarshalBinary l = Inr raw \<longleftrightarrow> loan_valid l \<and> raw = Loan_encode l"
  "CrossOffer_MarshalBinary a = Inr raw \<longleftrightarrow> cross_offer_valid a \<and> raw = CrossOffer_encode a"
  "CrossAcceptance_MarshalBinary b = Inr raw \<longleftrightarrow> acceptance_valid b \<and> raw = CrossAcceptance_encode b"
  "CrossActivation_MarshalBinary c = Inr raw \<longleftrightarrow> activation_valid c \<and> raw = CrossActivation_encode c"
  "CrossRepayment_MarshalBinary d = Inr raw \<longleftrightarrow> repayment_valid d \<and> raw = CrossRepayment_encode d"
  by (auto simp: Terms_MarshalBinary_def Loan_MarshalBinary_def CrossOffer_MarshalBinary_def CrossAcceptance_MarshalBinary_def
      CrossActivation_MarshalBinary_def CrossRepayment_MarshalBinary_def Terms_Validate_iff Loan_Validate_iff cross_Validate_iff
      loan_valid_def)

lemma SameTerms_iff: "SameTerms a b \<longleftrightarrow> terms_valid a \<and> a = b"
proof -
  have "SameTerms a b \<longleftrightarrow> (\<exists>raw. Terms_MarshalBinary a = Inr raw \<and> Terms_MarshalBinary b = Inr raw)"
    by (auto simp: SameTerms_def split: sum.splits)
  also have "\<dots> \<longleftrightarrow> terms_valid a \<and> a = b"
    using TermsWire.enc_inject by (auto simp: lending_Marshal_iff)
  finally show ?thesis .
qed

end
