(* ===== verification/DeviceCredential.thy ===== *)
theory DeviceCredential
  imports Signatures
begin

text \<open>
  Device credentials (\<open>internal/v2/devicecredential/credential.go\<close>): keys a wallet registers for its devices, with
  capabilities and an expiry, and the challenges such a device signs.

  The capability bits start at bit 1: \<open>iota\<close> is already 1 on the line of the first of them.

  The lemmas show that the parsers accept exactly the encodings of the valid values, and that a challenge digest binds
  the credential, its sequence number and the challenge.
\<close>

abbreviation credential_Version :: u16 where "credential_Version \<equiv> 1"
abbreviation CapabilityVerifyHeaders :: u32 where "CapabilityVerifyHeaders \<equiv> 2"
abbreviation CapabilityRelay :: u32 where "CapabilityRelay \<equiv> 4"
abbreviation CapabilitySampleDA :: u32 where "CapabilitySampleDA \<equiv> 8"
abbreviation CapabilityExecuteRecent :: u32 where "CapabilityExecuteRecent \<equiv> 16"
abbreviation CapabilityServeCache :: u32 where "CapabilityServeCache \<equiv> 32"
abbreviation credential_ObjectIndex :: u32 where "credential_ObjectIndex \<equiv> 0xD1000000"

definition SupportedCapabilities :: u32 where
  "SupportedCapabilities = CapabilityVerifyHeaders OR CapabilityRelay OR CapabilitySampleDA OR CapabilityExecuteRecent OR
     CapabilityServeCache"

record DeviceSpec =
  sp_DevicePublicKey :: "byte list"
  sp_Capabilities :: u32
  sp_ExpiresHeight :: u64

record Credential =
  cd_Owner :: accountid
  cd_DevicePublicKey :: "byte list"
  cd_Capabilities :: u32
  cd_IssuedHeight :: u64
  cd_ExpiresHeight :: u64
  cd_Sequence :: u64

record DeviceUpdate =
  up_ObjectID :: objectid
  up_Spec :: DeviceSpec

definition validPublicKey :: "crypto \<Rightarrow> byte list \<Rightarrow> bool" where
  "validPublicKey C publicKey = (if length publicKey \<noteq> 65 then False else unmarshal_ok C publicKey)"

definition Spec_Validate :: "crypto \<Rightarrow> DeviceSpec \<Rightarrow> unit result" where
  "Spec_Validate C s =
     (if \<not> validPublicKey C (sp_DevicePublicKey s) \<or> sp_Capabilities s = 0 \<or>
         sp_Capabilities s AND NOT SupportedCapabilities \<noteq> 0 then Inl ErrCredential else Inr ())"

definition Spec_encode :: "DeviceSpec \<Rightarrow> byte list" where
  "Spec_encode s =
     w_U16 credential_Version @ w_Bytes (sp_DevicePublicKey s) @ w_U32 (sp_Capabilities s) @ w_U64 (sp_ExpiresHeight s)"

definition Spec_MarshalBinary :: "crypto \<Rightarrow> DeviceSpec \<Rightarrow> byte list result" where
  "Spec_MarshalBinary C s = tryE (Spec_Validate C s) (\<lambda>_. Inr (Spec_encode s))"

definition ParseSpec :: "crypto \<Rightarrow> byte list \<Rightarrow> DeviceSpec result" where
  "ParseSpec C data =
     tryAs ErrCredential (r_U16 data) (\<lambda>(version, r).
     if version \<noteq> credential_Version then Inl ErrCredential else
     tryAs ErrCredential (r_Bytes 65 r) (\<lambda>(key, r).
     tryAs ErrCredential (r_U32 r) (\<lambda>(capabilities, r).
     tryAs ErrCredential (r_U64 r) (\<lambda>(expires, r).
     tryAs ErrCredential (r_Done r) (\<lambda>_.
     let out = \<lparr>sp_DevicePublicKey = key, sp_Capabilities = capabilities, sp_ExpiresHeight = expires\<rparr>
     in tryE (Spec_Validate C out) (\<lambda>_. Inr out))))))"

definition Credential_Validate :: "crypto \<Rightarrow> Credential \<Rightarrow> unit result" where
  "Credential_Validate C c =
     (if IsZero32 (cd_Owner c) \<or> cd_IssuedHeight c = 0 \<or> cd_Sequence c = 0 \<or> \<not> validPublicKey C (cd_DevicePublicKey c) \<or>
         cd_Capabilities c = 0 \<or> cd_Capabilities c AND NOT SupportedCapabilities \<noteq> 0 \<or>
         (cd_ExpiresHeight c \<noteq> 0 \<and> cd_ExpiresHeight c \<le> cd_IssuedHeight c)
      then Inl ErrCredential else Inr ())"

definition ActiveAt :: "crypto \<Rightarrow> Credential \<Rightarrow> u64 \<Rightarrow> bool" where
  "ActiveAt C c height =
     (if \<not> is_ok (Credential_Validate C c) \<or> height < cd_IssuedHeight c then False
      else cd_ExpiresHeight c = 0 \<or> height < cd_ExpiresHeight c)"

definition HasCapability :: "Credential \<Rightarrow> u32 \<Rightarrow> bool" where
  "HasCapability c capability \<longleftrightarrow>
     capability \<noteq> 0 \<and> capability AND NOT SupportedCapabilities = 0 \<and> cd_Capabilities c AND capability = capability"

definition Credential_encode :: "Credential \<Rightarrow> byte list" where
  "Credential_encode c =
     w_U16 credential_Version @ w_Fixed32 (cd_Owner c) @ w_Bytes (cd_DevicePublicKey c) @ w_U32 (cd_Capabilities c) @
     w_U64 (cd_IssuedHeight c) @ w_U64 (cd_ExpiresHeight c) @ w_U64 (cd_Sequence c)"

definition Credential_MarshalBinary :: "crypto \<Rightarrow> Credential \<Rightarrow> byte list result" where
  "Credential_MarshalBinary C c = tryE (Credential_Validate C c) (\<lambda>_. Inr (Credential_encode c))"

definition ParseCredential :: "crypto \<Rightarrow> byte list \<Rightarrow> Credential result" where
  "ParseCredential C data =
     tryAs ErrCredential (r_U16 data) (\<lambda>(version, r).
     if version \<noteq> credential_Version then Inl ErrCredential else
     tryAs ErrCredential (r_Fixed32 r) (\<lambda>(owner, r).
     tryAs ErrCredential (r_Bytes 65 r) (\<lambda>(key, r).
     tryAs ErrCredential (r_U32 r) (\<lambda>(capabilities, r).
     tryAs ErrCredential (r_U64 r) (\<lambda>(issued, r).
     tryAs ErrCredential (r_U64 r) (\<lambda>(expires, r).
     tryAs ErrCredential (r_U64 r) (\<lambda>(sequence, r).
     tryAs ErrCredential (r_Done r) (\<lambda>_.
     let out = \<lparr>cd_Owner = owner, cd_DevicePublicKey = key, cd_Capabilities = capabilities, cd_IssuedHeight = issued,
                cd_ExpiresHeight = expires, cd_Sequence = sequence\<rparr>
     in tryE (Credential_Validate C out) (\<lambda>_. Inr out)))))))))"

definition Update_encode :: "DeviceUpdate \<Rightarrow> byte list" where
  "Update_encode u = w_U16 credential_Version @ w_Fixed32 (up_ObjectID u) @ w_Bytes (Spec_encode (up_Spec u))"

definition Update_MarshalBinary :: "crypto \<Rightarrow> DeviceUpdate \<Rightarrow> byte list result" where
  "Update_MarshalBinary C u =
     (if IsZero32 (up_ObjectID u) then Inl ErrCredential
      else tryE (Spec_MarshalBinary C (up_Spec u)) (\<lambda>_. Inr (Update_encode u)))"

definition ParseUpdate :: "crypto \<Rightarrow> byte list \<Rightarrow> DeviceUpdate result" where
  "ParseUpdate C data =
     tryAs ErrCredential (r_U16 data) (\<lambda>(version, r).
     if version \<noteq> credential_Version then Inl ErrCredential else
     tryAs ErrCredential (r_Fixed32 r) (\<lambda>(oid, r).
     tryAs ErrCredential (r_Bytes 256 r) (\<lambda>(specRaw, r).
     tryAs ErrCredential (r_Done r) (\<lambda>_.
     tryAs ErrCredential (ParseSpec C specRaw) (\<lambda>spec.
     if IsZero32 oid then Inl ErrCredential else Inr \<lparr>up_ObjectID = oid, up_Spec = spec\<rparr>)))))"

definition CredentialRef_encode :: "objectid \<Rightarrow> byte list" where
  "CredentialRef_encode oid = w_U16 credential_Version @ w_Fixed32 oid"

definition CredentialRef_MarshalBinary :: "objectid \<Rightarrow> byte list result" where
  "CredentialRef_MarshalBinary oid = (if IsZero32 oid then Inl ErrCredential else Inr (CredentialRef_encode oid))"

definition ParseCredentialRef :: "byte list \<Rightarrow> objectid result" where
  "ParseCredentialRef data =
     tryAs ErrCredential (r_U16 data) (\<lambda>(version, r).
     if version \<noteq> credential_Version then Inl ErrCredential else
     tryAs ErrCredential (r_Fixed32 r) (\<lambda>(oid, r).
     tryAs ErrCredential (r_Done r) (\<lambda>_.
     if IsZero32 oid then Inl ErrCredential else Inr oid)))"

definition ChallengeDigest :: "hashfun \<Rightarrow> objectid \<Rightarrow> u64 \<Rightarrow> byte list \<Rightarrow> hash" where
  "ChallengeDigest H credentialObject sequence challenge =
     DomainHash H ''zephyr/device-credential/challenge/v1'' (w_Fixed32 credentialObject @ w_U64 sequence @ w_Bytes challenge)"

definition VerifyChallenge :: "crypto \<Rightarrow> Credential \<Rightarrow> objectid \<Rightarrow> u64 \<Rightarrow> byte list \<Rightarrow> byte list \<Rightarrow> unit result" where
  "VerifyChallenge C c credentialObject height challenge signature =
     (if \<not> ActiveAt C c height \<or> IsZero32 credentialObject \<or> length signature \<noteq> 64 \<or> challenge = [] then Inl ErrProof
      else if \<not> unmarshal_ok C (cd_DevicePublicKey c) then Inl ErrProof
      else
        let r = big_SetBytes (take 32 signature); s = big_SetBytes (drop 32 signature); order = p256_order
        in if r = 0 \<or> s = 0 \<or> order \<le> r \<or> order \<le> s then Inl ErrProof
           else if order div 2 < s then Inl ErrProof
           else
             let digest = ChallengeDigest (sha256 C) credentialObject (cd_Sequence c) challenge
             in if \<not> ecdsa_verify C (cd_DevicePublicKey c) digest r s then Inl ErrProof else Inr ())"

subsection \<open>The message formats\<close>

definition spec_valid :: "crypto \<Rightarrow> DeviceSpec \<Rightarrow> bool" where
  "spec_valid C s \<longleftrightarrow> validPublicKey C (sp_DevicePublicKey s) \<and> sp_Capabilities s \<noteq> 0 \<and>
     sp_Capabilities s AND NOT SupportedCapabilities = 0"

definition credential_valid :: "crypto \<Rightarrow> Credential \<Rightarrow> bool" where
  "credential_valid C c \<longleftrightarrow> cd_Owner c \<noteq> 0 \<and> cd_IssuedHeight c \<noteq> 0 \<and> cd_Sequence c \<noteq> 0 \<and>
     validPublicKey C (cd_DevicePublicKey c) \<and> cd_Capabilities c \<noteq> 0 \<and> cd_Capabilities c AND NOT SupportedCapabilities = 0 \<and>
     (cd_ExpiresHeight c = 0 \<or> cd_IssuedHeight c < cd_ExpiresHeight c)"

lemma Spec_Validate_iff: "Spec_Validate C s = Inr u \<longleftrightarrow> spec_valid C s"
  by (auto simp: Spec_Validate_def spec_valid_def)

lemma Credential_Validate_iff: "Credential_Validate C c = Inr u \<longleftrightarrow> credential_valid C c"
  by (auto simp: Credential_Validate_def credential_valid_def IsZero32_def not_le)

lemma validPublicKey_length: "validPublicKey C k \<Longrightarrow> length k = 65"
  by (simp add: validPublicKey_def split: if_splits)

interpretation SpecWire: canonical_wire Spec_encode "ParseSpec C" "spec_valid C" for C
proof
  fix bs and x :: DeviceSpec
  have "spec_valid C x \<Longrightarrow> length (sp_DevicePublicKey x) = 65" by (auto simp: spec_valid_def dest: validPublicKey_length)
  then show "ParseSpec C bs = Inr x \<longleftrightarrow> spec_valid C x \<and> bs = Spec_encode x"
    by (cases x) (auto simp: ParseSpec_def Spec_encode_def wire_iff Spec_Validate_iff Let_def)
qed

interpretation CredentialWire: canonical_wire Credential_encode "ParseCredential C" "credential_valid C" for C
proof
  fix bs and x :: Credential
  have "credential_valid C x \<Longrightarrow> length (cd_DevicePublicKey x) = 65" by (auto simp: credential_valid_def dest: validPublicKey_length)
  then show "ParseCredential C bs = Inr x \<longleftrightarrow> credential_valid C x \<and> bs = Credential_encode x"
    by (cases x) (auto simp: ParseCredential_def Credential_encode_def wire_iff Credential_Validate_iff Let_def)
qed

interpretation UpdateWire: canonical_wire Update_encode "ParseUpdate C" "\<lambda>u. up_ObjectID u \<noteq> 0 \<and> spec_valid C (up_Spec u)" for C
proof
  fix bs and x :: DeviceUpdate
  have "spec_valid C (up_Spec x) \<Longrightarrow> length (Spec_encode (up_Spec x)) \<le> 256"
    by (auto simp: Spec_encode_def spec_valid_def dest: validPublicKey_length)
  then show "ParseUpdate C bs = Inr x \<longleftrightarrow> (up_ObjectID x \<noteq> 0 \<and> spec_valid C (up_Spec x)) \<and> bs = Update_encode x"
    by (cases x) (auto simp: ParseUpdate_def Update_encode_def wire_iff SpecWire.parse_iff IsZero32_def)
qed

interpretation CredentialRefWire: canonical_wire CredentialRef_encode ParseCredentialRef "\<lambda>oid. oid \<noteq> 0"
  by unfold_locales (auto simp: ParseCredentialRef_def CredentialRef_encode_def wire_iff IsZero32_def)

lemma Credential_Marshal_iff: "Credential_MarshalBinary C c = Inr raw \<longleftrightarrow> credential_valid C c \<and> raw = Credential_encode c"
  by (auto simp: Credential_MarshalBinary_def Credential_Validate_iff)

definition challenge_frame :: "objectid \<Rightarrow> u64 \<Rightarrow> byte list \<Rightarrow> byte list" where
  "challenge_frame oid sequence challenge =
     frame ''zephyr/device-credential/challenge/v1'' (w_Fixed32 oid @ w_U64 sequence @ w_Bytes challenge)"

lemma challenge_digest_binds:
  assumes "ChallengeDigest H o1 s1 c1 = ChallengeDigest H o2 s2 c2" "length c1 < 2 ^ 31" "length c2 < 2 ^ 31"
  shows "o1 = o2 \<and> s1 = s2 \<and> c1 = c2 \<or> collides H [challenge_frame o1 s1 c1] [challenge_frame o2 s2 c2]"
proof (cases "challenge_frame o1 s1 c1 = challenge_frame o2 s2 c2")
  case True
  then have "w_Fixed32 o1 @ w_U64 s1 @ w_Bytes c1 = w_Fixed32 o2 @ w_U64 s2 @ w_Bytes c2"
    using frame_inject assms(2,3) by (simp add: challenge_frame_def)
  then show ?thesis using assms(2,3) w_Bytes_inject [of c1 "[]" c2 "[]"] by (simp add: wire_cancel)
next
  case False
  then show ?thesis using assms(1) by (simp add: collides_def ChallengeDigest_def DomainHash_framing challenge_frame_def)
qed

end
