(* ===== verification/Contracts.thy ===== *)
theory Contracts
  imports GoStrings
begin

text \<open>
  Smart contracts: deployments (\<open>internal/v2/contracts/contracts.go\<close>), the guard around a contract engine
  (\<open>internal/v2/contracts/metered.go\<close>), and the contract operations of a transaction (\<open>internal/v2/contracts/ops.go\<close>).

  The Go interface \<open>Runtime\<close> is a record of its two methods. The interpreter behind it is not part of the repository and
  stays a value of that record. A Go map that is ranged over is the list of its entries in the order of the range.

  The lemmas show that the parsers accept exactly the encodings of the valid values, and that whatever the interpreter
  does, a guarded call stays within its fuel, its bounds and the writes it declared.
\<close>

definition RuntimeWASMv1 :: "byte list" where
  "RuntimeWASMv1 = str ''wasm-v1''"

definition RuntimeZephyrScriptV1 :: "byte list" where
  "RuntimeZephyrScriptV1 = str ''zephyr-script-v1''"

abbreviation MaxModuleBytes :: nat where "MaxModuleBytes \<equiv> 4194304"
abbreviation MaxInitialStateBytes :: nat where "MaxInitialStateBytes \<equiv> 1048576"
abbreviation MaxArgumentsBytes :: nat where "MaxArgumentsBytes \<equiv> 1048576"
abbreviation MaxReturnBytes :: nat where "MaxReturnBytes \<equiv> 1048576"
abbreviation MaxEventBytes :: nat where "MaxEventBytes \<equiv> 65536"
abbreviation MaxEvents :: nat where "MaxEvents \<equiv> 1024"
abbreviation MaxAccesses :: nat where "MaxAccesses \<equiv> 4096"

subsection \<open>Deployments\<close>

record Deployment =
  dp_Runtime :: "byte list"
  dp_Code :: "byte list"
  dp_ABI :: u16
  dp_UpgradeAuthority :: accountid
  dp_InitialState :: "byte list"
  dp_MaxMemoryPages :: u32

definition ValidateWASMModule :: "byte list \<Rightarrow> bool" where
  "ValidateWASMModule code =
     (if length code < 8 \<or> MaxModuleBytes < length code then False
      else take 4 code = [0x00, 0x61, 0x73, 0x6d] \<and> take 4 (drop 4 code) = [0x01, 0x00, 0x00, 0x00])"

definition ValidateScriptModule :: "byte list \<Rightarrow> bool" where
  "ValidateScriptModule code \<longleftrightarrow> 0 < length code \<and> length code \<le> MaxModuleBytes \<and> utf8_Valid code \<and> 0 \<notin> set code"

definition Deployment_Validate :: "Deployment \<Rightarrow> unit result" where
  "Deployment_Validate d =
     (if dp_ABI d = 0 \<or> length (dp_Code d) = 0 \<or> MaxModuleBytes < length (dp_Code d) \<or>
         MaxInitialStateBytes < length (dp_InitialState d) \<or> dp_MaxMemoryPages d = 0 \<or> IsZero32 (dp_UpgradeAuthority d)
      then Inl ErrInvalidDeployment
      else if dp_Runtime d = RuntimeWASMv1 then
        (if \<not> ValidateWASMModule (dp_Code d) then Inl ErrInvalidModule else Inr ())
      else if dp_Runtime d = RuntimeZephyrScriptV1 then
        (if \<not> ValidateScriptModule (dp_Code d) then Inl ErrInvalidModule else Inr ())
      else Inl ErrInvalidDeployment)"

definition Deployment_encode :: "Deployment \<Rightarrow> byte list" where
  "Deployment_encode d =
     w_Bytes (dp_Runtime d) @ w_Bytes (dp_Code d) @ w_U16 (dp_ABI d) @ w_Fixed32 (dp_UpgradeAuthority d) @
     w_Bytes (dp_InitialState d) @ w_U32 (dp_MaxMemoryPages d)"

definition Deployment_MarshalBinary :: "Deployment \<Rightarrow> byte list result" where
  "Deployment_MarshalBinary d = tryE (Deployment_Validate d) (\<lambda>_. Inr (Deployment_encode d))"

subsection \<open>The guard around the interpreter\<close>

record Access =
  ac_ObjectID :: objectid
  ac_Write :: bool

record Request =
  rq_ContractID :: bytes32
  rq_Runtime :: "byte list"
  rq_Code :: "byte list"
  rq_Entrypoint :: "byte list"
  rq_Arguments :: "byte list"
  rq_Accesses :: "Access list"
  rq_ReadValues :: "(objectid \<times> byte list) list"
  rq_FuelLimit :: u64

record CallResult =
  cl_ReturnData :: "byte list"
  cl_FuelUsed :: u64
  cl_Writes :: "(objectid \<times> byte list) list"
  cl_Events :: "byte list list"

record Runtime =
  rn_ValidateModule :: "byte list \<Rightarrow> unit result"
  rn_Execute :: "Request \<Rightarrow> CallResult result"

definition allow :: "(objectid \<rightharpoonup> bool) \<Rightarrow> Access \<Rightarrow> (objectid \<rightharpoonup> bool) result" where
  "allow allowed access =
     (if IsZero32 (ac_ObjectID access) then Inl ErrInvalidRequest
      else if allowed (ac_ObjectID access) \<noteq> None then Inl ErrInvalidRequest
      else Inr (allowed(ac_ObjectID access \<mapsto> ac_Write access)))"

definition validateRequest :: "Request \<Rightarrow> (objectid \<rightharpoonup> bool) result" where
  "validateRequest request =
     (if IsZero32 (rq_ContractID request) \<or> TrimSpace (rq_Entrypoint request) = [] \<or> 128 < length (rq_Entrypoint request) \<or>
         MaxModuleBytes < length (rq_Code request) \<or> MaxArgumentsBytes < length (rq_Arguments request) \<or>
         rq_FuelLimit request = 0 \<or> MaxAccesses < length (rq_Accesses request)
      then Inl ErrInvalidRequest
      else tryE (foldE allow Map.empty (rq_Accesses request)) (\<lambda>allowed.
        tryE (checkE (\<lambda>oid. if allowed oid = None then Inl ErrUndeclaredAccess else Inr ()) (map fst (rq_ReadValues request)))
          (\<lambda>_. Inr allowed)))"

definition metered_ValidateModule :: "Runtime option \<Rightarrow> byte list \<Rightarrow> unit result" where
  "metered_ValidateModule m code =
     (case m of None \<Rightarrow> Inl ErrInvalidModule | Some inner \<Rightarrow> rn_ValidateModule inner code)"

definition metered_Execute :: "Runtime option \<Rightarrow> Request \<Rightarrow> CallResult result" where
  "metered_Execute m request =
     (case m of
        None \<Rightarrow> Inl ErrInvalidRequest
      | Some inner \<Rightarrow>
          tryE (validateRequest request) (\<lambda>allowed.
          tryE (if 0 < length (rq_Code request) then rn_ValidateModule inner (rq_Code request) else Inr ()) (\<lambda>_.
          tryE (rn_Execute inner request) (\<lambda>res.
          if rq_FuelLimit request < cl_FuelUsed res then Inl ErrFuelExhausted
          else if MaxReturnBytes < length (cl_ReturnData res) \<or> MaxEvents < length (cl_Events res) then Inl ErrContractResult
          else tryE (checkE (\<lambda>event. if MaxEventBytes < length event then Inl ErrContractResult else Inr ()) (cl_Events res)) (\<lambda>_.
          tryE (checkE (\<lambda>oid. if allowed oid \<noteq> Some True then Inl ErrUndeclaredAccess else Inr ()) (map fst (cl_Writes res))) (\<lambda>_.
          Inr res))))))"

subsection \<open>Contract operations\<close>

record StoredContract =
  sc_ID :: bytes32
  sc_Deployment :: Deployment

definition ParseDeployment :: "byte list \<Rightarrow> Deployment result" where
  "ParseDeployment data =
     tryAs ErrContractWire (r_Bytes 64 data) (\<lambda>(runtimeName, r).
     tryAs ErrContractWire (r_Bytes 4194304 r) (\<lambda>(code, r).
     tryAs ErrContractWire (r_U16 r) (\<lambda>(abi, r).
     tryAs ErrContractWire (r_Fixed32 r) (\<lambda>(authority, r).
     tryAs ErrContractWire (r_Bytes 1048576 r) (\<lambda>(initial, r).
     tryAs ErrContractWire (r_U32 r) (\<lambda>(pages, r).
     tryAs ErrContractWire (r_Done r) (\<lambda>_.
     let deployment = \<lparr>dp_Runtime = runtimeName, dp_Code = code, dp_ABI = abi, dp_UpgradeAuthority = authority,
                       dp_InitialState = initial, dp_MaxMemoryPages = pages\<rparr>
     in tryE (Deployment_Validate deployment) (\<lambda>_. Inr deployment))))))))"

definition Stored_encode :: "StoredContract \<Rightarrow> byte list" where
  "Stored_encode s = w_Fixed32 (sc_ID s) @ w_Bytes (Deployment_encode (sc_Deployment s))"

definition Stored_MarshalBinary :: "StoredContract \<Rightarrow> byte list result" where
  "Stored_MarshalBinary s =
     (if IsZero32 (sc_ID s) then Inl ErrContractWire
      else tryE (Deployment_MarshalBinary (sc_Deployment s)) (\<lambda>_. Inr (Stored_encode s)))"

definition ParseStoredContract :: "byte list \<Rightarrow> StoredContract result" where
  "ParseStoredContract data =
     tryAs ErrContractWire (r_Fixed32 data) (\<lambda>(cid, r).
     tryAs ErrContractWire (r_Bytes 5243136 r) (\<lambda>(deploymentRaw, r).
     tryAs ErrContractWire (r_Done r) (\<lambda>_.
     tryAs ErrContractWire (ParseDeployment deploymentRaw) (\<lambda>deployment.
     if IsZero32 cid then Inl ErrContractWire else Inr \<lparr>sc_ID = cid, sc_Deployment = deployment\<rparr>))))"

record Call =
  cc_ContractObject :: objectid
  cc_Entrypoint :: "byte list"
  cc_Arguments :: "byte list"
  cc_FuelLimit :: u64
  cc_Accesses :: "Access list"

definition access_bytes :: "Access \<Rightarrow> byte list" where
  "access_bytes a = w_Fixed32 (ac_ObjectID a) @ w_Bool (ac_Write a)"

definition write_access :: "objectid set \<times> byte list \<Rightarrow> Access \<Rightarrow> (objectid set \<times> byte list) result" where
  "write_access = (\<lambda>(seen, w) access.
     if IsZero32 (ac_ObjectID access) then Inl ErrContractWire
     else if ac_ObjectID access \<in> seen then Inl ErrContractWire
     else Inr (insert (ac_ObjectID access) seen, w @ access_bytes access))"

definition Call_MarshalBinary :: "Call \<Rightarrow> byte list result" where
  "Call_MarshalBinary c =
     (if IsZero32 (cc_ContractObject c) \<or> cc_Entrypoint c = [] \<or> 128 < length (cc_Entrypoint c) \<or>
         MaxArgumentsBytes < length (cc_Arguments c) \<or> cc_FuelLimit c = 0 \<or> MaxAccesses < length (cc_Accesses c)
      then Inl ErrContractWire
      else
        let w = w_Fixed32 (cc_ContractObject c) @ w_Bytes (cc_Entrypoint c) @ w_Bytes (cc_Arguments c) @
                w_U64 (cc_FuelLimit c) @ w_U32 (of_nat (length (cc_Accesses c)))
        in tryE (foldE write_access ({}, w) (cc_Accesses c)) (\<lambda>(seen, w). Inr w))"

definition read_access :: "reader \<Rightarrow> (Access \<times> reader) result" where
  "read_access r =
     tryAs ErrContractWire (r_Fixed32 r) (\<lambda>(oid, r).
     tryAs ErrContractWire (r_Bool r) (\<lambda>(write, r).
     Inr (\<lparr>ac_ObjectID = oid, ac_Write = write\<rparr>, r)))"

definition ParseCall :: "byte list \<Rightarrow> Call result" where
  "ParseCall data =
     tryAs ErrContractWire (r_Fixed32 data) (\<lambda>(contractObject, r).
     tryAs ErrContractWire (r_Bytes 128 r) (\<lambda>(entry, r).
     tryAs ErrContractWire (r_Bytes 1048576 r) (\<lambda>(args, r).
     tryAs ErrContractWire (r_U64 r) (\<lambda>(fuel, r).
     tryAs ErrContractWire (r_U32 r) (\<lambda>(count, r).
     if MaxAccesses < unat count then Inl ErrContractWire else
     tryAs ErrContractWire (r_many (unat count) read_access r) (\<lambda>(accesses, r).
     tryAs ErrContractWire (r_Done r) (\<lambda>_.
     let call = \<lparr>cc_ContractObject = contractObject, cc_Entrypoint = entry, cc_Arguments = args, cc_FuelLimit = fuel,
                 cc_Accesses = accesses\<rparr>
     in tryE (Call_MarshalBinary call) (\<lambda>_. Inr call))))))))"

record ContractReceipt =
  rp_ContractID :: bytes32
  rp_FuelUsed :: u64
  rp_ReturnHash :: hash
  rp_EventRoot :: hash

definition ContractReceipt_MarshalBinary :: "ContractReceipt \<Rightarrow> byte list" where
  "ContractReceipt_MarshalBinary r =
     w_Fixed32 (rp_ContractID r) @ w_U64 (rp_FuelUsed r) @ w_Fixed32 (rp_ReturnHash r) @ w_Fixed32 (rp_EventRoot r)"

subsection \<open>What the guard enforces\<close>

lemma validateRequest_allowed:
  assumes "validateRequest request = Inr allowed" "allowed oid = Some write"
  shows "\<exists>a \<in> set (rq_Accesses request). ac_ObjectID a = oid \<and> ac_Write a = write"
proof -
  have "foldE allow Map.empty (rq_Accesses request) = Inr allowed"
    using assms(1) by (auto simp: validateRequest_def)
  then have "\<forall>oid w. allowed oid = Some w \<longrightarrow> (\<exists>a \<in> set (rq_Accesses request). ac_ObjectID a = oid \<and> ac_Write a = w)"
    by (rule foldE_inv) (auto simp: allow_def split: if_splits)
  then show ?thesis using assms(2) by blast
qed

lemma metered_writes:
  assumes "metered_Execute m request = Inr res"
  shows "fst ` set (cl_Writes res) \<subseteq> ac_ObjectID ` {a \<in> set (rq_Accesses request). ac_Write a}"
proof
  obtain allowed where al: "validateRequest request = Inr allowed" and w: "\<forall>oid \<in> set (map fst (cl_Writes res)). allowed oid = Some True"
    using assms(1) by (auto simp: metered_Execute_def checkE_ok split: if_splits option.splits)
  fix oid assume "oid \<in> fst ` set (cl_Writes res)"
  then have "allowed oid = Some True" using w by auto
  then show "oid \<in> ac_ObjectID ` {a \<in> set (rq_Accesses request). ac_Write a}"
    using validateRequest_allowed [OF al] by blast
qed

text \<open>
  C24. The guard holds against any interpreter. Whatever the interpreter returns, a call that the guard lets through has
  used no more fuel than its limit, returned and emitted no more than the bounds allow, and written only objects that the
  request declares writable; and it is the result the interpreter gave for that request, with the module validated when
  there is code.
\<close>

theorem guard_confines_runtime:
  assumes "metered_Execute m request = Inr res"
  shows "cl_FuelUsed res \<le> rq_FuelLimit request \<and> length (cl_ReturnData res) \<le> MaxReturnBytes \<and>
    length (cl_Events res) \<le> MaxEvents \<and> (\<forall>event \<in> set (cl_Events res). length event \<le> MaxEventBytes) \<and>
    fst ` set (cl_Writes res) \<subseteq> ac_ObjectID ` {a \<in> set (rq_Accesses request). ac_Write a} \<and>
    (\<exists>inner. m = Some inner \<and> rn_Execute inner request = Inr res \<and>
      (rq_Code request \<noteq> [] \<longrightarrow> rn_ValidateModule inner (rq_Code request) = Inr ()))"
proof -
  obtain inner where m: "m = Some inner" using assms(1) by (cases m) (simp_all add: metered_Execute_def)
  then have "rn_Execute inner request = Inr res" "rq_Code request \<noteq> [] \<longrightarrow> rn_ValidateModule inner (rq_Code request) = Inr ()"
    "cl_FuelUsed res \<le> rq_FuelLimit request" "length (cl_ReturnData res) \<le> MaxReturnBytes" "length (cl_Events res) \<le> MaxEvents"
    "\<forall>event \<in> set (cl_Events res). length event \<le> MaxEventBytes"
    using assms(1) by (auto simp: metered_Execute_def checkE_ok not_less split: if_splits)
  then show ?thesis using m metered_writes [OF assms] by blast
qed

definition sample_request :: Request where
  "sample_request =
     \<lparr>rq_ContractID = 7, rq_Runtime = RuntimeZephyrScriptV1, rq_Code = [], rq_Entrypoint = [90], rq_Arguments = [],
      rq_Accesses = [\<lparr>ac_ObjectID = 3, ac_Write = True\<rparr>], rq_ReadValues = [(3, [1])], rq_FuelLimit = 10\<rparr>"

definition sample_result :: CallResult where
  "sample_result = \<lparr>cl_ReturnData = [1], cl_FuelUsed = 4, cl_Writes = [(3, [2])], cl_Events = [[9]]\<rparr>"

definition sample_runtime :: Runtime where
  "sample_runtime = \<lparr>rn_ValidateModule = (\<lambda>_. Inr ()), rn_Execute = (\<lambda>_. Inr sample_result)\<rparr>"

theorem guard_confines_runtime_witness:
  "metered_Execute (Some sample_runtime) sample_request = Inr sample_result \<and>
   fst ` set (cl_Writes sample_result) \<subseteq> ac_ObjectID ` {a \<in> set (rq_Accesses sample_request). ac_Write a}"
proof -
  have "metered_Execute (Some sample_runtime) sample_request = Inr sample_result"
    by (simp add: metered_Execute_def sample_runtime_def sample_request_def sample_result_def validateRequest_def allow_def IsZero32_def)
  then show ?thesis using guard_confines_runtime by blast
qed

subsection \<open>The message formats\<close>

definition deployment_valid :: "Deployment \<Rightarrow> bool" where
  "deployment_valid d \<longleftrightarrow> dp_ABI d \<noteq> 0 \<and> dp_Code d \<noteq> [] \<and> length (dp_Code d) \<le> MaxModuleBytes \<and>
     length (dp_InitialState d) \<le> MaxInitialStateBytes \<and> dp_MaxMemoryPages d \<noteq> 0 \<and> dp_UpgradeAuthority d \<noteq> 0 \<and>
     (dp_Runtime d = RuntimeWASMv1 \<and> ValidateWASMModule (dp_Code d) \<or>
      dp_Runtime d = RuntimeZephyrScriptV1 \<and> ValidateScriptModule (dp_Code d))"

lemma runtimes_differ [simp]: "RuntimeWASMv1 \<noteq> RuntimeZephyrScriptV1" "RuntimeZephyrScriptV1 \<noteq> RuntimeWASMv1"
  by (simp_all add: RuntimeWASMv1_def RuntimeZephyrScriptV1_def)

lemma Deployment_Validate_iff: "Deployment_Validate d = Inr u \<longleftrightarrow> deployment_valid d"
  by (auto simp: Deployment_Validate_def deployment_valid_def IsZero32_def not_less)

lemma deployment_valid_length: "deployment_valid d \<Longrightarrow> length (dp_Runtime d) \<le> 16"
  by (auto simp: deployment_valid_def RuntimeWASMv1_def RuntimeZephyrScriptV1_def)

interpretation DeploymentWire: canonical_wire Deployment_encode ParseDeployment deployment_valid
proof
  fix bs and x :: Deployment
  have "deployment_valid x \<Longrightarrow> length (dp_Runtime x) \<le> 64" using deployment_valid_length [of x] by simp
  moreover have "deployment_valid x \<Longrightarrow> length (dp_Code x) \<le> 4194304 \<and> length (dp_InitialState x) \<le> 1048576"
    by (simp add: deployment_valid_def)
  ultimately show "ParseDeployment bs = Inr x \<longleftrightarrow> deployment_valid x \<and> bs = Deployment_encode x"
    by (cases x) (auto simp: ParseDeployment_def Deployment_encode_def wire_iff Deployment_Validate_iff Let_def)
qed

definition stored_valid :: "StoredContract \<Rightarrow> bool" where
  "stored_valid s \<longleftrightarrow> sc_ID s \<noteq> 0 \<and> deployment_valid (sc_Deployment s)"

interpretation StoredWire: canonical_wire Stored_encode ParseStoredContract stored_valid
proof
  fix bs and x :: StoredContract
  have "deployment_valid (sc_Deployment x) \<Longrightarrow> length (Deployment_encode (sc_Deployment x)) \<le> 5243136"
    using deployment_valid_length [of "sc_Deployment x"] by (simp add: Deployment_encode_def deployment_valid_def)
  then show "ParseStoredContract bs = Inr x \<longleftrightarrow> stored_valid x \<and> bs = Stored_encode x"
    by (cases x) (auto simp: ParseStoredContract_def Stored_encode_def stored_valid_def wire_iff DeploymentWire.parse_iff IsZero32_def)
qed

lemma Stored_Marshal_iff: "Stored_MarshalBinary s = Inr raw \<longleftrightarrow> stored_valid s \<and> raw = Stored_encode s"
  by (auto simp: Stored_MarshalBinary_def stored_valid_def Deployment_MarshalBinary_def Deployment_Validate_iff IsZero32_def)

definition Call_encode :: "Call \<Rightarrow> byte list" where
  "Call_encode c =
     w_Fixed32 (cc_ContractObject c) @ w_Bytes (cc_Entrypoint c) @ w_Bytes (cc_Arguments c) @ w_U64 (cc_FuelLimit c) @
     w_U32 (of_nat (length (cc_Accesses c))) @ concat (map access_bytes (cc_Accesses c))"

definition call_valid :: "Call \<Rightarrow> bool" where
  "call_valid c \<longleftrightarrow> cc_ContractObject c \<noteq> 0 \<and> cc_Entrypoint c \<noteq> [] \<and> length (cc_Entrypoint c) \<le> 128 \<and>
     length (cc_Arguments c) \<le> MaxArgumentsBytes \<and> cc_FuelLimit c \<noteq> 0 \<and> length (cc_Accesses c) \<le> MaxAccesses \<and>
     list_all (\<lambda>a. ac_ObjectID a \<noteq> 0) (cc_Accesses c) \<and> distinct (map ac_ObjectID (cc_Accesses c))"

lemma write_accesses:
  "foldE write_access (seen, w) accesses = Inr (seen', w') \<longleftrightarrow>
     list_all (\<lambda>a. ac_ObjectID a \<noteq> 0) accesses \<and> distinct (map ac_ObjectID accesses) \<and> ac_ObjectID ` set accesses \<inter> seen = {} \<and>
     seen' = seen \<union> ac_ObjectID ` set accesses \<and> w' = w @ concat (map access_bytes accesses)"
  by (induction accesses arbitrary: seen w) (auto simp: write_access_def IsZero32_def)

lemma Call_Marshal_iff: "Call_MarshalBinary c = Inr raw \<longleftrightarrow> call_valid c \<and> raw = Call_encode c"
  by (auto simp: Call_MarshalBinary_def call_valid_def Call_encode_def write_accesses IsZero32_def Let_def not_less)

interpretation AccessField: wire_format access_bytes read_access "\<lambda>_. True"
proof
  fix r x s
  show "read_access r = Inr (x, s) \<longleftrightarrow> True \<and> r = access_bytes x @ s"
    by (cases x) (auto simp: read_access_def access_bytes_def wire_iff)
qed

interpretation CallWire: canonical_wire Call_encode ParseCall call_valid
proof
  fix bs and x :: Call
  have c: "call_valid x \<Longrightarrow> unat (of_nat (length (cc_Accesses x)) :: u32) = length (cc_Accesses x)"
    by (rule unat_of_nat_small) (simp add: call_valid_def)
  show "ParseCall bs = Inr x \<longleftrightarrow> call_valid x \<and> bs = Call_encode x"
  proof
    show "ParseCall bs = Inr x \<Longrightarrow> call_valid x \<and> bs = Call_encode x"
      by (cases x) (auto simp: ParseCall_def Call_encode_def wire_iff AccessField.r_many_iff Call_Marshal_iff Let_def)
    show "call_valid x \<and> bs = Call_encode x \<Longrightarrow> ParseCall bs = Inr x"
      using c AccessField.many_back_end [of "cc_Accesses x"]
      by (cases x) (auto simp: ParseCall_def Call_encode_def Call_Marshal_iff Let_def call_valid_def)
  qed
qed

end
