(* ===== verification/Compute.thy ===== *)
theory Compute
  imports GoStrings Objects
begin

text \<open>
  The compute market: offers, jobs and results (\<open>internal/v2/compute/model.go\<close>), the in-memory market
  (\<open>internal/v2/compute/market.go\<close>), the job objects of the chain and their wire formats (\<open>internal/v2/compute/state.go\<close>),
  assignment and settlement of such a job (\<open>internal/v2/compute/onchain.go\<close>), the messages between shards
  (\<open>internal/v2/compute/messages.go\<close>) and settlement receipts (\<open>internal/v2/compute/settlement_receipt.go\<close>).

  Verification modes and job states are open \<open>uint8\<close> types. A Go map from accounts is the list of its entries, one per
  key. The code orders accounts by their hexadecimal strings, which is the order of the words. \<open>sort.Slice\<close> may reorder
  entries with equal keys; the stable sort stands for it, and no two assignments or results of a job have one provider.

  The lemmas show that what is written is read back trimmed and sorted, that a job keeps its books from creation to
  settlement, and that the majority rule does not depend on the order in which a map is visited.
\<close>

subsection \<open>Data\<close>

type_synonym verification_mode = u8

abbreviation VerificationUnknown :: verification_mode where "VerificationUnknown \<equiv> 0"
abbreviation VerificationDeterministic :: verification_mode where "VerificationDeterministic \<equiv> 1"
abbreviation VerificationReplicated :: verification_mode where "VerificationReplicated \<equiv> 2"
abbreviation VerificationChallenge :: verification_mode where "VerificationChallenge \<equiv> 3"
abbreviation VerificationZeroKnowledge :: verification_mode where "VerificationZeroKnowledge \<equiv> 4"
abbreviation VerificationTEE :: verification_mode where "VerificationTEE \<equiv> 5"
abbreviation VerificationClientApproved :: verification_mode where "VerificationClientApproved \<equiv> 6"
abbreviation VerificationHybrid :: verification_mode where "VerificationHybrid \<equiv> 7"

type_synonym job_status = u8

abbreviation JobPending :: job_status where "JobPending \<equiv> 1"
abbreviation JobAssigned :: job_status where "JobAssigned \<equiv> 2"
abbreviation JobAwaitingVerification :: job_status where "JobAwaitingVerification \<equiv> 3"
abbreviation JobSettled :: job_status where "JobSettled \<equiv> 4"
abbreviation JobExpired :: job_status where "JobExpired \<equiv> 5"

abbreviation computeOfferObjectIndex :: u32 where "computeOfferObjectIndex \<equiv> 0x90000000"
abbreviation computeJobObjectIndex :: u32 where "computeJobObjectIndex \<equiv> 0x90000001"

record Resources =
  re_CPUCores :: u16
  re_MemoryMiB :: u32
  re_GPUCount :: u16
  re_GPUMemoryMiB :: u32
  re_StorageMiB :: u64
  re_BandwidthMbps :: u32
  re_Capabilities :: "byte list list"

record Offer =
  oc_Provider :: accountid
  oc_Resources :: Resources
  oc_PricePerUnit :: u64
  oc_Collateral :: u64
  oc_Verification :: "verification_mode list"
  oc_ValidUntilHeight :: u64

record Job =
  jb_Owner :: accountid
  jb_WorkloadHash :: hash
  jb_InputRoot :: hash
  jb_Resources :: Resources
  jb_MaxPrice :: u64
  jb_CollateralRequired :: u64
  jb_Verification :: verification_mode
  jb_DeadlineHeight :: u64
  jb_Replicas :: u16
  jb_Private :: bool

record ComputeResult =
  rs_JobID :: bytes32
  rs_Provider :: accountid
  rs_ResultRoot :: hash
  rs_ProofHash :: hash
  rs_AttestationHash :: hash
  rs_CompletedHeight :: u64

record Assignment =
  as_OfferID :: hash
  as_Provider :: accountid
  as_Price :: u64

record OnChainJob =
  oj_ID :: bytes32
  oj_Job :: Job
  oj_Escrow :: u64
  oj_Status :: job_status
  oj_Assignments :: "Assignment list"
  oj_Results :: "ComputeResult list"

record VerificationEvidence =
  ve_DeterministicReplay :: bool
  ve_ProofVerified :: bool
  ve_AttestationVerified :: bool
  ve_ChallengePassed :: bool
  ve_ClientApproved :: bool

type_synonym amounts = "(accountid \<times> u64) list"

record Settlement =
  st_JobID :: bytes32
  st_ResultRoot :: hash
  st_Payments :: amounts
  st_Refund :: u64

record OnChainSettlement = Settlement +
  st_CollateralReturns :: amounts
  st_SlashedCollateral :: amounts
  st_SlashReward :: u64

text \<open>Reading a map of amounts at a key, which gives 0 for an absent one, and \<open>m[k] += v\<close>, which wraps around.\<close>

definition amount_at :: "amounts \<Rightarrow> accountid \<Rightarrow> u64" where
  "amount_at m k = (case map_of m k of None \<Rightarrow> 0 | Some v \<Rightarrow> v)"

definition add_amount :: "accountid \<Rightarrow> u64 \<Rightarrow> amounts \<Rightarrow> amounts" where
  "add_amount k v m = AList.update k (amount_at m k + v) m"

subsection \<open>Validation and encoding of offers, jobs and results\<close>

definition Resources_Validate :: "Resources \<Rightarrow> unit result" where
  "Resources_Validate r =
     (if re_CPUCores r = 0 \<and> re_GPUCount r = 0 then Inl ErrInvalidOffer
      else if re_MemoryMiB r = 0 \<or> 32 < length (re_Capabilities r) then Inl ErrInvalidOffer
      else checkE (\<lambda>c. if TrimSpace c = [] \<or> 64 < length c then Inl ErrInvalidOffer else Inr ()) (re_Capabilities r))"

definition Offer_Validate :: "Offer \<Rightarrow> unit result" where
  "Offer_Validate o' =
     (if IsZero32 (oc_Provider o') \<or> oc_PricePerUnit o' = 0 \<or> oc_ValidUntilHeight o' = 0 \<or>
         length (oc_Verification o') = 0 \<or> 7 < length (oc_Verification o') then Inl ErrInvalidOffer
      else Resources_Validate (oc_Resources o'))"

definition Job_Validate :: "Job \<Rightarrow> unit result" where
  "Job_Validate j =
     (if IsZero32 (jb_Owner j) \<or> IsZero32 (jb_WorkloadHash j) \<or> IsZero32 (jb_InputRoot j) \<or> jb_MaxPrice j = 0 \<or>
         jb_DeadlineHeight j = 0 \<or> jb_Verification j \<le> VerificationUnknown \<or> VerificationHybrid < jb_Verification j
      then Inl ErrInvalidJob
      else if jb_Verification j = VerificationReplicated \<and> jb_Replicas j < 2 then Inl ErrInvalidJob
      else Resources_Validate (jb_Resources j))"

definition Result_Validate :: "ComputeResult \<Rightarrow> unit result" where
  "Result_Validate r =
     (if IsZero32 (rs_JobID r) \<or> IsZero32 (rs_Provider r) \<or> IsZero32 (rs_ResultRoot r) \<or> rs_CompletedHeight r = 0
      then Inl ErrInvalidResult else Inr ())"

definition writeResources :: "Resources \<Rightarrow> byte list" where
  "writeResources r =
     w_U16 (re_CPUCores r) @ w_U32 (re_MemoryMiB r) @ w_U16 (re_GPUCount r) @ w_U32 (re_GPUMemoryMiB r) @
     w_U64 (re_StorageMiB r) @ w_U32 (re_BandwidthMbps r) @ w_U32 (of_nat (length (re_Capabilities r))) @
     concat (map (\<lambda>c. w_Bytes (TrimSpace c)) (re_Capabilities r))"

definition Offer_encode :: "Offer \<Rightarrow> byte list" where
  "Offer_encode o' =
     w_Fixed32 (oc_Provider o') @ writeResources (oc_Resources o') @ w_U64 (oc_PricePerUnit o') @ w_U64 (oc_Collateral o') @
     w_U32 (of_nat (length (oc_Verification o'))) @ concat (map w_U8 (oc_Verification o')) @ w_U64 (oc_ValidUntilHeight o')"

definition Offer_MarshalBinary :: "Offer \<Rightarrow> byte list result" where
  "Offer_MarshalBinary o' = tryE (Offer_Validate o') (\<lambda>_. Inr (Offer_encode o'))"

definition Job_encode :: "Job \<Rightarrow> byte list" where
  "Job_encode j =
     w_Fixed32 (jb_Owner j) @ w_Fixed32 (jb_WorkloadHash j) @ w_Fixed32 (jb_InputRoot j) @ writeResources (jb_Resources j) @
     w_U64 (jb_MaxPrice j) @ w_U64 (jb_CollateralRequired j) @ w_U8 (jb_Verification j) @ w_U64 (jb_DeadlineHeight j) @
     w_U16 (jb_Replicas j) @ w_Bool (jb_Private j)"

definition Job_MarshalBinary :: "Job \<Rightarrow> byte list result" where
  "Job_MarshalBinary j = tryE (Job_Validate j) (\<lambda>_. Inr (Job_encode j))"

definition OfferID :: "hashfun \<Rightarrow> Offer \<Rightarrow> hash result" where
  "OfferID H offer = tryE (Offer_MarshalBinary offer) (\<lambda>raw. Inr (DomainHash H ''zephyr/compute-offer/v2'' raw))"

definition ComputeJobID :: "hashfun \<Rightarrow> Job \<Rightarrow> bytes32 result" where
  "ComputeJobID H job = tryE (Job_MarshalBinary job) (\<lambda>raw. Inr (DomainHash H ''zephyr/compute-job/v2'' raw))"

subsection \<open>Matching and verification\<close>

definition requiredAssignments :: "Job \<Rightarrow> nat" where
  "requiredAssignments job = (if jb_Verification job = VerificationReplicated then unat (jb_Replicas job) else 1)"

definition supportsMode :: "verification_mode list \<Rightarrow> verification_mode \<Rightarrow> bool" where
  "supportsMode modes target \<longleftrightarrow> list_ex (\<lambda>mode. mode = target \<or> mode = VerificationHybrid) modes"

definition offerMatchesJob :: "Offer \<Rightarrow> Job \<Rightarrow> bool" where
  "offerMatchesJob offer job =
     (let o' = oc_Resources offer; j = jb_Resources job
      in if re_CPUCores o' < re_CPUCores j \<or> re_MemoryMiB o' < re_MemoryMiB j \<or> re_GPUCount o' < re_GPUCount j \<or>
            re_GPUMemoryMiB o' < re_GPUMemoryMiB j \<or> re_StorageMiB o' < re_StorageMiB j \<or>
            re_BandwidthMbps o' < re_BandwidthMbps j \<or> oc_Collateral offer < jb_CollateralRequired job \<or>
            \<not> supportsMode (oc_Verification offer) (jb_Verification job) then False
         else list_all (\<lambda>capability. capability \<in> set (re_Capabilities o')) (re_Capabilities j))"

text \<open>
  \<open>commonResultRoot\<close> of the in-memory market ranges over a map of results, \<open>commonResultRootRecord\<close> sorts the results by
  provider. The last branch of the mode switch counts the kinds of evidence.
\<close>

definition commonResultRoot :: "(accountid \<times> ComputeResult) list \<Rightarrow> hash \<times> bool" where
  "commonResultRoot results =
     (case results of
        [] \<Rightarrow> (0, False)
      | (_, first) # rest \<Rightarrow>
          (rs_ResultRoot first, list_all (\<lambda>(_, res). rs_ResultRoot res = rs_ResultRoot first) rest))"

definition commonResultRootRecord :: "ComputeResult list \<Rightarrow> hash \<times> bool" where
  "commonResultRootRecord results =
     (case sort_key rs_Provider results of
        [] \<Rightarrow> (0, False)
      | first # rest \<Rightarrow> (rs_ResultRoot first, list_all (\<lambda>res. rs_ResultRoot res = rs_ResultRoot first) rest))"

definition verificationSatisfied ::
  "verification_mode \<Rightarrow> bool \<Rightarrow> (accountid \<times> ComputeResult) list \<Rightarrow> VerificationEvidence \<Rightarrow> bool" where
  "verificationSatisfied mode replicatedMatch results evidence =
     (let hasProof = list_all (\<lambda>(_, res). \<not> IsZero32 (rs_ProofHash res)) results;
          hasAttestation = list_all (\<lambda>(_, res). \<not> IsZero32 (rs_AttestationHash res)) results
      in if mode = VerificationDeterministic then ve_DeterministicReplay evidence
         else if mode = VerificationReplicated then replicatedMatch
         else if mode = VerificationChallenge then ve_ChallengePassed evidence
         else if mode = VerificationZeroKnowledge then hasProof \<and> ve_ProofVerified evidence
         else if mode = VerificationTEE then hasAttestation \<and> ve_AttestationVerified evidence
         else if mode = VerificationClientApproved then ve_ClientApproved evidence
         else if mode = VerificationHybrid then
           2 \<le> length (filter id
             [ve_DeterministicReplay evidence, replicatedMatch \<and> 1 < length results, hasProof \<and> ve_ProofVerified evidence,
              hasAttestation \<and> ve_AttestationVerified evidence, ve_ChallengePassed evidence, ve_ClientApproved evidence])
         else False)"

definition add_price :: "u64 \<Rightarrow> Assignment \<Rightarrow> u64 result" where
  "add_price committed a = (if overflows committed (as_Price a) then Inl ErrMarketEscrow else Inr (committed + as_Price a))"

subsection \<open>The in-memory market\<close>

record JobRecord =
  jr_ID :: bytes32
  jr_Job :: Job
  jr_Escrow :: u64
  jr_Status :: job_status
  jr_Assignments :: "Assignment list"
  jr_Results :: "(accountid \<times> ComputeResult) list"

record Market =
  mk_offers :: "(hash \<times> Offer) list"
  mk_jobs :: "(bytes32 \<times> JobRecord) list"

definition NewMarket :: Market where
  "NewMarket = \<lparr>mk_offers = [], mk_jobs = []\<rparr>"

definition PublishOffer :: "hashfun \<Rightarrow> Offer \<Rightarrow> u64 \<Rightarrow> Market \<Rightarrow> hash result \<times> Market" where
  "PublishOffer H offer height m =
     (if \<not> is_ok (Offer_Validate offer) \<or> height = 0 \<or> oc_ValidUntilHeight offer < height then (Inl ErrInvalidOffer, m)
      else
        let oid = (case OfferID H offer of Inl _ \<Rightarrow> 0 | Inr h \<Rightarrow> h)
        in if map_of (mk_offers m) oid \<noteq> None then (Inl ErrMarketDuplicate, m)
           else (Inr oid, m\<lparr>mk_offers := AList.update oid offer (mk_offers m)\<rparr>))"

definition PostJob :: "hashfun \<Rightarrow> Job \<Rightarrow> u64 \<Rightarrow> u64 \<Rightarrow> Market \<Rightarrow> bytes32 result \<times> Market" where
  "PostJob H job escrow height m =
     (if \<not> is_ok (Job_Validate job) \<or> height = 0 \<or> jb_DeadlineHeight job < height then (Inl ErrInvalidJob, m)
      else if escrow < jb_MaxPrice job then (Inl ErrMarketEscrow, m)
      else
        let jid = (case ComputeJobID H job of Inl _ \<Rightarrow> 0 | Inr h \<Rightarrow> h)
        in if map_of (mk_jobs m) jid \<noteq> None then (Inl ErrMarketDuplicate, m)
           else (Inr jid, m\<lparr>mk_jobs := AList.update jid
                   \<lparr>jr_ID = jid, jr_Job = job, jr_Escrow = escrow, jr_Status = JobPending, jr_Assignments = [], jr_Results = []\<rparr>
                   (mk_jobs m)\<rparr>))"

definition market_Assign :: "bytes32 \<Rightarrow> hash \<Rightarrow> u64 \<Rightarrow> Market \<Rightarrow> Assignment result \<times> Market" where
  "market_Assign jobID offerID height m =
     (case map_of (mk_jobs m) jobID of
        None \<Rightarrow> (Inl ErrMarketNotFound, m)
      | Some job \<Rightarrow>
        (case map_of (mk_offers m) offerID of
           None \<Rightarrow> (Inl ErrMarketNotFound, m)
         | Some offer \<Rightarrow>
             if jr_Status job = JobSettled \<or> jr_Status job = JobExpired \<or> height = 0 \<or>
                jb_DeadlineHeight (jr_Job job) < height \<or> oc_ValidUntilHeight offer < height then (Inl ErrMarketState, m)
             else if \<not> offerMatchesJob offer (jr_Job job) then (Inl ErrMarketMatch, m)
             else if list_ex (\<lambda>a. as_Provider a = oc_Provider offer) (jr_Assignments job) then (Inl ErrMarketDuplicate, m)
             else
               let target = requiredAssignments (jr_Job job)
               in if target \<le> length (jr_Assignments job) then (Inl ErrMarketState, m)
                  else case foldE add_price 0 (jr_Assignments job) of
                    Inl e \<Rightarrow> (Inl e, m)
                  | Inr committed \<Rightarrow>
                      let price = oc_PricePerUnit offer
                      in if jb_MaxPrice (jr_Job job) < price \<or> overflows committed price \<or>
                            jb_MaxPrice (jr_Job job) < committed + price \<or> jr_Escrow job < committed + price
                         then (Inl ErrMarketEscrow, m)
                         else
                           let assignment = \<lparr>as_OfferID = offerID, as_Provider = oc_Provider offer, as_Price = price\<rparr>;
                               assignments = jr_Assignments job @ [assignment];
                               job = job\<lparr>jr_Assignments := assignments,
                                         jr_Status := if length assignments = target then JobAssigned else jr_Status job\<rparr>
                           in (Inr assignment, m\<lparr>mk_jobs := AList.update jobID job (mk_jobs m)\<rparr>)))"

definition market_SubmitResult :: "ComputeResult \<Rightarrow> Market \<Rightarrow> unit result \<times> Market" where
  "market_SubmitResult res m =
     (case Result_Validate res of
        Inl e \<Rightarrow> (Inl e, m)
      | Inr _ \<Rightarrow>
        (case map_of (mk_jobs m) (rs_JobID res) of
           None \<Rightarrow> (Inl ErrMarketNotFound, m)
         | Some job \<Rightarrow>
             if jr_Status job \<noteq> JobAssigned \<and> jr_Status job \<noteq> JobAwaitingVerification then (Inl ErrMarketState, m)
             else if jb_DeadlineHeight (jr_Job job) < rs_CompletedHeight res then (Inl ErrMarketState, m)
             else if \<not> list_ex (\<lambda>a. as_Provider a = rs_Provider res) (jr_Assignments job) then (Inl ErrMarketMatch, m)
             else if map_of (jr_Results job) (rs_Provider res) \<noteq> None then (Inl ErrMarketDuplicate, m)
             else
               let results = AList.update (rs_Provider res) res (jr_Results job);
                   job = job\<lparr>jr_Results := results,
                             jr_Status := if length results = requiredAssignments (jr_Job job) then JobAwaitingVerification
                                          else jr_Status job\<rparr>
               in (Inr (), m\<lparr>mk_jobs := AList.update (rs_JobID res) job (mk_jobs m)\<rparr>)))"

definition pay :: "amounts \<times> u64 \<Rightarrow> Assignment \<Rightarrow> (amounts \<times> u64) result" where
  "pay = (\<lambda>(payments, paid) a.
     if overflows paid (as_Price a) then Inl ErrMarketEscrow
     else Inr (add_amount (as_Provider a) (as_Price a) payments, paid + as_Price a))"

definition market_Finalize :: "bytes32 \<Rightarrow> VerificationEvidence \<Rightarrow> Market \<Rightarrow> Settlement result \<times> Market" where
  "market_Finalize jobID evidence m =
     (case map_of (mk_jobs m) jobID of
        None \<Rightarrow> (Inl ErrMarketNotFound, m)
      | Some job \<Rightarrow>
          if jr_Status job \<noteq> JobAwaitingVerification \<or> length (jr_Results job) \<noteq> requiredAssignments (jr_Job job)
          then (Inl ErrMarketState, m)
          else
            let (root, replicatedMatch) = commonResultRoot (jr_Results job)
            in if IsZero32 root \<or> \<not> verificationSatisfied (jb_Verification (jr_Job job)) replicatedMatch (jr_Results job) evidence
               then (Inl ErrMarketVerification, m)
               else case foldE pay ([], 0) (jr_Assignments job) of
                 Inl e \<Rightarrow> (Inl e, m)
               | Inr (payments, paid) \<Rightarrow>
                   if jr_Escrow job < paid then (Inl ErrMarketEscrow, m)
                   else (Inr \<lparr>st_JobID = jobID, st_ResultRoot = root, st_Payments = payments, st_Refund = jr_Escrow job - paid\<rparr>,
                         m\<lparr>mk_jobs := AList.update jobID (job\<lparr>jr_Status := JobSettled\<rparr>) (mk_jobs m)\<rparr>))"

definition expires :: "u64 \<Rightarrow> JobRecord \<Rightarrow> bool" where
  "expires height job \<longleftrightarrow>
     jr_Status job \<noteq> JobSettled \<and> jr_Status job \<noteq> JobExpired \<and> jb_DeadlineHeight (jr_Job job) < height"

definition market_Expire :: "u64 \<Rightarrow> Market \<Rightarrow> bytes32 list \<times> Market" where
  "market_Expire height m =
     (sort (map fst (filter (\<lambda>(_, job). expires height job) (mk_jobs m))),
      m\<lparr>mk_jobs := map (\<lambda>(jid, job). (jid, if expires height job then job\<lparr>jr_Status := JobExpired\<rparr> else job)) (mk_jobs m)\<rparr>)"

subsection \<open>Jobs on the chain\<close>

definition AssignOnChain :: "OnChainJob \<Rightarrow> hash \<Rightarrow> Offer \<Rightarrow> u64 \<Rightarrow> (OnChainJob \<times> Assignment \<times> u64) result" where
  "AssignOnChain record' offerID offer height =
     (let job = oj_Job record'
      in if oj_Status record' = JobSettled \<or> oj_Status record' = JobExpired \<or> height = 0 \<or> jb_DeadlineHeight job < height \<or>
            oc_ValidUntilHeight offer < height then Inl ErrMarketState
         else if \<not> offerMatchesJob offer job \<or> oc_Collateral offer < jb_CollateralRequired job then Inl ErrMarketMatch
         else if list_ex (\<lambda>a. as_Provider a = oc_Provider offer) (oj_Assignments record') then Inl ErrMarketDuplicate
         else
           let target = requiredAssignments job
           in if target \<le> length (oj_Assignments record') then Inl ErrMarketState
              else tryE (foldE add_price 0 (oj_Assignments record')) (\<lambda>committed.
                let price = oc_PricePerUnit offer
                in if jb_MaxPrice job < price \<or> overflows committed price \<or> jb_MaxPrice job < committed + price \<or>
                      oj_Escrow record' < committed + price then Inl ErrMarketEscrow
                   else
                     let assignment = \<lparr>as_OfferID = offerID, as_Provider = oc_Provider offer, as_Price = price\<rparr>;
                         assignments = oj_Assignments record' @ [assignment];
                         updated = record'\<lparr>oj_Assignments := assignments,
                           oj_Status := if length assignments = target then JobAssigned else oj_Status record'\<rparr>
                     in Inr (updated, assignment, oc_Collateral offer - jb_CollateralRequired job)))"

definition SubmitOnChainResult :: "OnChainJob \<Rightarrow> ComputeResult \<Rightarrow> OnChainJob result" where
  "SubmitOnChainResult record' res =
     (if \<not> is_ok (Result_Validate res) \<or> rs_JobID res \<noteq> oj_ID record' then Inl ErrInvalidResult
      else if oj_Status record' \<noteq> JobAssigned \<and> oj_Status record' \<noteq> JobAwaitingVerification then Inl ErrMarketState
      else if jb_DeadlineHeight (oj_Job record') < rs_CompletedHeight res then Inl ErrMarketState
      else if \<not> list_ex (\<lambda>a. as_Provider a = rs_Provider res) (oj_Assignments record') then Inl ErrMarketMatch
      else if list_ex (\<lambda>e. rs_Provider e = rs_Provider res) (oj_Results record') then Inl ErrMarketDuplicate
      else
        let results = oj_Results record' @ [res]
        in Inr (record'\<lparr>oj_Results := results,
             oj_Status := if length results = requiredAssignments (oj_Job record') then JobAwaitingVerification
                          else oj_Status record'\<rparr>))"

definition pay_and_return :: "u64 \<Rightarrow> amounts \<times> amounts \<times> u64 \<Rightarrow> Assignment \<Rightarrow> (amounts \<times> amounts \<times> u64) result" where
  "pay_and_return required = (\<lambda>(payments, collateral, paid) a.
     if overflows paid (as_Price a) then Inl ErrMarketEscrow
     else Inr (add_amount (as_Provider a) (as_Price a) payments, add_amount (as_Provider a) required collateral, paid + as_Price a))"

definition FinalizeOnChain :: "OnChainJob \<Rightarrow> VerificationEvidence \<Rightarrow> (OnChainJob \<times> OnChainSettlement) result" where
  "FinalizeOnChain record' evidence =
     (if oj_Status record' \<noteq> JobAwaitingVerification \<or> length (oj_Results record') \<noteq> requiredAssignments (oj_Job record')
      then Inl ErrMarketState
      else
        let results = foldl (\<lambda>m res. AList.update (rs_Provider res) res m) [] (oj_Results record');
            (root, replicatedMatch) = commonResultRootRecord (oj_Results record')
        in if IsZero32 root \<or> \<not> verificationSatisfied (jb_Verification (oj_Job record')) replicatedMatch results evidence
           then Inl ErrMarketVerification
           else tryE (foldE (pay_and_return (jb_CollateralRequired (oj_Job record'))) ([], [], 0) (oj_Assignments record'))
             (\<lambda>(payments, collateral, paid).
             if oj_Escrow record' < paid then Inl ErrMarketEscrow
             else Inr (record'\<lparr>oj_Status := JobSettled\<rparr>,
               \<lparr>st_JobID = oj_ID record', st_ResultRoot = root, st_Payments = payments, st_Refund = oj_Escrow record' - paid,
                st_CollateralReturns = collateral, st_SlashedCollateral = [], st_SlashReward = 0\<rparr>)))"

text \<open>The count of each result root, and the loop that keeps the first root with the largest count.\<close>

definition root_counts :: "ComputeResult list \<Rightarrow> (hash \<times> nat) list" where
  "root_counts results =
     foldl (\<lambda>m res. AList.update (rs_ResultRoot res) (Suc (case map_of m (rs_ResultRoot res) of None \<Rightarrow> 0 | Some n \<Rightarrow> n)) m)
       [] results"

definition pick_majority :: "(hash \<times> nat) list \<Rightarrow> hash \<times> nat" where
  "pick_majority counts = foldl (\<lambda>(majority, n) (root, k). if n < k then (root, k) else (majority, n)) (0, 0) counts"

definition settle_replica ::
  "u64 \<Rightarrow> (accountid \<times> hash) list \<Rightarrow> hash \<Rightarrow> amounts \<times> amounts \<times> amounts \<times> u64 \<times> u64 \<Rightarrow> Assignment \<Rightarrow>
   (amounts \<times> amounts \<times> amounts \<times> u64 \<times> u64) result" where
  "settle_replica required resultByProvider majority = (\<lambda>(payments, returns, slashed, paid, slashReward) a.
     if (case map_of resultByProvider (as_Provider a) of None \<Rightarrow> 0 | Some root \<Rightarrow> root) = majority then
       (if overflows paid (as_Price a) then Inl ErrMarketEscrow
        else Inr (add_amount (as_Provider a) (as_Price a) payments, add_amount (as_Provider a) required returns, slashed,
                  paid + as_Price a, slashReward))
     else
       let slashed = add_amount (as_Provider a) required slashed
       in if overflows slashReward required then Inl ErrMarketEscrow
          else Inr (payments, returns, slashed, paid, slashReward + required))"

definition ResolveReplicatedMajority :: "OnChainJob \<Rightarrow> (OnChainJob \<times> OnChainSettlement) result" where
  "ResolveReplicatedMajority record' =
     (if jb_Verification (oj_Job record') \<noteq> VerificationReplicated \<or> length (oj_Results record') < 3 \<or>
         length (oj_Results record') \<noteq> length (oj_Assignments record') then Inl ErrMarketVerification
      else
        let (majority, majorityCount) = pick_majority (root_counts (oj_Results record'))
        in if majorityCount * 2 \<le> length (oj_Results record') then Inl ErrMarketVerification
           else
             let resultByProvider = foldl (\<lambda>m res. AList.update (rs_Provider res) (rs_ResultRoot res) m) [] (oj_Results record')
             in tryE (foldE (settle_replica (jb_CollateralRequired (oj_Job record')) resultByProvider majority)
                       ([], [], [], 0, 0) (oj_Assignments record'))
                  (\<lambda>(payments, returns, slashed, paid, slashReward).
                  if oj_Escrow record' < paid then Inl ErrMarketEscrow
                  else Inr (record'\<lparr>oj_Status := JobSettled\<rparr>,
                    \<lparr>st_JobID = oj_ID record', st_ResultRoot = majority, st_Payments = payments,
                     st_Refund = oj_Escrow record' - paid, st_CollateralReturns = returns, st_SlashedCollateral = slashed,
                     st_SlashReward = slashReward\<rparr>)))"

definition ExpireOnChain :: "OnChainJob \<Rightarrow> u64 \<Rightarrow> (OnChainJob \<times> u64 \<times> amounts) result" where
  "ExpireOnChain record' height =
     (if oj_Status record' = JobSettled \<or> oj_Status record' = JobExpired \<or> height \<le> jb_DeadlineHeight (oj_Job record')
      then Inl ErrMarketState
      else Inr (record'\<lparr>oj_Status := JobExpired\<rparr>, oj_Escrow record',
             foldl (\<lambda>m a. add_amount (as_Provider a) (jb_CollateralRequired (oj_Job record')) m) [] (oj_Assignments record')))"

subsection \<open>Wire formats of the chain\<close>

definition readResources :: "reader \<Rightarrow> (Resources \<times> reader) result" where
  "readResources r =
     tryE (r_U16 r) (\<lambda>(cpu, r).
     tryE (r_U32 r) (\<lambda>(memory, r).
     tryE (r_U16 r) (\<lambda>(gpu, r).
     tryE (r_U32 r) (\<lambda>(gpuMemory, r).
     tryE (r_U64 r) (\<lambda>(storage, r).
     tryE (r_U32 r) (\<lambda>(bandwidth, r).
     tryAs ErrInvalidOffer (r_U32 r) (\<lambda>(count, r).
     if 32 < count then Inl ErrInvalidOffer else
     tryE (r_many (unat count) (r_Bytes 64) r) (\<lambda>(capabilities, r).
     Inr (\<lparr>re_CPUCores = cpu, re_MemoryMiB = memory, re_GPUCount = gpu, re_GPUMemoryMiB = gpuMemory, re_StorageMiB = storage,
           re_BandwidthMbps = bandwidth, re_Capabilities = capabilities\<rparr>, r)))))))))"

definition ParseOffer :: "byte list \<Rightarrow> Offer result" where
  "ParseOffer data =
     tryAs ErrInvalidOffer (r_Fixed32 data) (\<lambda>(provider, r).
     tryAs ErrInvalidOffer (readResources r) (\<lambda>(resources, r).
     tryAs ErrInvalidOffer (r_U64 r) (\<lambda>(price, r).
     tryAs ErrInvalidOffer (r_U64 r) (\<lambda>(collateral, r).
     tryAs ErrInvalidOffer (r_U32 r) (\<lambda>(count, r).
     if count = 0 \<or> 7 < count then Inl ErrInvalidOffer else
     tryAs ErrInvalidOffer (r_many (unat count) r_U8 r) (\<lambda>(modes, r).
     tryAs ErrInvalidOffer (r_U64 r) (\<lambda>(validUntil, r).
     tryAs ErrInvalidOffer (r_Done r) (\<lambda>_.
     let offer = \<lparr>oc_Provider = provider, oc_Resources = resources, oc_PricePerUnit = price, oc_Collateral = collateral,
                  oc_Verification = modes, oc_ValidUntilHeight = validUntil\<rparr>
     in tryE (Offer_Validate offer) (\<lambda>_. Inr offer)))))))))"

definition ParseJob :: "byte list \<Rightarrow> Job result" where
  "ParseJob data =
     tryAs ErrInvalidJob (r_Fixed32 data) (\<lambda>(owner, r).
     tryAs ErrInvalidJob (r_Fixed32 r) (\<lambda>(workload, r).
     tryAs ErrInvalidJob (r_Fixed32 r) (\<lambda>(inputRoot, r).
     tryAs ErrInvalidJob (readResources r) (\<lambda>(resources, r).
     tryAs ErrInvalidJob (r_U64 r) (\<lambda>(maxPrice, r).
     tryAs ErrInvalidJob (r_U64 r) (\<lambda>(collateral, r).
     tryAs ErrInvalidJob (r_U8 r) (\<lambda>(mode, r).
     tryAs ErrInvalidJob (r_U64 r) (\<lambda>(deadline, r).
     tryAs ErrInvalidJob (r_U16 r) (\<lambda>(replicas, r).
     tryAs ErrInvalidJob (r_Bool r) (\<lambda>(private, r).
     tryAs ErrInvalidJob (r_Done r) (\<lambda>_.
     let job = \<lparr>jb_Owner = owner, jb_WorkloadHash = workload, jb_InputRoot = inputRoot, jb_Resources = resources,
                jb_MaxPrice = maxPrice, jb_CollateralRequired = collateral, jb_Verification = mode, jb_DeadlineHeight = deadline,
                jb_Replicas = replicas, jb_Private = private\<rparr>
     in tryE (Job_Validate job) (\<lambda>_. Inr job))))))))))))"

definition Result_encode :: "ComputeResult \<Rightarrow> byte list" where
  "Result_encode r =
     w_Fixed32 (rs_JobID r) @ w_Fixed32 (rs_Provider r) @ w_Fixed32 (rs_ResultRoot r) @ w_Fixed32 (rs_ProofHash r) @
     w_Fixed32 (rs_AttestationHash r) @ w_U64 (rs_CompletedHeight r)"

definition Result_MarshalBinary :: "ComputeResult \<Rightarrow> byte list result" where
  "Result_MarshalBinary r = tryE (Result_Validate r) (\<lambda>_. Inr (Result_encode r))"

definition ParseResult :: "byte list \<Rightarrow> ComputeResult result" where
  "ParseResult data =
     tryAs ErrInvalidResult (r_Fixed32 data) (\<lambda>(jobID, r).
     tryAs ErrInvalidResult (r_Fixed32 r) (\<lambda>(provider, r).
     tryAs ErrInvalidResult (r_Fixed32 r) (\<lambda>(resultRoot, r).
     tryAs ErrInvalidResult (r_Fixed32 r) (\<lambda>(proofHash, r).
     tryAs ErrInvalidResult (r_Fixed32 r) (\<lambda>(attestationHash, r).
     tryAs ErrInvalidResult (r_U64 r) (\<lambda>(completedHeight, r).
     tryAs ErrInvalidResult (r_Done r) (\<lambda>_.
     let res = \<lparr>rs_JobID = jobID, rs_Provider = provider, rs_ResultRoot = resultRoot, rs_ProofHash = proofHash,
                rs_AttestationHash = attestationHash, rs_CompletedHeight = completedHeight\<rparr>
     in tryE (Result_Validate res) (\<lambda>_. Inr res))))))))"

definition Assignment_encode :: "Assignment \<Rightarrow> byte list" where
  "Assignment_encode a = w_Fixed32 (as_OfferID a) @ w_Fixed32 (as_Provider a) @ w_U64 (as_Price a)"

definition Assignment_MarshalBinary :: "Assignment \<Rightarrow> byte list result" where
  "Assignment_MarshalBinary a =
     (if IsZero32 (as_OfferID a) \<or> IsZero32 (as_Provider a) \<or> as_Price a = 0 then Inl ErrMarketState
      else Inr (Assignment_encode a))"

definition ParseAssignment :: "byte list \<Rightarrow> Assignment result" where
  "ParseAssignment data =
     tryAs ErrMarketState (r_Fixed32 data) (\<lambda>(offerID, r).
     tryAs ErrMarketState (r_Fixed32 r) (\<lambda>(provider, r).
     tryAs ErrMarketState (r_U64 r) (\<lambda>(price, r).
     tryAs ErrMarketState (r_Done r) (\<lambda>_.
     if price = 0 then Inl ErrMarketState else
     let assignment = \<lparr>as_OfferID = offerID, as_Provider = provider, as_Price = price\<rparr>
     in tryE (Assignment_MarshalBinary assignment) (\<lambda>_. Inr assignment)))))"

definition OnChainJob_MarshalBinary :: "OnChainJob \<Rightarrow> byte list result" where
  "OnChainJob_MarshalBinary j =
     (if IsZero32 (oj_ID j) \<or> oj_Escrow j < jb_MaxPrice (oj_Job j) \<or> oj_Status j < JobPending \<or> JobExpired < oj_Status j
      then Inl ErrMarketState
      else tryE (Job_MarshalBinary (oj_Job j)) (\<lambda>jobBytes.
        tryE (mapE Assignment_MarshalBinary (sort_key as_Provider (oj_Assignments j))) (\<lambda>assignments.
        tryE (mapE Result_MarshalBinary (sort_key rs_Provider (oj_Results j))) (\<lambda>results.
        Inr (w_Fixed32 (oj_ID j) @ w_Bytes jobBytes @ w_U64 (oj_Escrow j) @ w_U8 (oj_Status j) @
             w_U32 (of_nat (length assignments)) @ concat (map w_Bytes assignments) @
             w_U32 (of_nat (length results)) @ concat (map w_Bytes results))))))"

definition read_sub :: "(byte list \<Rightarrow> 'a result) \<Rightarrow> reader \<Rightarrow> ('a \<times> reader) result" where
  "read_sub parse r = tryAs ErrMarketState (r_Bytes 1024 r) (\<lambda>(raw, r). tryE (parse raw) (\<lambda>x. Inr (x, r)))"

definition ParseOnChainJob :: "byte list \<Rightarrow> OnChainJob result" where
  "ParseOnChainJob data =
     tryAs ErrMarketState (r_Fixed32 data) (\<lambda>(jobID, r).
     tryAs ErrMarketState (r_Bytes 1048576 r) (\<lambda>(jobBytes, r).
     tryE (ParseJob jobBytes) (\<lambda>job.
     tryAs ErrMarketState (r_U64 r) (\<lambda>(escrow, r).
     tryAs ErrMarketState (r_U8 r) (\<lambda>(status, r).
     tryAs ErrMarketState (r_U32 r) (\<lambda>(assignmentCount, r).
     if 1024 < assignmentCount then Inl ErrMarketState else
     tryE (r_many (unat assignmentCount) (read_sub ParseAssignment) r) (\<lambda>(assignments, r).
     tryAs ErrMarketState (r_U32 r) (\<lambda>(resultCount, r).
     if 1024 < resultCount then Inl ErrMarketState else
     tryE (r_many (unat resultCount) (read_sub ParseResult) r) (\<lambda>(results, r).
     tryAs ErrMarketState (r_Done r) (\<lambda>_.
     let record' = \<lparr>oj_ID = jobID, oj_Job = job, oj_Escrow = escrow, oj_Status = status, oj_Assignments = assignments,
                    oj_Results = results\<rparr>
     in tryE (OnChainJob_MarshalBinary record') (\<lambda>_. Inr record')))))))))))"

definition NewOfferObject :: "hashfun \<Rightarrow> hash \<Rightarrow> u32 \<Rightarrow> Offer \<Rightarrow> Object result" where
  "NewOfferObject H txID shard offer =
     tryE (Offer_MarshalBinary offer) (\<lambda>raw.
     Inr \<lparr>obj_ID = ObjectIDForShard H txID computeOfferObjectIndex shard, obj_Version = 1, obj_Owner = oc_Provider offer,
          obj_Kind = KindComputeOffer, obj_Data = raw\<rparr>)"

definition NewJobObject :: "hashfun \<Rightarrow> hash \<Rightarrow> u32 \<Rightarrow> Job \<Rightarrow> u64 \<Rightarrow> (Object \<times> OnChainJob) result" where
  "NewJobObject H txID shard job escrow =
     (let jobID = JobIDFromTransaction H txID 0;
          record' = \<lparr>oj_ID = jobID, oj_Job = job, oj_Escrow = escrow, oj_Status = JobPending, oj_Assignments = [], oj_Results = []\<rparr>
      in tryE (OnChainJob_MarshalBinary record') (\<lambda>raw.
         Inr (\<lparr>obj_ID = ObjectIDForShard H txID computeJobObjectIndex shard, obj_Version = 1, obj_Owner = jb_Owner job,
               obj_Kind = KindComputeJob, obj_Data = raw\<rparr>, record')))"

subsection \<open>Messages between shards\<close>

record AssignmentMessage =
  am_JobID :: bytes32
  am_JobOwner :: accountid
  am_JobShard :: u32
  am_OfferID :: hash
  am_Offer :: Offer
  am_Job :: Job

definition AssignmentMessage_Validate :: "AssignmentMessage \<Rightarrow> unit result" where
  "AssignmentMessage_Validate m =
     (if IsZero32 (am_JobID m) \<or> IsZero32 (am_JobOwner m) \<or> IsZero32 (am_OfferID m) \<or> jb_Owner (am_Job m) \<noteq> am_JobOwner m
      then Inl ErrComputeMessage
      else if \<not> is_ok (Offer_Validate (am_Offer m)) then Inl ErrComputeMessage
      else if \<not> is_ok (Job_Validate (am_Job m)) \<or> \<not> offerMatchesJob (am_Offer m) (am_Job m) \<or>
              oc_Collateral (am_Offer m) < jb_CollateralRequired (am_Job m) then Inl ErrComputeMessage
      else Inr ())"

definition AssignmentMessage_encode :: "AssignmentMessage \<Rightarrow> byte list" where
  "AssignmentMessage_encode m =
     w_Fixed32 (am_JobID m) @ w_Fixed32 (am_JobOwner m) @ w_U32 (am_JobShard m) @ w_Fixed32 (am_OfferID m) @
     w_Bytes (Offer_encode (am_Offer m)) @ w_Bytes (Job_encode (am_Job m))"

definition AssignmentMessage_MarshalBinary :: "AssignmentMessage \<Rightarrow> byte list result" where
  "AssignmentMessage_MarshalBinary m = tryE (AssignmentMessage_Validate m) (\<lambda>_. Inr (AssignmentMessage_encode m))"

definition ParseAssignmentMessage :: "byte list \<Rightarrow> AssignmentMessage result" where
  "ParseAssignmentMessage data =
     tryAs ErrComputeMessage (r_Fixed32 data) (\<lambda>(jobID, r).
     tryAs ErrComputeMessage (r_Fixed32 r) (\<lambda>(owner, r).
     tryAs ErrComputeMessage (r_U32 r) (\<lambda>(shard, r).
     tryAs ErrComputeMessage (r_Fixed32 r) (\<lambda>(offerID, r).
     tryAs ErrComputeMessage (r_Bytes 1048576 r) (\<lambda>(offerRaw, r).
     tryAs ErrComputeMessage (ParseOffer offerRaw) (\<lambda>offer.
     tryAs ErrComputeMessage (r_Bytes 1048576 r) (\<lambda>(jobRaw, r).
     tryAs ErrComputeMessage (ParseJob jobRaw) (\<lambda>job.
     tryAs ErrComputeMessage (r_Done r) (\<lambda>_.
     let message = \<lparr>am_JobID = jobID, am_JobOwner = owner, am_JobShard = shard, am_OfferID = offerID, am_Offer = offer,
                    am_Job = job\<rparr>
     in tryE (AssignmentMessage_Validate message) (\<lambda>_. Inr message))))))))))"

definition AssignmentMessage_Output :: "AssignmentMessage \<Rightarrow> OutputSpec result" where
  "AssignmentMessage_Output m =
     tryE (AssignmentMessage_MarshalBinary m) (\<lambda>raw.
     Inr \<lparr>os_Owner = am_JobOwner m, os_Kind = KindComputeAssignment, os_Data = raw\<rparr>)"

definition ValidateForRecord :: "AssignmentMessage \<Rightarrow> OnChainJob \<Rightarrow> unit result" where
  "ValidateForRecord m record' =
     (if oj_ID record' \<noteq> am_JobID m \<or> jb_Owner (oj_Job record') \<noteq> am_JobOwner m then Inl ErrComputeMessage
      else tryE (Job_MarshalBinary (oj_Job record')) (\<lambda>a.
        tryAs ErrComputeMessage (Job_MarshalBinary (am_Job m)) (\<lambda>b.
        if a \<noteq> b then Inl ErrComputeMessage else AssignmentMessage_Validate m)))"

record ResultMessage =
  rm_JobID :: bytes32
  rm_JobOwner :: accountid
  rm_JobShard :: u32
  rm_Result :: ComputeResult

definition ResultMessage_Validate :: "ResultMessage \<Rightarrow> unit result" where
  "ResultMessage_Validate m =
     (if IsZero32 (rm_JobID m) \<or> IsZero32 (rm_JobOwner m) \<or> rs_JobID (rm_Result m) \<noteq> rm_JobID m then Inl ErrComputeMessage
      else Result_Validate (rm_Result m))"

definition ResultMessage_encode :: "ResultMessage \<Rightarrow> byte list" where
  "ResultMessage_encode m =
     w_Fixed32 (rm_JobID m) @ w_Fixed32 (rm_JobOwner m) @ w_U32 (rm_JobShard m) @ w_Bytes (Result_encode (rm_Result m))"

definition ResultMessage_MarshalBinary :: "ResultMessage \<Rightarrow> byte list result" where
  "ResultMessage_MarshalBinary m = tryE (ResultMessage_Validate m) (\<lambda>_. Inr (ResultMessage_encode m))"

definition ParseResultMessage :: "byte list \<Rightarrow> ResultMessage result" where
  "ParseResultMessage data =
     tryAs ErrComputeMessage (r_Fixed32 data) (\<lambda>(jobID, r).
     tryAs ErrComputeMessage (r_Fixed32 r) (\<lambda>(owner, r).
     tryAs ErrComputeMessage (r_U32 r) (\<lambda>(shard, r).
     tryAs ErrComputeMessage (r_Bytes 2048 r) (\<lambda>(resultRaw, r).
     tryAs ErrComputeMessage (ParseResult resultRaw) (\<lambda>res.
     tryAs ErrComputeMessage (r_Done r) (\<lambda>_.
     let message = \<lparr>rm_JobID = jobID, rm_JobOwner = owner, rm_JobShard = shard, rm_Result = res\<rparr>
     in tryE (ResultMessage_Validate message) (\<lambda>_. Inr message)))))))"

definition ResultMessage_Output :: "ResultMessage \<Rightarrow> OutputSpec result" where
  "ResultMessage_Output m =
     tryE (ResultMessage_MarshalBinary m) (\<lambda>raw.
     Inr \<lparr>os_Owner = rm_JobOwner m, os_Kind = KindComputeResult, os_Data = raw\<rparr>)"

record IngestRef =
  ig_JobObject :: objectid
  ig_MessageObject :: objectid

definition IngestRef_MarshalBinary :: "IngestRef \<Rightarrow> byte list result" where
  "IngestRef_MarshalBinary r =
     (if IsZero32 (ig_JobObject r) \<or> IsZero32 (ig_MessageObject r) \<or> ig_JobObject r = ig_MessageObject r then Inl ErrComputeMessage
      else Inr (w_Fixed32 (ig_JobObject r) @ w_Fixed32 (ig_MessageObject r)))"

definition ParseIngestRef :: "byte list \<Rightarrow> IngestRef result" where
  "ParseIngestRef data =
     (if length data \<noteq> 64 then Inl ErrComputeMessage
      else
        let out = \<lparr>ig_JobObject = from_be (take 32 data), ig_MessageObject = from_be (drop 32 data)\<rparr>
        in tryE (IngestRef_MarshalBinary out) (\<lambda>_. Inr out))"

definition JobRef_MarshalBinary :: "objectid \<Rightarrow> byte list result" where
  "JobRef_MarshalBinary oid = (if IsZero32 oid then Inl ErrComputeMessage else Inr (w_Fixed32 oid))"

definition ParseJobRef :: "byte list \<Rightarrow> objectid result" where
  "ParseJobRef data =
     (if length data \<noteq> 32 then Inl ErrComputeMessage
      else let out = from_be data in tryE (JobRef_MarshalBinary out) (\<lambda>_. Inr out))"

subsection \<open>Settlement receipts\<close>

record SettlementReceipt =
  sr_JobID :: bytes32
  sr_ResultRoot :: hash
  sr_Payments :: amounts
  sr_Refund :: u64
  sr_Slashed :: amounts
  sr_SlashReward :: u64
  sr_Expired :: bool

definition writeAccountAmounts :: "amounts \<Rightarrow> byte list" where
  "writeAccountAmounts values =
     (let ids = sort (map fst values)
      in w_U32 (of_nat (length ids)) @ concat (map (\<lambda>a. w_Fixed32 a @ w_U64 (amount_at values a)) ids))"

definition SettlementReceipt_MarshalBinary :: "SettlementReceipt \<Rightarrow> byte list" where
  "SettlementReceipt_MarshalBinary r =
     w_Fixed32 (sr_JobID r) @ w_Fixed32 (sr_ResultRoot r) @ writeAccountAmounts (sr_Payments r) @ w_U64 (sr_Refund r) @
     writeAccountAmounts (sr_Slashed r) @ w_U64 (sr_SlashReward r) @ w_Bool (sr_Expired r)"

definition read_amount :: "amounts \<times> reader \<Rightarrow> nat \<Rightarrow> (amounts \<times> reader) result" where
  "read_amount = (\<lambda>(out, r) i.
     tryAs ErrMarketState (r_Fixed32 r) (\<lambda>(account, r).
     tryAs ErrMarketState (r_U64 r) (\<lambda>(amount, r).
     if amount = 0 then Inl ErrMarketState
     else if IsZero32 account then Inl ErrMarketState
     else if map_of out account \<noteq> None then Inl ErrMarketState
     else Inr (AList.update account amount out, r))))"

definition readAccountAmounts :: "reader \<Rightarrow> (amounts \<times> reader) result" where
  "readAccountAmounts r =
     tryAs ErrMarketState (r_U32 r) (\<lambda>(count, r).
     if 1024 < count then Inl ErrMarketState else foldE read_amount ([], r) [0..<unat count])"

definition ParseSettlementReceipt :: "byte list \<Rightarrow> SettlementReceipt result" where
  "ParseSettlementReceipt data =
     tryAs ErrMarketState (r_Fixed32 data) (\<lambda>(jobID, r).
     tryAs ErrMarketState (r_Fixed32 r) (\<lambda>(resultRoot, r).
     tryE (readAccountAmounts r) (\<lambda>(payments, r).
     tryAs ErrMarketState (r_U64 r) (\<lambda>(refund, r).
     tryE (readAccountAmounts r) (\<lambda>(slashed, r).
     tryAs ErrMarketState (r_U64 r) (\<lambda>(slashReward, r).
     tryAs ErrMarketState (r_Bool r) (\<lambda>(expired, r).
     tryAs ErrMarketState (r_Done r) (\<lambda>_.
     if IsZero32 jobID then Inl ErrMarketState
     else
       let out = \<lparr>sr_JobID = jobID, sr_ResultRoot = resultRoot, sr_Payments = payments, sr_Refund = refund, sr_Slashed = slashed,
                  sr_SlashReward = slashReward, sr_Expired = expired\<rparr>
       in if expired then
            (if \<not> IsZero32 resultRoot \<or> length payments \<noteq> 0 \<or> length slashed \<noteq> 0 \<or> slashReward \<noteq> 0 then Inl ErrMarketState
             else Inr out)
          else if IsZero32 resultRoot \<or> length payments = 0 then Inl ErrMarketState
          else Inr out))))))))"

definition SettlementPaid :: "SettlementReceipt \<Rightarrow> u64 result" where
  "SettlementPaid receipt =
     foldE (\<lambda>paid (_, amount). if overflows paid amount then Inl ErrMarketEscrow else Inr (paid + amount)) 0 (sr_Payments receipt)"


subsection \<open>Reading back what was written\<close>

definition resources_valid :: "Resources \<Rightarrow> bool" where
  "resources_valid r \<longleftrightarrow> (re_CPUCores r \<noteq> 0 \<or> re_GPUCount r \<noteq> 0) \<and> re_MemoryMiB r \<noteq> 0 \<and> length (re_Capabilities r) \<le> 32 \<and>
     list_all (\<lambda>c. TrimSpace c \<noteq> [] \<and> length c \<le> 64) (re_Capabilities r)"

definition offer_valid :: "Offer \<Rightarrow> bool" where
  "offer_valid o' \<longleftrightarrow> oc_Provider o' \<noteq> 0 \<and> oc_PricePerUnit o' \<noteq> 0 \<and> oc_ValidUntilHeight o' \<noteq> 0 \<and> oc_Verification o' \<noteq> [] \<and>
     length (oc_Verification o') \<le> 7 \<and> resources_valid (oc_Resources o')"

definition job_valid :: "Job \<Rightarrow> bool" where
  "job_valid j \<longleftrightarrow> jb_Owner j \<noteq> 0 \<and> jb_WorkloadHash j \<noteq> 0 \<and> jb_InputRoot j \<noteq> 0 \<and> jb_MaxPrice j \<noteq> 0 \<and> jb_DeadlineHeight j \<noteq> 0 \<and>
     jb_Verification j \<noteq> VerificationUnknown \<and> jb_Verification j \<le> VerificationHybrid \<and>
     (jb_Verification j = VerificationReplicated \<longrightarrow> 2 \<le> jb_Replicas j) \<and> resources_valid (jb_Resources j)"

definition result_valid :: "ComputeResult \<Rightarrow> bool" where
  "result_valid r \<longleftrightarrow> rs_JobID r \<noteq> 0 \<and> rs_Provider r \<noteq> 0 \<and> rs_ResultRoot r \<noteq> 0 \<and> rs_CompletedHeight r \<noteq> 0"

definition assignment_valid :: "Assignment \<Rightarrow> bool" where
  "assignment_valid a \<longleftrightarrow> as_OfferID a \<noteq> 0 \<and> as_Provider a \<noteq> 0 \<and> as_Price a \<noteq> 0"

lemma Resources_Validate_iff: "Resources_Validate r = Inr u \<longleftrightarrow> resources_valid r"
  by (auto simp: Resources_Validate_def resources_valid_def checkE_ok list_all_iff not_less)

lemma compute_Validate_iff:
  "Offer_Validate a = Inr u \<longleftrightarrow> offer_valid a" "Job_Validate b = Inr u \<longleftrightarrow> job_valid b" "Result_Validate c = Inr u \<longleftrightarrow> result_valid c"
  by (auto simp: Offer_Validate_def offer_valid_def Job_Validate_def job_valid_def Result_Validate_def result_valid_def
      Resources_Validate_iff IsZero32_def not_less not_le)

lemma is_ok_compute_Validate:
  "is_ok (Offer_Validate a) \<longleftrightarrow> offer_valid a" "is_ok (Job_Validate b) \<longleftrightarrow> job_valid b" "is_ok (Result_Validate c) \<longleftrightarrow> result_valid c"
  by (simp_all add: is_ok_iff compute_Validate_iff)

lemma compute_Marshal_iff:
  "Offer_MarshalBinary a = Inr raw \<longleftrightarrow> offer_valid a \<and> raw = Offer_encode a"
  "Job_MarshalBinary b = Inr raw \<longleftrightarrow> job_valid b \<and> raw = Job_encode b"
  "Result_MarshalBinary c = Inr raw \<longleftrightarrow> result_valid c \<and> raw = Result_encode c"
  "Assignment_MarshalBinary d = Inr raw \<longleftrightarrow> assignment_valid d \<and> raw = Assignment_encode d"
  by (auto simp: Offer_MarshalBinary_def Job_MarshalBinary_def Result_MarshalBinary_def Assignment_MarshalBinary_def
      assignment_valid_def compute_Validate_iff IsZero32_def)

definition trim_resources :: "Resources \<Rightarrow> Resources" where
  "trim_resources r = r\<lparr>re_Capabilities := map TrimSpace (re_Capabilities r)\<rparr>"

definition trim_offer :: "Offer \<Rightarrow> Offer" where
  "trim_offer o' = o'\<lparr>oc_Resources := trim_resources (oc_Resources o')\<rparr>"

definition trim_job :: "Job \<Rightarrow> Job" where
  "trim_job j = j\<lparr>jb_Resources := trim_resources (jb_Resources j)\<rparr>"

lemma trim_fields [simp]:
  "oc_Provider (trim_offer a) = oc_Provider a" "oc_Collateral (trim_offer a) = oc_Collateral a"
  "oc_PricePerUnit (trim_offer a) = oc_PricePerUnit a" "oc_Verification (trim_offer a) = oc_Verification a"
  "oc_ValidUntilHeight (trim_offer a) = oc_ValidUntilHeight a" "oc_Resources (trim_offer a) = trim_resources (oc_Resources a)"
  "jb_Owner (trim_job b) = jb_Owner b" "jb_MaxPrice (trim_job b) = jb_MaxPrice b"
  "jb_CollateralRequired (trim_job b) = jb_CollateralRequired b" "jb_Verification (trim_job b) = jb_Verification b"
  "jb_Replicas (trim_job b) = jb_Replicas b" "jb_DeadlineHeight (trim_job b) = jb_DeadlineHeight b"
  "jb_Resources (trim_job b) = trim_resources (jb_Resources b)"
  "jb_Private (trim_job b) = jb_Private b" "jb_WorkloadHash (trim_job b) = jb_WorkloadHash b" "jb_InputRoot (trim_job b) = jb_InputRoot b"
  by (simp_all add: trim_offer_def trim_job_def)

lemma trimmed_short: "length c \<le> 64 \<Longrightarrow> length (TrimSpace c) \<le> 64"
  using length_TrimSpace [of c] by simp

lemma resources_valid_trim: "resources_valid r \<Longrightarrow> resources_valid (trim_resources r)"
  by (auto simp: resources_valid_def trim_resources_def list_all_iff trimmed_short)

lemma trim_valid:
  "offer_valid a \<Longrightarrow> offer_valid (trim_offer a)" "job_valid b \<Longrightarrow> job_valid (trim_job b)"
  by (simp_all add: offer_valid_def job_valid_def resources_valid_trim)

lemma writeResources_trim [simp]: "writeResources (trim_resources r) = writeResources r"
  by (simp add: writeResources_def trim_resources_def comp_def)

lemma encode_trim [simp]: "Offer_encode (trim_offer a) = Offer_encode a" "Job_encode (trim_job b) = Job_encode b"
  by (simp_all add: Offer_encode_def Job_encode_def)

lemma count32: "n \<le> 1024 \<Longrightarrow> unat (of_nat n :: u32) = n" "n \<le> 1024 \<Longrightarrow> \<not> 1024 < (of_nat n :: u32)"
proof -
  assume n: "n \<le> 1024"
  then show u: "unat (of_nat n :: u32) = n" by (intro unat_of_nat_small) simp
  show "\<not> 1024 < (of_nat n :: u32)" using n by (simp add: word_less_nat_alt u)
qed

lemma readResources_back:
  assumes "resources_valid r"
  shows "readResources (writeResources r @ s) = Inr (trim_resources r, s)"
proof -
  let ?cs = "map TrimSpace (re_Capabilities r)"
  have n: "length ?cs \<le> 32" and v: "list_all (\<lambda>b. length b \<le> 64) ?cs"
    using assms by (auto simp: resources_valid_def list_all_iff trimmed_short)
  have "r_many (length ?cs) (r_Bytes 64) (concat (map w_Bytes ?cs) @ s) = Inr (?cs, s)"
    using Bytes.many_back [of "64" ?cs s] v by simp
  moreover have "\<not> 32 < (of_nat (length ?cs) :: u32)" "unat (of_nat (length ?cs) :: u32) = length ?cs"
    using n count32 [of "length ?cs"] by (simp_all add: word_less_nat_alt)
  ultimately show ?thesis
    by (cases r) (simp add: readResources_def writeResources_def trim_resources_def comp_def)
qed

lemma ParseOffer_back: 
  assumes "offer_valid a"
  shows "ParseOffer (Offer_encode a) = Inr (trim_offer a)"
proof -
  let ?n = "length (oc_Verification a)"
  have n: "?n \<le> 7" "?n \<noteq> 0" using assms by (auto simp: offer_valid_def)
  then have c: "unat (of_nat ?n :: u32) = ?n" using count32 [of ?n] by simp
  then have "(of_nat ?n :: u32) \<noteq> 0" "\<not> 7 < (of_nat ?n :: u32)" using n by (auto simp: word_less_nat_alt)
  moreover have "resources_valid (oc_Resources a)" using assms by (simp add: offer_valid_def)
  ultimately show ?thesis
    using c trim_valid(1) [OF assms] U8.many_back [of "oc_Verification a"]
    by (cases a) (simp add: ParseOffer_def Offer_encode_def readResources_back compute_Validate_iff Let_def trim_offer_def)
qed

lemma ParseJob_back:
  assumes "job_valid b"
  shows "ParseJob (Job_encode b) = Inr (trim_job b)"
proof -
  have "resources_valid (jb_Resources b)" using assms by (simp add: job_valid_def)
  then show ?thesis
    using trim_valid(2) [OF assms]
    by (cases b) (simp add: ParseJob_def Job_encode_def readResources_back compute_Validate_iff Let_def trim_job_def)
qed

lemma compute_Parse_valid: "ParseOffer bs = Inr a \<Longrightarrow> offer_valid a" "ParseJob bs = Inr b \<Longrightarrow> job_valid b"
  by (auto simp: ParseOffer_def ParseJob_def Let_def compute_Validate_iff)

interpretation ResultWire: canonical_wire Result_encode ParseResult result_valid
proof
  fix bs and x :: ComputeResult
  show "ParseResult bs = Inr x \<longleftrightarrow> result_valid x \<and> bs = Result_encode x"
    by (cases x) (auto simp: ParseResult_def Result_encode_def wire_iff compute_Validate_iff Let_def)
qed

interpretation AssignmentWire: canonical_wire Assignment_encode ParseAssignment assignment_valid
proof
  fix bs and x :: Assignment
  show "ParseAssignment bs = Inr x \<longleftrightarrow> assignment_valid x \<and> bs = Assignment_encode x"
    by (cases x) (auto simp: ParseAssignment_def Assignment_encode_def wire_iff compute_Marshal_iff Let_def assignment_valid_def)
qed

lemma read_sub_back:
  assumes "list_all (\<lambda>x. parse (enc x) = Inr x \<and> length (enc x) \<le> 1024) xs"
  shows "r_many (length xs) (read_sub parse) (concat (map w_Bytes (map enc xs)) @ s) = Inr (xs, s)"
  using assms by (induction xs) (simp_all add: read_sub_def)

lemma mapE_encode:
  assumes "\<And>x raw. f x = Inr raw \<longleftrightarrow> ok x \<and> raw = enc x"
  shows "mapE f xs = Inr ys \<longleftrightarrow> list_all ok xs \<and> ys = map enc xs"
  by (induction xs arbitrary: ys) (auto simp: assms)

lemmas mapE_assignments = mapE_encode [OF compute_Marshal_iff(4)]
lemmas mapE_results = mapE_encode [OF compute_Marshal_iff(3)]

definition onchain_valid :: "OnChainJob \<Rightarrow> bool" where
  "onchain_valid j \<longleftrightarrow> oj_ID j \<noteq> 0 \<and> jb_MaxPrice (oj_Job j) \<le> oj_Escrow j \<and> oj_Status j \<noteq> 0 \<and> oj_Status j \<le> JobExpired \<and>
     job_valid (oj_Job j) \<and> list_all assignment_valid (oj_Assignments j) \<and> list_all result_valid (oj_Results j)"

definition OnChainJob_encode :: "OnChainJob \<Rightarrow> byte list" where
  "OnChainJob_encode j =
     w_Fixed32 (oj_ID j) @ w_Bytes (Job_encode (oj_Job j)) @ w_U64 (oj_Escrow j) @ w_U8 (oj_Status j) @
     w_U32 (of_nat (length (oj_Assignments j))) @ concat (map w_Bytes (map Assignment_encode (sort_key as_Provider (oj_Assignments j)))) @
     w_U32 (of_nat (length (oj_Results j))) @ concat (map w_Bytes (map Result_encode (sort_key rs_Provider (oj_Results j))))"

lemma list_all_sort_key [simp]: "list_all P (sort_key f xs) \<longleftrightarrow> list_all P xs"
  by (simp add: list_all_iff)

lemma OnChainJob_Marshal_iff: "OnChainJob_MarshalBinary j = Inr raw \<longleftrightarrow> onchain_valid j \<and> raw = OnChainJob_encode j"
  by (auto simp: OnChainJob_MarshalBinary_def onchain_valid_def OnChainJob_encode_def compute_Marshal_iff mapE_assignments mapE_results
      IsZero32_def not_less)

definition normal_job :: "OnChainJob \<Rightarrow> OnChainJob" where
  "normal_job j = j\<lparr>oj_Job := trim_job (oj_Job j), oj_Assignments := sort_key as_Provider (oj_Assignments j),
     oj_Results := sort_key rs_Provider (oj_Results j)\<rparr>"

lemma length_concat_trimmed:
  "list_all (\<lambda>c. length c \<le> 64) cs \<Longrightarrow> length (concat (map (\<lambda>c. w_Bytes (TrimSpace c)) cs)) \<le> 68 * length cs"
proof (induction cs)
  case (Cons c cs)
  then show ?case using trimmed_short [of c] by simp
qed simp

lemma length_writeResources: "resources_valid r \<Longrightarrow> length (writeResources r) \<le> 2204"
  using length_concat_trimmed [of "re_Capabilities r"]
  by (simp add: writeResources_def resources_valid_def list_all_iff)

lemma length_compute_encode:
  "job_valid b \<Longrightarrow> length (Job_encode b) \<le> 1048576" "offer_valid a \<Longrightarrow> length (Offer_encode a) \<le> 1048576"
proof -
  show "job_valid b \<Longrightarrow> length (Job_encode b) \<le> 1048576"
    using length_writeResources [of "jb_Resources b"] by (simp add: Job_encode_def job_valid_def)
  have "length (concat (map w_U8 ms)) = length ms" for ms by (induction ms) simp_all
  then show "offer_valid a \<Longrightarrow> length (Offer_encode a) \<le> 1048576"
    using length_writeResources [of "oc_Resources a"] by (simp add: Offer_encode_def offer_valid_def)
qed

lemma onchain_valid_normal: "onchain_valid j \<Longrightarrow> onchain_valid (normal_job j)"
  by (simp add: onchain_valid_def normal_job_def trim_valid)

lemma length_entry_encode [simp]: "length (Assignment_encode a) = 72" "length (Result_encode b) = 168"
  by (simp_all add: Assignment_encode_def Result_encode_def)

lemma onchain_entries_back:
  assumes "onchain_valid j"
  shows "r_many (length (oj_Assignments j)) (read_sub ParseAssignment)
      (concat (map w_Bytes (map Assignment_encode (sort_key as_Provider (oj_Assignments j)))) @ s) =
      Inr (sort_key as_Provider (oj_Assignments j), s)"
    and "r_many (length (oj_Results j)) (read_sub ParseResult)
      (concat (map w_Bytes (map Result_encode (sort_key rs_Provider (oj_Results j)))) @ s) = Inr (sort_key rs_Provider (oj_Results j), s)"
    and "ParseJob (Job_encode (oj_Job j)) = Inr (trim_job (oj_Job j))" "length (Job_encode (oj_Job j)) \<le> 1048576"
proof -
  let ?as = "sort_key as_Provider (oj_Assignments j)" and ?rs = "sort_key rs_Provider (oj_Results j)"
  have "r_many (length ?as) (read_sub ParseAssignment) (concat (map w_Bytes (map Assignment_encode ?as)) @ s) = Inr (?as, s)"
    by (rule read_sub_back) (use assms in \<open>auto simp: onchain_valid_def list_all_iff AssignmentWire.parse_enc\<close>)
  then show "r_many (length (oj_Assignments j)) (read_sub ParseAssignment) (concat (map w_Bytes (map Assignment_encode ?as)) @ s) = Inr (?as, s)"
    by simp
  have "r_many (length ?rs) (read_sub ParseResult) (concat (map w_Bytes (map Result_encode ?rs)) @ s) = Inr (?rs, s)"
    by (rule read_sub_back) (use assms in \<open>auto simp: onchain_valid_def list_all_iff ResultWire.parse_enc\<close>)
  then show "r_many (length (oj_Results j)) (read_sub ParseResult) (concat (map w_Bytes (map Result_encode ?rs)) @ s) = Inr (?rs, s)" by simp
  show "ParseJob (Job_encode (oj_Job j)) = Inr (trim_job (oj_Job j))" "length (Job_encode (oj_Job j)) \<le> 1048576"
    using assms by (simp_all add: onchain_valid_def ParseJob_back length_compute_encode)
qed

lemma ParseOnChainJob_back:
  assumes "onchain_valid j" "length (oj_Assignments j) \<le> 1024" "length (oj_Results j) \<le> 1024"
  shows "ParseOnChainJob (OnChainJob_encode j) = Inr (normal_job j)"
proof -
  note e = onchain_entries_back [OF assms(1)]
  have ok: "OnChainJob_MarshalBinary (normal_job j) = Inr (OnChainJob_encode (normal_job j))"
    using onchain_valid_normal [OF assms(1)] by (simp add: OnChainJob_Marshal_iff)
  show ?thesis
    using e(1) e(2) [of "[]"] e(3,4) ok count32 [OF assms(2)] count32 [OF assms(3)]
    by (cases j) (simp add: ParseOnChainJob_def OnChainJob_encode_def normal_job_def)
qed

lemma ParseOnChainJob_valid:
  assumes "ParseOnChainJob bs = Inr j"
  shows "onchain_valid j" "length (oj_Assignments j) \<le> 1024" "length (oj_Results j) \<le> 1024"
proof -
  have len: "r_many n rd r = Inr (xs, s) \<Longrightarrow> length xs = n" for n :: nat and rd :: "reader \<Rightarrow> ('a \<times> reader) result" and r xs s
    by (induction n arbitrary: r xs) auto
  show "onchain_valid j" "length (oj_Assignments j) \<le> 1024" "length (oj_Results j) \<le> 1024"
    using assms by (auto simp: ParseOnChainJob_def Let_def OnChainJob_Marshal_iff not_less word_le_nat_alt dest!: len)
qed

definition message_valid :: "AssignmentMessage \<Rightarrow> bool" where
  "message_valid m \<longleftrightarrow> am_JobID m \<noteq> 0 \<and> am_JobOwner m \<noteq> 0 \<and> am_OfferID m \<noteq> 0 \<and> jb_Owner (am_Job m) = am_JobOwner m \<and>
     offer_valid (am_Offer m) \<and> job_valid (am_Job m) \<and> offerMatchesJob (am_Offer m) (am_Job m) \<and>
     jb_CollateralRequired (am_Job m) \<le> oc_Collateral (am_Offer m)"

lemma AssignmentMessage_Validate_iff: "AssignmentMessage_Validate m = Inr u \<longleftrightarrow> message_valid m"
  by (auto simp: AssignmentMessage_Validate_def message_valid_def is_ok_compute_Validate IsZero32_def not_less)

lemma AssignmentMessage_Marshal_iff:
  "AssignmentMessage_MarshalBinary m = Inr raw \<longleftrightarrow> message_valid m \<and> raw = AssignmentMessage_encode m"
  by (auto simp: AssignmentMessage_MarshalBinary_def AssignmentMessage_Validate_iff)

lemma offerMatchesJob_trim: "offerMatchesJob a b \<Longrightarrow> offerMatchesJob (trim_offer a) (trim_job b)"
  by (auto simp: offerMatchesJob_def Let_def list_all_iff trim_resources_def split: if_splits)

definition trim_message :: "AssignmentMessage \<Rightarrow> AssignmentMessage" where
  "trim_message m = m\<lparr>am_Offer := trim_offer (am_Offer m), am_Job := trim_job (am_Job m)\<rparr>"

lemma ParseAssignmentMessage_back:
  assumes "message_valid m"
  shows "ParseAssignmentMessage (AssignmentMessage_encode m) = Inr (trim_message m)"
proof -
  have "message_valid (trim_message m)"
    using assms by (simp add: message_valid_def trim_message_def trim_valid offerMatchesJob_trim)
  moreover have "length (Job_encode (am_Job m)) \<le> 1048576" "length (Offer_encode (am_Offer m)) \<le> 1048576"
    "ParseJob (Job_encode (am_Job m)) = Inr (trim_job (am_Job m))" "ParseOffer (Offer_encode (am_Offer m)) = Inr (trim_offer (am_Offer m))"
    using assms by (simp_all add: message_valid_def length_compute_encode ParseJob_back ParseOffer_back)
  ultimately show ?thesis
    by (cases m) (simp add: ParseAssignmentMessage_def AssignmentMessage_encode_def trim_message_def AssignmentMessage_Validate_iff Let_def)
qed

lemma ParseAssignmentMessage_valid: "ParseAssignmentMessage bs = Inr m \<Longrightarrow> message_valid m"
  by (auto simp: ParseAssignmentMessage_def Let_def AssignmentMessage_Validate_iff)

subsection \<open>Settlement\<close>

definition sum_amounts :: "amounts \<Rightarrow> nat" where
  "sum_amounts m = sum_list (map (\<lambda>(_, v). unat v) m)"

lemma sum_amounts_simps [simp]:
  "sum_amounts [] = 0" "sum_amounts (x # m) = unat (snd x) + sum_amounts m" "sum_amounts (m @ m') = sum_amounts m + sum_amounts m'"
  by (simp_all add: sum_amounts_def split_beta)

lemma update_fresh: "k \<notin> fst ` set m \<Longrightarrow> AList.update k v m = m @ [(k, v)]"
  by (induction m) auto

lemma add_amount_fresh: "k \<notin> fst ` set m \<Longrightarrow> add_amount k v m = m @ [(k, v)]"
  by (simp add: add_amount_def amount_at_def update_fresh map_of_eq_None_iff [THEN iffD2])

definition priced :: "Assignment \<Rightarrow> accountid \<times> u64" where
  "priced a = (as_Provider a, as_Price a)"

definition secured :: "u64 \<Rightarrow> Assignment \<Rightarrow> accountid \<times> u64" where
  "secured required a = (as_Provider a, required)"

lemma entry_simps [simp]:
  "fst (priced a) = as_Provider a" "snd (priced a) = as_Price a" "fst (secured c a) = as_Provider a" "snd (secured c a) = c"
  by (simp_all add: priced_def secured_def)

lemma sum_secured: "sum_amounts (map (secured c) as) = length as * unat c"
  by (induction as) simp_all

lemma pay_and_return_loop:
  assumes "foldE (pay_and_return c) (p, q, paid) as = Inr (p', q', paid')" "distinct (map as_Provider as)"
    "as_Provider ` set as \<inter> fst ` set p = {}" "as_Provider ` set as \<inter> fst ` set q = {}"
  shows "p' = p @ map priced as \<and> q' = q @ map (secured c) as \<and> unat paid' = unat paid + sum_amounts (map priced as)"
  using assms
proof (induction as arbitrary: p q paid)
  case (Cons a as)
  have no: "\<not> overflows paid (as_Price a)" using Cons.prems(1) by (auto simp: pay_and_return_def split: if_splits)
  have "foldE (pay_and_return c) (p @ [priced a], q @ [secured c a], paid + as_Price a) as = Inr (p', q', paid')"
    using Cons.prems no by (auto simp: pay_and_return_def add_amount_fresh priced_def secured_def)
  then have "p' = (p @ [priced a]) @ map priced as \<and> q' = (q @ [secured c a]) @ map (secured c) as \<and>
      unat paid' = unat (paid + as_Price a) + sum_amounts (map priced as)"
    by (rule Cons.IH) (use Cons.prems in auto)
  then show ?case by (simp add: unat_add_no_overflow [OF no])
qed simp

lemma settle_replica_loop:
  assumes "foldE (settle_replica c by' maj) (p, q, s, paid, slash) as = Inr (p', q', s', paid', slash')" "distinct (map as_Provider as)"
    "as_Provider ` set as \<inter> fst ` set p = {}" "as_Provider ` set as \<inter> fst ` set q = {}" "as_Provider ` set as \<inter> fst ` set s = {}"
  defines "won \<equiv> \<lambda>a. (case map_of by' (as_Provider a) of None \<Rightarrow> 0 | Some root \<Rightarrow> root) = maj"
  shows "p' = p @ map priced (filter won as) \<and> q' = q @ map (secured c) (filter won as) \<and>
    s' = s @ map (secured c) (filter (\<lambda>a. \<not> won a) as) \<and> unat paid' = unat paid + sum_amounts (map priced (filter won as)) \<and>
    unat slash' = unat slash + sum_amounts (map (secured c) (filter (\<lambda>a. \<not> won a) as))"
  using assms(1-5)
proof (induction as arbitrary: p q s paid slash)
  case (Cons a as)
  show ?case
  proof (cases "won a")
    case True
    have no: "\<not> overflows paid (as_Price a)"
      using Cons.prems(1) True by (auto simp: settle_replica_def won_def split: if_splits)
    have "foldE (settle_replica c by' maj) (p @ [priced a], q @ [secured c a], s, paid + as_Price a, slash) as = Inr (p', q', s', paid', slash')"
      using Cons.prems no True [unfolded won_def] by (auto simp: settle_replica_def add_amount_fresh priced_def secured_def)
    note ih = Cons.IH [OF this]
    show ?thesis using ih Cons.prems True by (auto simp: unat_add_no_overflow [OF no])
  next
    case False
    have no: "\<not> overflows slash c"
      using Cons.prems(1) False by (auto simp: settle_replica_def won_def Let_def split: if_splits)
    have "foldE (settle_replica c by' maj) (p, q, s @ [secured c a], paid, slash + c) as = Inr (p', q', s', paid', slash')"
      using Cons.prems no False [unfolded won_def] by (auto simp: settle_replica_def add_amount_fresh secured_def Let_def)
    note ih = Cons.IH [OF this]
    show ?thesis using ih Cons.prems False by (auto simp: unat_add_no_overflow [OF no])
  qed
qed simp

definition settles :: "OnChainJob \<Rightarrow> OnChainSettlement \<Rightarrow> Assignment list \<Rightarrow> Assignment list \<Rightarrow> bool" where
  "settles r s paid slashed \<longleftrightarrow>
     mset paid + mset slashed = mset (oj_Assignments r) \<and>
     st_Payments s = map priced paid \<and> sum_amounts (st_Payments s) + unat (st_Refund s) = unat (oj_Escrow r) \<and>
     st_CollateralReturns s = map (secured (jb_CollateralRequired (oj_Job r))) paid \<and>
     st_SlashedCollateral s = map (secured (jb_CollateralRequired (oj_Job r))) slashed \<and>
     unat (st_SlashReward s) = length slashed * unat (jb_CollateralRequired (oj_Job r))"

lemma refund_exact: "\<not> e < paid \<Longrightarrow> unat paid + unat (e - paid) = unat e" for e paid :: u64
  by (simp add: unat_sub not_less word_le_nat_alt)

lemma FinalizeOnChain_settles:
  assumes "FinalizeOnChain r ev = Inr (r', s)" "distinct (map as_Provider (oj_Assignments r))"
  shows "settles r s (oj_Assignments r) [] \<and> r' = r\<lparr>oj_Status := JobSettled\<rparr>"
proof -
  let ?c = "jb_CollateralRequired (oj_Job r)"
  obtain p q paid where f: "foldE (pay_and_return ?c) ([], [], 0) (oj_Assignments r) = Inr (p, q, paid)" and le: "\<not> oj_Escrow r < paid"
    and s: "r' = r\<lparr>oj_Status := JobSettled\<rparr>" "st_Payments s = p" "st_Refund s = oj_Escrow r - paid" "st_CollateralReturns s = q"
      "st_SlashedCollateral s = []" "st_SlashReward s = 0"
    using assms(1) by (auto simp: FinalizeOnChain_def Let_def split: if_splits prod.splits)
  have "p = map priced (oj_Assignments r) \<and> q = map (secured ?c) (oj_Assignments r) \<and> unat paid = sum_amounts (map priced (oj_Assignments r))"
    using pay_and_return_loop [OF f assms(2)] by simp
  then show ?thesis using s refund_exact [OF le] by (simp add: settles_def)
qed

lemma ResolveReplicatedMajority_settles:
  assumes "ResolveReplicatedMajority r = Inr (r', s)" "distinct (map as_Provider (oj_Assignments r))"
  shows "\<exists>won. settles r s (filter won (oj_Assignments r)) (filter (\<lambda>a. \<not> won a) (oj_Assignments r)) \<and> r' = r\<lparr>oj_Status := JobSettled\<rparr>"
proof -
  let ?c = "jb_CollateralRequired (oj_Job r)"
  obtain maj n where mj: "pick_majority (root_counts (oj_Results r)) = (maj, n)" by fastforce
  define by' where "by' = foldl (\<lambda>m res. AList.update (rs_Provider res) (rs_ResultRoot res) m) [] (oj_Results r)"
  obtain p q sl paid slash where f: "foldE (settle_replica ?c by' maj) ([], [], [], 0, 0) (oj_Assignments r) = Inr (p, q, sl, paid, slash)"
    and le: "\<not> oj_Escrow r < paid"
    and s: "r' = r\<lparr>oj_Status := JobSettled\<rparr>" "st_Payments s = p" "st_Refund s = oj_Escrow r - paid" "st_CollateralReturns s = q"
      "st_SlashedCollateral s = sl" "st_SlashReward s = slash"
    using assms(1) by (auto simp: ResolveReplicatedMajority_def mj Let_def by'_def [symmetric] split: if_splits)
  define won :: "Assignment \<Rightarrow> bool" where "won = (\<lambda>a. (case map_of by' (as_Provider a) of None \<Rightarrow> 0 | Some root \<Rightarrow> root) = maj)"
  have "p = map priced (filter won (oj_Assignments r)) \<and> q = map (secured ?c) (filter won (oj_Assignments r)) \<and>
      sl = map (secured ?c) (filter (\<lambda>a. \<not> won a) (oj_Assignments r)) \<and> unat paid = sum_amounts (map priced (filter won (oj_Assignments r))) \<and>
      unat slash = sum_amounts (map (secured ?c) (filter (\<lambda>a. \<not> won a) (oj_Assignments r)))"
    using settle_replica_loop [OF f assms(2)] by (simp add: won_def)
  then show ?thesis using s refund_exact [OF le]
    by (intro exI [of _ won]) (simp add: settles_def sum_secured)
qed



subsection \<open>The life of a job\<close>

text \<open>
  A job is created with its escrow, assigned to providers, given results, and written to the state and read back in
  between, which sorts its entries and trims its capabilities.
\<close>

inductive job_reach :: "OnChainJob \<Rightarrow> bool" where
  created: "job_valid job \<Longrightarrow> jb_MaxPrice job \<le> escrow \<Longrightarrow>
    job_reach \<lparr>oj_ID = jid, oj_Job = job, oj_Escrow = escrow, oj_Status = JobPending, oj_Assignments = [], oj_Results = []\<rparr>"
| assigned: "job_reach r \<Longrightarrow> AssignOnChain r offerID offer height = Inr (r', a, surplus) \<Longrightarrow> job_reach r'"
| submitted: "job_reach r \<Longrightarrow> SubmitOnChainResult r res = Inr r' \<Longrightarrow> job_reach r'"
| stored: "job_reach r \<Longrightarrow> OnChainJob_MarshalBinary r = Inr raw \<Longrightarrow> ParseOnChainJob raw = Inr r' \<Longrightarrow> job_reach r'"

definition job_inv :: "OnChainJob \<Rightarrow> bool" where
  "job_inv r \<longleftrightarrow> distinct (map as_Provider (oj_Assignments r)) \<and>
     sum_amounts (map priced (oj_Assignments r)) \<le> unat (jb_MaxPrice (oj_Job r)) \<and> jb_MaxPrice (oj_Job r) \<le> oj_Escrow r \<and>
     length (oj_Assignments r) \<le> requiredAssignments (oj_Job r) \<and> distinct (map rs_Provider (oj_Results r)) \<and>
     rs_Provider ` set (oj_Results r) \<subseteq> as_Provider ` set (oj_Assignments r)"

lemma committed_exact:
  "foldE add_price t as = Inr c \<Longrightarrow> unat c = unat t + sum_amounts (map priced as)"
proof (induction as arbitrary: t)
  case (Cons a as)
  then obtain t' where t': "add_price t a = Inr t'" "foldE add_price t' as = Inr c" by auto
  then have no: "\<not> overflows t (as_Price a)" and "t' = t + as_Price a" by (auto simp: add_price_def split: if_splits)
  then show ?case using Cons.IH [OF t'(2)] by (simp add: unat_add_no_overflow [OF no])
qed simp

lemma AssignOnChain_inv:
  assumes "AssignOnChain r offerID offer height = Inr (r', a, surplus)" "job_inv r"
  shows "job_inv r'"
proof -
  obtain c where c: "foldE add_price 0 (oj_Assignments r) = Inr c"
    and no: "\<not> overflows c (oc_PricePerUnit offer)" and le: "c + oc_PricePerUnit offer \<le> jb_MaxPrice (oj_Job r)"
    and fresh: "\<forall>b \<in> set (oj_Assignments r). as_Provider b \<noteq> oc_Provider offer"
    and room: "length (oj_Assignments r) < requiredAssignments (oj_Job r)"
    and r': "oj_Assignments r' = oj_Assignments r @ [\<lparr>as_OfferID = offerID, as_Provider = oc_Provider offer, as_Price = oc_PricePerUnit offer\<rparr>]"
      "oj_Job r' = oj_Job r" "oj_Escrow r' = oj_Escrow r" "oj_Results r' = oj_Results r"
    using assms(1) by (auto simp: AssignOnChain_def Let_def list_ex_iff not_le not_less split: if_splits)
  have "sum_amounts (map priced (oj_Assignments r)) + unat (oc_PricePerUnit offer) \<le> unat (jb_MaxPrice (oj_Job r))"
    using committed_exact [OF c] unat_add_no_overflow [OF no] le by (simp add: word_le_nat_alt)
  then show ?thesis using assms(2) fresh room by (auto simp: job_inv_def r')
qed

lemma SubmitOnChainResult_inv:
  assumes "SubmitOnChainResult r res = Inr r'" "job_inv r"
  shows "job_inv r'"
proof -
  have "list_ex (\<lambda>a. as_Provider a = rs_Provider res) (oj_Assignments r)" "\<not> list_ex (\<lambda>e. rs_Provider e = rs_Provider res) (oj_Results r)"
    and r': "oj_Assignments r' = oj_Assignments r" "oj_Job r' = oj_Job r" "oj_Escrow r' = oj_Escrow r" "oj_Results r' = oj_Results r @ [res]"
    using assms(1) by (auto simp: SubmitOnChainResult_def Let_def split: if_splits)
  then have "rs_Provider res \<in> as_Provider ` set (oj_Assignments r)" "rs_Provider res \<notin> rs_Provider ` set (oj_Results r)"
    by (force simp: list_ex_iff)+
  then show ?thesis using assms(2) by (simp add: job_inv_def r')
qed

lemma sum_amounts_mset: "sum_amounts (map f xs) = sum_mset (image_mset (\<lambda>x. unat (snd (f x))) (mset xs))"
  by (induction xs) simp_all

lemma requiredAssignments_trim [simp]: "requiredAssignments (trim_job b) = requiredAssignments b"
  by (simp add: requiredAssignments_def)

lemma normal_job_inv: "job_inv (normal_job r) \<longleftrightarrow> job_inv r"
proof -
  have d: "distinct (map f (sort_key g xs)) \<longleftrightarrow> distinct (map f xs)" for f :: "'b \<Rightarrow> 'c" and g :: "'b \<Rightarrow> 'd::linorder" and xs
    by (rule mset_eq_imp_distinct_iff) simp
  have "sum_amounts (map priced (sort_key as_Provider (oj_Assignments r))) = sum_amounts (map priced (oj_Assignments r))"
    by (simp add: sum_amounts_mset)
  then show ?thesis by (simp add: job_inv_def normal_job_def d)
qed

lemma ParseOnChainJob_counts:
  assumes "onchain_valid r" "length (oj_Assignments r) < 2 ^ 16" "length (oj_Results r) < 2 ^ 16" "ParseOnChainJob (OnChainJob_encode r) = Inr r'"
  shows "length (oj_Assignments r) \<le> 1024 \<and> length (oj_Results r) \<le> 1024"
proof -
  note e = onchain_entries_back [OF assms(1)]
  have c: "unat (of_nat (length (oj_Assignments r)) :: u32) = length (oj_Assignments r)"
      "unat (of_nat (length (oj_Results r)) :: u32) = length (oj_Results r)"
    using assms(2,3) by (auto intro!: unat_of_nat_small)
  have n: "\<not> 1024 < (of_nat (length (oj_Assignments r)) :: u32)"
    using assms(4) e(3,4) by (auto simp: ParseOnChainJob_def OnChainJob_encode_def)
  moreover have "\<not> 1024 < (of_nat (length (oj_Results r)) :: u32)"
    using assms(4) e(1,3,4) n c by (auto simp: ParseOnChainJob_def OnChainJob_encode_def)
  ultimately show ?thesis using c by (simp add: word_less_nat_alt)
qed

text \<open>
  Nothing stops a job with more than 1024 replicas from being assigned that often, and the assignment past the 1024th makes
  a record that \<open>MarshalBinary\<close> writes and \<open>ParseOnChainJob\<close> refuses.
\<close>

lemma job_record_unreadable:
  assumes "AssignOnChain r offerID offer height = Inr (r', a, surplus)" "length (oj_Assignments r) = 1024" "length (oj_Results r) \<le> 1024"
    and "OnChainJob_MarshalBinary r' = Inr raw"
  shows "\<not> is_ok (ParseOnChainJob raw)"
proof
  assume "is_ok (ParseOnChainJob raw)"
  then obtain q where q: "ParseOnChainJob raw = Inr q" by (auto simp: is_ok_iff)
  have v: "onchain_valid r'" "raw = OnChainJob_encode r'" using assms(4) by (simp_all add: OnChainJob_Marshal_iff)
  have "length (oj_Assignments r') = 1025" "length (oj_Results r') \<le> 1024"
    using assms(1-3) by (auto simp: AssignOnChain_def Let_def split: if_splits)
  then show False using ParseOnChainJob_counts [OF v(1)] q v(2) by auto
qed

lemma job_reach_inv: "job_reach r \<Longrightarrow> job_inv r"
proof (induction rule: job_reach.induct)
  case (stored r raw r')
  have v: "onchain_valid r" "raw = OnChainJob_encode r" using stored by (simp_all add: OnChainJob_Marshal_iff)
  have "unat (jb_Replicas (oj_Job r)) < 2 ^ 16" using unsigned_less [of "jb_Replicas (oj_Job r)"] by simp
  then have "requiredAssignments (oj_Job r) < 2 ^ 16" by (simp add: requiredAssignments_def)
  moreover have "length (oj_Results r) \<le> length (oj_Assignments r)"
    using stored.IH card_mono [of "as_Provider ` set (oj_Assignments r)" "rs_Provider ` set (oj_Results r)"]
    distinct_card [of "map rs_Provider (oj_Results r)"] distinct_card [of "map as_Provider (oj_Assignments r)"]
    by (simp add: job_inv_def)
  moreover have "length (oj_Assignments r) \<le> requiredAssignments (oj_Job r)" using stored.IH by (simp add: job_inv_def)
  ultimately have "length (oj_Assignments r) \<le> 1024 \<and> length (oj_Results r) \<le> 1024"
    using ParseOnChainJob_counts [OF v(1)] stored.hyps v(2) by auto
  then have "r' = normal_job r" using ParseOnChainJob_back [OF v(1)] stored.hyps v(2) by simp
  then show ?case using stored.IH by (simp add: normal_job_inv)
next
  case (created job escrow jid)
  then show ?case by (simp add: job_inv_def)
qed (simp_all add: AssignOnChain_inv SubmitOnChainResult_inv)



definition sample_job :: Job where
  "sample_job =
     \<lparr>jb_Owner = 5, jb_WorkloadHash = 6, jb_InputRoot = 7,
      jb_Resources = \<lparr>re_CPUCores = 1, re_MemoryMiB = 1, re_GPUCount = 0, re_GPUMemoryMiB = 0, re_StorageMiB = 0,
                      re_BandwidthMbps = 0, re_Capabilities = []\<rparr>,
      jb_MaxPrice = 100, jb_CollateralRequired = 10, jb_Verification = VerificationReplicated, jb_DeadlineHeight = 50,
      jb_Replicas = 2, jb_Private = False\<rparr>"

definition sample_offer :: "accountid \<Rightarrow> Offer" where
  "sample_offer provider =
     \<lparr>oc_Provider = provider, oc_Resources = jb_Resources sample_job, oc_PricePerUnit = 40, oc_Collateral = 10,
      oc_Verification = [VerificationReplicated], oc_ValidUntilHeight = 50\<rparr>"

definition sample_new_job :: OnChainJob where
  "sample_new_job =
     \<lparr>oj_ID = 9, oj_Job = sample_job, oj_Escrow = 100, oj_Status = JobPending, oj_Assignments = [], oj_Results = []\<rparr>"

definition sample_compute_result :: "accountid \<Rightarrow> hash \<Rightarrow> ComputeResult" where
  "sample_compute_result provider root =
     \<lparr>rs_JobID = 9, rs_Provider = provider, rs_ResultRoot = root, rs_ProofHash = 0, rs_AttestationHash = 0, rs_CompletedHeight = 3\<rparr>"

definition sample_assigned_job :: OnChainJob where
  "sample_assigned_job = sample_new_job\<lparr>oj_Status := JobAssigned,
     oj_Assignments := [\<lparr>as_OfferID = 1, as_Provider = 21, as_Price = 40\<rparr>, \<lparr>as_OfferID = 2, as_Provider = 22, as_Price = 40\<rparr>]\<rparr>"

definition sample_finished_job :: OnChainJob where
  "sample_finished_job = sample_assigned_job\<lparr>oj_Status := JobAwaitingVerification,
     oj_Results := [sample_compute_result 21 33, sample_compute_result 22 33]\<rparr>"

lemma sample_job_valid: "job_valid sample_job"
  by (simp add: job_valid_def sample_job_def resources_valid_def)

lemma sample_job_reach: "job_reach sample_finished_job"
proof -
  let ?one = "sample_new_job\<lparr>oj_Assignments := [\<lparr>as_OfferID = 1, as_Provider = 21, as_Price = 40\<rparr>]\<rparr>"
  have 0: "job_reach sample_new_job"
    unfolding sample_new_job_def by (rule job_reach.created [OF sample_job_valid]) (simp add: sample_job_def)
  have "AssignOnChain sample_new_job 1 (sample_offer 21) 2 = Inr (?one, \<lparr>as_OfferID = 1, as_Provider = 21, as_Price = 40\<rparr>, 0)"
    by (simp add: AssignOnChain_def sample_new_job_def sample_job_def sample_offer_def offerMatchesJob_def supportsMode_def
        requiredAssignments_def overflows_def Let_def)
  from job_reach.assigned [OF 0 this] have 1: "job_reach ?one" .
  have "AssignOnChain ?one 2 (sample_offer 22) 2 = Inr (sample_assigned_job, \<lparr>as_OfferID = 2, as_Provider = 22, as_Price = 40\<rparr>, 0)"
    by (simp add: AssignOnChain_def sample_new_job_def sample_assigned_job_def sample_job_def sample_offer_def offerMatchesJob_def
        supportsMode_def requiredAssignments_def overflows_def add_price_def Let_def)
  from job_reach.assigned [OF 1 this] have 2: "job_reach sample_assigned_job" .
  let ?res = "sample_assigned_job\<lparr>oj_Results := [sample_compute_result 21 33]\<rparr>"
  have "SubmitOnChainResult sample_assigned_job (sample_compute_result 21 33) = Inr ?res"
    by (simp add: SubmitOnChainResult_def sample_assigned_job_def sample_new_job_def sample_job_def sample_compute_result_def
        Result_Validate_def IsZero32_def requiredAssignments_def)
  from job_reach.submitted [OF 2 this] have 3: "job_reach ?res" .
  have "SubmitOnChainResult ?res (sample_compute_result 22 33) = Inr sample_finished_job"
    by (simp add: SubmitOnChainResult_def sample_assigned_job_def sample_finished_job_def sample_new_job_def sample_job_def
        sample_compute_result_def Result_Validate_def IsZero32_def requiredAssignments_def)
  from job_reach.submitted [OF 3 this] show ?thesis .
qed

lemma pay_and_return_ok:
  "unat paid + sum_amounts (map priced as) < 2 ^ 64 \<Longrightarrow> \<exists>p' q' paid'. foldE (pay_and_return c) (p, q, paid) as = Inr (p', q', paid')"
proof (induction as arbitrary: p q paid)
  case (Cons a as)
  then have no: "\<not> overflows paid (as_Price a)" by (simp add: overflows_iff)
  have "unat (paid + as_Price a) + sum_amounts (map priced as) < 2 ^ 64"
    using Cons.prems by (simp add: unat_add_no_overflow [OF no])
  from Cons.IH [OF this] show ?case by (simp add: pay_and_return_def no)
qed simp

lemma escrow_covers:
  assumes "job_inv r"
  shows "FinalizeOnChain r ev \<noteq> Inl ErrMarketEscrow"
proof -
  let ?c = "jb_CollateralRequired (oj_Job r)"
  have s: "sum_amounts (map priced (oj_Assignments r)) \<le> unat (oj_Escrow r)" and d: "distinct (map as_Provider (oj_Assignments r))"
    using assms by (auto simp: job_inv_def word_le_nat_alt)
  have "unat (oj_Escrow r) < 2 ^ 64" using unsigned_less [of "oj_Escrow r"] by simp
  then obtain p q paid where f: "foldE (pay_and_return ?c) ([], [], 0) (oj_Assignments r) = Inr (p, q, paid)"
    using s pay_and_return_ok [of 0 "oj_Assignments r" ?c "[]" "[]"] by auto
  have "unat paid = sum_amounts (map priced (oj_Assignments r))" using pay_and_return_loop [OF f d] by simp
  then have "\<not> oj_Escrow r < paid" using s by (simp add: word_less_nat_alt)
  then show ?thesis by (simp add: FinalizeOnChain_def Let_def f split: prod.splits)
qed

text \<open>
  C23. The life of a job keeps its books. For every job that can arise, however assignments, results and storage alternate,
  no provider is assigned twice, the promised prices are covered by the escrow, and only assigned providers report.
  When it is settled, by agreement or by majority, every assignment is either paid its price with its collateral returned
  or slashed, payments and refund are exactly the escrow, what is slashed is exactly the owner's reward, and a settlement
  by agreement never fails for lack of escrow.
\<close>

theorem compute_job_books:
  assumes "job_reach r"
  shows "job_inv r \<and> FinalizeOnChain r ev \<noteq> Inl ErrMarketEscrow \<and>
    (\<forall>r' s. FinalizeOnChain r ev = Inr (r', s) \<or> ResolveReplicatedMajority r = Inr (r', s) \<longrightarrow>
      r' = r\<lparr>oj_Status := JobSettled\<rparr> \<and> (\<exists>paid slashed. settles r s paid slashed))"
proof -
  have inv: "job_inv r" by (rule job_reach_inv [OF assms])
  then have d: "distinct (map as_Provider (oj_Assignments r))" by (simp add: job_inv_def)
  have "\<forall>r' s. FinalizeOnChain r ev = Inr (r', s) \<or> ResolveReplicatedMajority r = Inr (r', s) \<longrightarrow>
      r' = r\<lparr>oj_Status := JobSettled\<rparr> \<and> (\<exists>paid slashed. settles r s paid slashed)"
    using FinalizeOnChain_settles [OF _ d] ResolveReplicatedMajority_settles [OF _ d] by blast
  then show ?thesis using inv escrow_covers [OF inv] by blast
qed

definition no_evidence :: VerificationEvidence where
  "no_evidence = \<lparr>ve_DeterministicReplay = False, ve_ProofVerified = False, ve_AttestationVerified = False,
     ve_ChallengePassed = False, ve_ClientApproved = False\<rparr>"

definition sample_settlement :: OnChainSettlement where
  "sample_settlement =
     \<lparr>st_JobID = 9, st_ResultRoot = 33, st_Payments = [(21, 40), (22, 40)], st_Refund = 20,
      st_CollateralReturns = [(21, 10), (22, 10)], st_SlashedCollateral = [], st_SlashReward = 0\<rparr>"

theorem compute_job_books_witness:
  "FinalizeOnChain sample_finished_job no_evidence = Inr (sample_finished_job\<lparr>oj_Status := JobSettled\<rparr>, sample_settlement) \<and>
   (\<exists>paid slashed. settles sample_finished_job sample_settlement paid slashed)"
proof -
  have "FinalizeOnChain sample_finished_job no_evidence = Inr (sample_finished_job\<lparr>oj_Status := JobSettled\<rparr>, sample_settlement)"
    by (simp add: FinalizeOnChain_def sample_finished_job_def sample_assigned_job_def sample_new_job_def sample_job_def
        sample_compute_result_def requiredAssignments_def commonResultRootRecord_def verificationSatisfied_def no_evidence_def
        sample_settlement_def IsZero32_def pay_and_return_def overflows_def add_amount_def amount_at_def)
  then show ?thesis using compute_job_books [OF sample_job_reach] by blast
qed

subsection \<open>The majority does not depend on the order of a map\<close>

definition votes :: "ComputeResult list \<Rightarrow> hash \<Rightarrow> nat" where
  "votes results root = length (filter (\<lambda>res. rs_ResultRoot res = root) results)"

lemma root_counts_append:
  "root_counts (rs @ [x]) = AList.update (rs_ResultRoot x)
     (Suc (case map_of (root_counts rs) (rs_ResultRoot x) of None \<Rightarrow> 0 | Some n \<Rightarrow> n)) (root_counts rs)"
  by (simp add: root_counts_def)

lemma root_counts_votes:
  "map_of (root_counts rs) root = (if votes rs root = 0 then None else Some (votes rs root)) \<and> distinct (map fst (root_counts rs))"
proof (induction rs arbitrary: root rule: rev_induct)
  case Nil
  then show ?case by (simp add: root_counts_def votes_def)
next
  case (snoc x rs)
  have "votes (rs @ [x]) root = votes rs root + (if rs_ResultRoot x = root then 1 else 0)" by (simp add: votes_def)
  then show ?case using snoc by (auto simp: root_counts_append update_conv' distinct_update split: option.splits if_splits)
qed

lemma votes_two: "a \<noteq> b \<Longrightarrow> votes rs a + votes rs b \<le> length rs"
  by (induction rs) (auto simp: votes_def)

lemma pick_majority_fold:
  assumes "foldl (\<lambda>(majority, n) (root, k). if n < k then (root, k) else (majority, n)) (m0, n0 :: nat) cs = (m, n)"
  shows "n0 \<le> n \<and> (\<forall>(r, k) \<in> set cs. k \<le> n) \<and> ((m, n) = (m0, n0) \<or> (m, n) \<in> set cs)"
  using assms
proof (induction cs arbitrary: m0 n0)
  case (Cons c cs)
  obtain r k where c: "c = (r, k)" by (cases c)
  show ?case
  proof (cases "n0 < k")
    case True
    then show ?thesis using Cons.IH [of r k] Cons.prems by (auto simp: c)
  next
    case False
    then show ?thesis using Cons.IH [of m0 n0] Cons.prems by (auto simp: c)
  qed
qed simp

text \<open>
  The majority rule is deterministic. Whatever order the counts of the result roots are visited in, the same jobs
  have a strict majority, and a strict majority is the same root with the same count: the number of results that report it.
\<close>

theorem majority_order_irrelevant:
  assumes "mset cs = mset (root_counts results)" "pick_majority cs = (root, n)" "pick_majority (root_counts results) = (root', n')"
  shows "n = n' \<and> (length results < n * 2 \<longrightarrow> root = root' \<and> n = votes results root)"
proof -
  have set: "set cs = set (root_counts results)" using assms(1) by (rule mset_eq_setD)
  have c: "(\<forall>(r, k) \<in> set (root_counts results). k \<le> n) \<and> ((root, n) = (0, 0) \<or> (root, n) \<in> set (root_counts results))"
    using pick_majority_fold [OF assms(2) [unfolded pick_majority_def]] by (simp add: set)
  have c': "(\<forall>(r, k) \<in> set (root_counts results). k \<le> n') \<and> ((root', n') = (0, 0) \<or> (root', n') \<in> set (root_counts results))"
    using pick_majority_fold [OF assms(3) [unfolded pick_majority_def]] by simp
  have v: "(r, k) \<in> set (root_counts results) \<Longrightarrow> k = votes results r" for r k
    using root_counts_votes [of results r] by (auto split: if_splits)
  have n: "n = n'" using c c' by fastforce
  moreover have "root = root' \<and> n = votes results root" if "length results < n * 2"
  proof -
    have "n = votes results root" "n = votes results root'" using c c' v that n by fastforce+
    then show ?thesis using votes_two [of root root' results] that by auto
  qed
  ultimately show ?thesis by blast
qed

theorem majority_order_irrelevant_witness:
  "pick_majority (rev (root_counts (map (sample_compute_result 1) [5, 6, 5]))) = (5, 2) \<and>
   votes (map (sample_compute_result 1) [5, 6, 5]) 5 = 2"
proof -
  let ?rs = "map (sample_compute_result 1) [5, 6, 5]"
  have 1: "pick_majority (rev (root_counts ?rs)) = (5, 2)" "pick_majority (root_counts ?rs) = (5, 2)"
    by (simp_all add: root_counts_def sample_compute_result_def pick_majority_def)
  have "length ?rs < 2 * 2" by simp
  then show ?thesis using majority_order_irrelevant [OF mset_rev 1] 1(1) by auto
qed

end
