(* ===== verification/Execution.thy ===== *)
theory Execution
  imports Transactions Sharding Assets Lending DeviceCredential Contracts Compute
begin

text \<open>
  The execution engine (\<open>internal/v2/execution/engine.go\<close>, \<open>coin_metadata.go\<close>, \<open>token_mutation.go\<close>,
  \<open>extended_contract.go\<close>, \<open>extended_compute.go\<close>, \<open>extended_lending.go\<close>, \<open>extended_cross_lending.go\<close> and
  \<open>extended_devicecredential.go\<close>): what a valid transaction consumes, creates and sends to other shards.

  Each handler of the code is one definition. A Go map of token totals is the list of its entries; the loop over the input
  totals visits the keys in an order \<open>ord\<close>, which Go does not specify. The script interpreter that is the default contract
  engine is third-party code, the parameter \<open>S\<close>.
\<close>

record OutboundOutput =
  ob_DestinationShard :: u32
  ob_OutputIndex :: u32
  ob_Output :: OutputSpec

record ExecResult =
  ex_Consumed :: "objectid list"
  ex_Created :: "Object list"
  ex_Outbound :: "OutboundOutput list"
  ex_TxID :: hash

record Engine =
  en_Network :: networkid
  en_NativeToken :: tokenid
  en_ShardCount :: u32
  en_Height :: u64
  en_ContractRuntimes :: "byte list \<rightharpoonup> Runtime option"

abbreviation router :: "Engine \<Rightarrow> Router" where "router e \<equiv> \<lparr>rt_ShardCount = en_ShardCount e\<rparr>"

subsection \<open>Shared steps\<close>

definition add_total :: "amounts \<Rightarrow> tokenid \<Rightarrow> u64 \<Rightarrow> amounts result" where
  "add_total totals token amount =
     (let current = amount_at totals token
      in if overflows current amount then Inl ErrOverflow else Inr (AList.update token (current + amount) totals))"

definition stampCoinOutput :: "OutputSpec \<Rightarrow> u64 \<Rightarrow> OutputSpec result" where
  "stampCoinOutput spec height =
     (if os_Kind spec \<noteq> KindCoin then Inr spec
      else tryE (ParseCoin (os_Data spec)) (\<lambda>coin.
        Inr (spec\<lparr>os_Data := Coin_MarshalBinary (coin\<lparr>coin_CreatedHeight := height\<rparr>)\<rparr>)))"

definition output_object :: "hashfun \<Rightarrow> hash \<Rightarrow> u32 \<Rightarrow> u32 \<Rightarrow> OutputSpec \<Rightarrow> Object" where
  "output_object H txID index shard spec =
     \<lparr>obj_ID = ObjectIDForShard H txID index shard, obj_Version = 1, obj_Owner = os_Owner spec, obj_Kind = os_Kind spec,
      obj_Data = os_Data spec\<rparr>"

text \<open>An output stays on the shard of the transaction or is sent to the shard of its owner.\<close>

definition place :: "hashfun \<Rightarrow> hash \<Rightarrow> u32 \<Rightarrow> u32 \<Rightarrow> u32 \<Rightarrow> OutputSpec \<Rightarrow> Object list \<times> OutboundOutput list \<Rightarrow>
    Object list \<times> OutboundOutput list" where
  "place H txID shard destination index spec = (\<lambda>(created, outbound).
     if destination = shard then (created @ [output_object H txID index shard spec], outbound)
     else (created, outbound @ [\<lparr>ob_DestinationShard = destination, ob_OutputIndex = index, ob_Output = spec\<rparr>]))"

definition witnessByID :: "Transaction \<Rightarrow> objectid \<Rightarrow> Witness option" where
  "witnessByID t oid = find (\<lambda>w. obj_ID (wit_Object w) = oid) (tx_Witnesses t)"

definition witnessByKind :: "Transaction \<Rightarrow> kind \<Rightarrow> Witness option" where
  "witnessByKind t kind =
     (case filter (\<lambda>w. obj_Kind (wit_Object w) = kind) (tx_Witnesses t) of [w] \<Rightarrow> Some w | _ \<Rightarrow> None)"

subsection \<open>Transfers\<close>

type_synonym definitions = "(tokenid \<times> Definition) list"

definition transferable :: "definitions \<Rightarrow> tokenid \<Rightarrow> bool" where
  "transferable definitions token = (case map_of definitions token of None \<Rightarrow> False | Some d \<Rightarrow> td_Transferable d)"

definition transfer_input :: "Engine \<Rightarrow> accountid \<Rightarrow> amounts \<times> definitions \<times> objectid list \<Rightarrow> Witness \<Rightarrow>
    (amounts \<times> definitions \<times> objectid list) result" where
  "transfer_input e sender = (\<lambda>(inputTotals, definitions, consumed) w.
     let obj = wit_Object w
     in if obj_Kind obj = KindCoin then
          (if obj_Owner obj \<noteq> sender then Inl ErrOwnership
           else tryE (ParseCoin (obj_Data obj)) (\<lambda>coin.
             tryE (add_total inputTotals (coin_Token coin) (coin_Amount coin)) (\<lambda>inputTotals.
             Inr (inputTotals, definitions, consumed @ [obj_ID obj]))))
        else if obj_Kind obj = KindTokenDefinition then
          tryAs ErrTokenPolicy (ParseDefinition (obj_Data obj)) (\<lambda>d.
          if td_TokenID d = en_NativeToken e then Inl ErrTokenPolicy
          else if map_of definitions (td_TokenID d) \<noteq> None then Inl ErrTokenPolicy
          else Inr (inputTotals, AList.update (td_TokenID d) d definitions, consumed))
        else Inl ErrOwnership)"

definition transfer_output :: "hashfun \<Rightarrow> Engine \<Rightarrow> Transaction \<Rightarrow> definitions \<Rightarrow>
    amounts \<times> Object list \<times> OutboundOutput list \<Rightarrow> nat \<times> OutputSpec \<Rightarrow> (amounts \<times> Object list \<times> OutboundOutput list) result" where
  "transfer_output H e t definitions = (\<lambda>(outputTotals, placed) (i, spec).
     if os_Kind spec \<noteq> KindCoin then Inl ErrConservation
     else tryE (ParseCoin (os_Data spec)) (\<lambda>coin.
       if coin_Token coin \<noteq> en_NativeToken e \<and> \<not> transferable definitions (coin_Token coin) then Inl ErrTokenPolicy
       else tryE (add_total outputTotals (coin_Token coin) (coin_Amount coin)) (\<lambda>outputTotals.
         tryAs ErrShard (ShardForAccount (router e) (os_Owner spec)) (\<lambda>destination.
         if coin_Token coin \<noteq> en_NativeToken e \<and> destination \<noteq> tx_ShardID t then Inl ErrTokenPolicy
         else tryE (stampCoinOutput spec (en_Height e)) (\<lambda>stamped.
           Inr (outputTotals, place H (tx_ID H t) (tx_ShardID t) destination (of_nat i) stamped placed))))))"

definition transfer_settle :: "Engine \<Rightarrow> u64 \<Rightarrow> definitions \<Rightarrow> amounts \<Rightarrow> amounts \<Rightarrow> tokenid \<Rightarrow> amounts result" where
  "transfer_settle e fee definitions inputTotals outputTotals token =
     (let required = amount_at outputTotals token
      in tryE (if token = en_NativeToken e then (if overflows required fee then Inl ErrOverflow else Inr (required + fee))
               else if \<not> transferable definitions token then Inl ErrTokenPolicy else Inr required) (\<lambda>required.
         if amount_at inputTotals token \<noteq> required then Inl ErrConservation else Inr (AList.delete token outputTotals)))"

definition executeTransfer :: "hashfun \<Rightarrow> key_order \<Rightarrow> Engine \<Rightarrow> Transaction \<Rightarrow> ExecResult result" where
  "executeTransfer H ord e t =
     tryE (foldE (transfer_input e (tx_Sender t)) ([], [], []) (tx_Witnesses t)) (\<lambda>(inputTotals, definitions, consumed).
     tryE (foldE (transfer_output H e t definitions) ([], [], []) (enumerate 0 (tx_Outputs t))) (\<lambda>(outputTotals, created, outbound).
     tryE (foldE (transfer_settle e (tx_Fee t) definitions inputTotals) outputTotals (ord (map fst inputTotals))) (\<lambda>outputTotals.
     if length outputTotals \<noteq> 0 then Inl ErrConservation
     else Inr \<lparr>ex_Consumed = consumed, ex_Created = created, ex_Outbound = outbound, ex_TxID = tx_ID H t\<rparr>)))"

subsection \<open>Token creation\<close>

definition native_input :: "Engine \<Rightarrow> accountid \<Rightarrow> u64 \<Rightarrow> Witness \<Rightarrow> u64 result" where
  "native_input e sender nativeIn w =
     (if obj_Owner (wit_Object w) \<noteq> sender \<or> obj_Kind (wit_Object w) \<noteq> KindCoin then Inl ErrOwnership
      else tryE (ParseCoin (obj_Data (wit_Object w))) (\<lambda>coin.
        if coin_Token coin \<noteq> en_NativeToken e then Inl ErrConservation
        else if overflows nativeIn (coin_Amount coin) then Inl ErrOverflow
        else Inr (nativeIn + coin_Amount coin)))"

definition create_output :: "hashfun \<Rightarrow> Engine \<Rightarrow> Transaction \<Rightarrow> u64 \<times> Object list \<times> OutboundOutput list \<Rightarrow> nat \<times> OutputSpec \<Rightarrow>
    (u64 \<times> Object list \<times> OutboundOutput list) result" where
  "create_output H e t = (\<lambda>(nativeOut, placed) (i, spec).
     tryAs ErrConservation (ParseCoin (os_Data spec)) (\<lambda>coin.
     if os_Kind spec \<noteq> KindCoin \<or> coin_Token coin \<noteq> en_NativeToken e then Inl ErrConservation
     else if overflows nativeOut (coin_Amount coin) then Inl ErrOverflow
     else tryAs ErrShard (ShardForAccount (router e) (os_Owner spec)) (\<lambda>destination.
       tryE (stampCoinOutput spec (en_Height e)) (\<lambda>stamped.
       Inr (nativeOut + coin_Amount coin, place H (tx_ID H t) (tx_ShardID t) destination (of_nat i) stamped placed)))))"

definition executeCreateToken :: "hashfun \<Rightarrow> Engine \<Rightarrow> Transaction \<Rightarrow> byte list \<Rightarrow> ExecResult result" where
  "executeCreateToken H e t payload =
     tryE (ParseCreateToken payload) (\<lambda>create.
     if ct_MintAuthority create \<noteq> tx_Sender t then Inl ErrOwnership
     else tryE (foldE (native_input e (tx_Sender t)) 0 (tx_Witnesses t)) (\<lambda>nativeIn.
       tryE (foldE (create_output H e t) (0, [], []) (enumerate 0 (tx_Outputs t))) (\<lambda>(nativeOut, created, outbound).
       if overflows nativeOut (tx_Fee t) \<or> nativeIn \<noteq> nativeOut + tx_Fee t then Inl ErrConservation
       else
         let txID = tx_ID H t;
             tokenID = TokenIDFromTransaction H txID 0;
             definition' = \<lparr>td_TokenID = tokenID, td_Name = ct_Name create, td_Symbol = ct_Symbol create,
               td_Decimals = ct_Decimals create, td_SupplyPolicy = ct_SupplyPolicy create, td_MaxSupply = ct_MaxSupply create,
               td_CurrentSupply = ct_InitialSupply create, td_MintAuthority = ct_MintAuthority create,
               td_Burnable = ct_Burnable create, td_Transferable = ct_Transferable create\<rparr>
         in tryE (Definition_MarshalBinary definition') (\<lambda>defData.
            tryE (NewCoinOutputAtHeight (tx_Sender t) tokenID (ct_InitialSupply create) (en_Height e)) (\<lambda>initialCoin.
            Inr \<lparr>ex_Consumed = map in_ObjectID (tx_Inputs t),
                 ex_Created = created @
                   [\<lparr>obj_ID = ObjectIDForShard H txID 0x80000000 (tx_ShardID t), obj_Version = 1, obj_Owner = tx_Sender t,
                     obj_Kind = KindTokenDefinition, obj_Data = defData\<rparr>,
                    output_object H txID 0x80000001 (tx_ShardID t) initialCoin],
                 ex_Outbound = outbound, ex_TxID = txID\<rparr>)))))"

subsection \<open>Fees and native value\<close>

definition fee_input :: "Engine \<Rightarrow> accountid \<Rightarrow> objectid set \<Rightarrow> u64 \<times> objectid list \<Rightarrow> Witness \<Rightarrow> (u64 \<times> objectid list) result" where
  "fee_input e sender nonCoin = (\<lambda>(nativeIn, consumed) w.
     let obj = wit_Object w
     in if obj_ID obj \<in> nonCoin then Inr (nativeIn, consumed)
        else if obj_Kind obj \<noteq> KindCoin \<or> obj_Owner obj \<noteq> sender then Inl ErrOwnership
        else tryAs ErrConservation (ParseCoin (obj_Data obj)) (\<lambda>coin.
          if coin_Token coin \<noteq> en_NativeToken e then Inl ErrConservation
          else if overflows nativeIn (coin_Amount coin) then Inl ErrOverflow
          else Inr (nativeIn + coin_Amount coin, consumed @ [obj_ID obj])))"

definition fee_output :: "hashfun \<Rightarrow> Engine \<Rightarrow> Transaction \<Rightarrow> u64 \<times> Object list \<Rightarrow> nat \<times> OutputSpec \<Rightarrow> (u64 \<times> Object list) result" where
  "fee_output H e t = (\<lambda>(nativeOut, created) (i, spec).
     if os_Kind spec \<noteq> KindCoin then Inl ErrConservation
     else tryAs ErrShard (ShardForAccount (router e) (os_Owner spec)) (\<lambda>destination.
       if destination \<noteq> tx_ShardID t then Inl ErrShard
       else tryAs ErrConservation (ParseCoin (os_Data spec)) (\<lambda>coin.
         if coin_Token coin \<noteq> en_NativeToken e then Inl ErrConservation
         else if overflows nativeOut (coin_Amount coin) then Inl ErrOverflow
         else tryE (stampCoinOutput spec (en_Height e)) (\<lambda>stamped.
           Inr (nativeOut + coin_Amount coin, created @ [output_object H (tx_ID H t) (of_nat i) (tx_ShardID t) stamped])))))"

definition feeOnlyOutputsExcluding :: "hashfun \<Rightarrow> Engine \<Rightarrow> Transaction \<Rightarrow> objectid \<Rightarrow> Access list \<Rightarrow> (Object list \<times> objectid list) result" where
  "feeOnlyOutputsExcluding H e t contractObject accesses =
     (let nonCoin = (if \<not> IsZero32 contractObject then {contractObject} else {}) \<union> set (map ac_ObjectID accesses)
      in tryE (foldE (fee_input e (tx_Sender t) nonCoin) (0, []) (tx_Witnesses t)) (\<lambda>(nativeIn, consumed).
         tryE (foldE (fee_output H e t) (0, []) (enumerate 0 (tx_Outputs t))) (\<lambda>(nativeOut, created).
         if overflows nativeOut (tx_Fee t) \<or> nativeIn \<noteq> nativeOut + tx_Fee t then Inl ErrConservation
         else Inr (created, consumed))))"

definition feeOnlyOutputs :: "hashfun \<Rightarrow> Engine \<Rightarrow> Transaction \<Rightarrow> (Object list \<times> objectid list) result" where
  "feeOnlyOutputs H e t = feeOnlyOutputsExcluding H e t 0 []"

definition native_coin :: "Engine \<Rightarrow> byte list \<Rightarrow> u64 \<Rightarrow> u64 result" where
  "native_coin e data acc =
     tryAs ErrConservation (ParseCoin data) (\<lambda>coin.
     if coin_Token coin \<noteq> en_NativeToken e \<or> overflows acc (coin_Amount coin) then Inl ErrConservation
     else Inr (acc + coin_Amount coin))"

definition account_input :: "Engine \<Rightarrow> accountid \<Rightarrow> objectid set \<Rightarrow> u64 \<times> objectid list \<Rightarrow> Witness \<Rightarrow> (u64 \<times> objectid list) result" where
  "account_input e sender excluded = (\<lambda>(available, consumed) w.
     let obj = wit_Object w
     in if obj_ID obj \<in> excluded then Inr (available, consumed)
        else if obj_Kind obj \<noteq> KindCoin \<or> obj_Owner obj \<noteq> sender then Inl ErrOwnership
        else tryE (native_coin e (obj_Data obj) available) (\<lambda>available. Inr (available, consumed @ [obj_ID obj])))"

definition account_output :: "hashfun \<Rightarrow> Engine \<Rightarrow> Transaction \<Rightarrow> u64 \<times> Object list \<times> OutboundOutput list \<Rightarrow> nat \<times> OutputSpec \<Rightarrow>
    (u64 \<times> Object list \<times> OutboundOutput list) result" where
  "account_output H e t = (\<lambda>(required, placed) (i, spec).
     if os_Kind spec \<noteq> KindCoin then Inl ErrConservation
     else tryE (native_coin e (os_Data spec) required) (\<lambda>required.
       tryAs ErrShard (ShardForAccount (router e) (os_Owner spec)) (\<lambda>destination.
       Inr (required, place H (tx_ID H t) (tx_ShardID t) destination (of_nat i) spec placed))))"

definition accountNativeValue :: "hashfun \<Rightarrow> Engine \<Rightarrow> Transaction \<Rightarrow> objectid set \<Rightarrow> u64 \<Rightarrow> u64 \<Rightarrow>
    (Object list \<times> OutboundOutput list \<times> objectid list) result" where
  "accountNativeValue H e t excluded internalIn internalOut =
     tryE (foldE (account_input e (tx_Sender t) excluded) (internalIn, []) (tx_Witnesses t)) (\<lambda>(available, consumed).
     tryE (foldE (account_output H e t) (internalOut, [], []) (enumerate 0 (tx_Outputs t))) (\<lambda>(required, created, outbound).
     if overflows required (tx_Fee t) then Inl ErrOverflow
     else if available \<noteq> required + tx_Fee t then Inl ErrConservation
     else Inr (created, outbound, consumed)))"

subsection \<open>Minting and burning\<close>

abbreviation tokenMintOutputIndex :: u32 where "tokenMintOutputIndex \<equiv> 0x81000000"

definition tokenDefinitionWitness :: "Transaction \<Rightarrow> objectid \<Rightarrow> (Object \<times> Definition) result" where
  "tokenDefinitionWitness t oid =
     (case witnessByID t oid of
        None \<Rightarrow> Inl ErrTokenPolicy
      | Some w \<Rightarrow>
          if obj_Kind (wit_Object w) \<noteq> KindTokenDefinition then Inl ErrTokenPolicy
          else tryE (ParseDefinition (obj_Data (wit_Object w))) (\<lambda>d. Inr (wit_Object w, d)))"

definition executeMintToken :: "hashfun \<Rightarrow> Engine \<Rightarrow> Transaction \<Rightarrow> byte list \<Rightarrow> ExecResult result" where
  "executeMintToken H e t payload =
     tryE (ParseMintToken payload) (\<lambda>request.
     tryAs ErrTokenPolicy (tokenDefinitionWitness t (mt_DefinitionObject request)) (\<lambda>(definitionObject, d).
     if td_TokenID d = en_NativeToken e \<or> td_MintAuthority d \<noteq> tx_Sender t then Inl ErrTokenPolicy
     else tryAs ErrTokenPolicy (Mint d (mt_Amount request)) (\<lambda>next.
       tryE (feeOnlyOutputsExcluding H e t (mt_DefinitionObject request) []) (\<lambda>(created, consumed).
       tryE (Definition_MarshalBinary next) (\<lambda>nextRaw.
       tryE (NewCoinOutputAtHeight (mt_Recipient request) (td_TokenID d) (mt_Amount request) (en_Height e)) (\<lambda>minted.
       tryAs ErrTokenPolicy (ShardForAccount (router e) (mt_Recipient request)) (\<lambda>destination.
       if destination \<noteq> tx_ShardID t then Inl ErrTokenPolicy
       else Inr
         \<lparr>ex_Consumed = consumed @ [obj_ID definitionObject],
          ex_Created = created @
            [definitionObject\<lparr>obj_Version := obj_Version definitionObject + 1, obj_Data := nextRaw\<rparr>,
             output_object H (tx_ID H t) tokenMintOutputIndex (tx_ShardID t) minted],
          ex_Outbound = [], ex_TxID = tx_ID H t\<rparr>)))))))"

definition burn_input :: "Engine \<Rightarrow> accountid \<Rightarrow> objectid \<Rightarrow> tokenid \<Rightarrow> u64 \<times> u64 \<times> objectid list \<Rightarrow> Witness \<Rightarrow>
    (u64 \<times> u64 \<times> objectid list) result" where
  "burn_input e sender definitionObject token = (\<lambda>(nativeIn, tokenIn, consumed) w.
     let obj = wit_Object w
     in if obj_ID obj = definitionObject then Inr (nativeIn, tokenIn, consumed)
        else if obj_Kind obj \<noteq> KindCoin \<or> obj_Owner obj \<noteq> sender then Inl ErrOwnership
        else tryE (ParseCoin (obj_Data obj)) (\<lambda>coin.
          if coin_Token coin = en_NativeToken e then
            (if overflows nativeIn (coin_Amount coin) then Inl ErrOverflow
             else Inr (nativeIn + coin_Amount coin, tokenIn, consumed @ [obj_ID obj]))
          else if coin_Token coin = token then
            (if overflows tokenIn (coin_Amount coin) then Inl ErrOverflow
             else Inr (nativeIn, tokenIn + coin_Amount coin, consumed @ [obj_ID obj]))
          else Inl ErrConservation))"

definition burn_output :: "hashfun \<Rightarrow> Engine \<Rightarrow> Transaction \<Rightarrow> tokenid \<Rightarrow> u64 \<times> u64 \<times> Object list \<Rightarrow> nat \<times> OutputSpec \<Rightarrow>
    (u64 \<times> u64 \<times> Object list) result" where
  "burn_output H e t token = (\<lambda>(nativeOut, tokenOut, created) (i, spec).
     if os_Kind spec \<noteq> KindCoin then Inl ErrConservation
     else tryAs ErrShard (ShardForAccount (router e) (os_Owner spec)) (\<lambda>destination.
       if destination \<noteq> tx_ShardID t then Inl ErrShard
       else tryE (ParseCoin (os_Data spec)) (\<lambda>coin.
         tryE (if coin_Token coin = en_NativeToken e then
                 (if overflows nativeOut (coin_Amount coin) then Inl ErrOverflow else Inr (nativeOut + coin_Amount coin, tokenOut))
               else if coin_Token coin = token then
                 (if os_Owner spec \<noteq> tx_Sender t \<or> overflows tokenOut (coin_Amount coin) then Inl ErrTokenPolicy
                  else Inr (nativeOut, tokenOut + coin_Amount coin))
               else Inl ErrConservation) (\<lambda>(nativeOut, tokenOut).
         tryE (stampCoinOutput spec (en_Height e)) (\<lambda>stamped.
         Inr (nativeOut, tokenOut, created @ [output_object H (tx_ID H t) (of_nat i) (tx_ShardID t) stamped]))))))"

definition executeBurnToken :: "hashfun \<Rightarrow> Engine \<Rightarrow> Transaction \<Rightarrow> byte list \<Rightarrow> ExecResult result" where
  "executeBurnToken H e t payload =
     tryE (ParseBurnToken payload) (\<lambda>request.
     tryAs ErrTokenPolicy (tokenDefinitionWitness t (bt_DefinitionObject request)) (\<lambda>(definitionObject, d).
     if td_TokenID d = en_NativeToken e \<or> \<not> td_Burnable d then Inl ErrTokenPolicy
     else tryAs ErrTokenPolicy (Burn d (bt_Amount request)) (\<lambda>next.
       tryE (foldE (burn_input e (tx_Sender t) (bt_DefinitionObject request) (td_TokenID d)) (0, 0, []) (tx_Witnesses t))
         (\<lambda>(nativeIn, tokenIn, consumed).
       tryE (foldE (burn_output H e t (td_TokenID d)) (0, 0, []) (enumerate 0 (tx_Outputs t))) (\<lambda>(nativeOut, tokenOut, created).
       if overflows nativeOut (tx_Fee t) \<or> nativeIn \<noteq> nativeOut + tx_Fee t then Inl ErrConservation
       else if overflows tokenOut (bt_Amount request) \<or> tokenIn \<noteq> tokenOut + bt_Amount request then Inl ErrConservation
       else tryE (Definition_MarshalBinary next) (\<lambda>nextRaw.
         Inr
           \<lparr>ex_Consumed = consumed @ [obj_ID definitionObject],
            ex_Created = created @ [definitionObject\<lparr>obj_Version := obj_Version definitionObject + 1, obj_Data := nextRaw\<rparr>],
            ex_Outbound = [], ex_TxID = tx_ID H t\<rparr>))))))"

end
