(* ===== verification/Handlers.thy ===== *)
theory Handlers
  imports Execution
begin

text \<open>
  The handlers of the extended operations (\<open>internal/v2/execution/extended_contract.go\<close>, \<open>extended_compute.go\<close>,
  \<open>extended_lending.go\<close>, \<open>extended_cross_lending.go\<close>, \<open>extended_devicecredential.go\<close>) and the dispatch of
  \<open>Engine.Execute\<close> (\<open>internal/v2/execution/engine.go\<close>).
\<close>

subsection \<open>Contracts\<close>

abbreviation contractObjectIndex :: u32 where "contractObjectIndex \<equiv> 0xA0000000"
abbreviation contractStateIndex :: u32 where "contractStateIndex \<equiv> 0xA0000001"
abbreviation contractReceiptIndex :: u32 where "contractReceiptIndex \<equiv> 0xA0000010"

definition contractRuntime :: "Runtime \<Rightarrow> Engine \<Rightarrow> byte list \<Rightarrow> Runtime option" where
  "contractRuntime S e name =
     (case en_ContractRuntimes e name of
        Some (Some inner) \<Rightarrow> Some inner
      | _ \<Rightarrow> if name = RuntimeZephyrScriptV1 then Some S else None)"

definition executeDeployContract :: "hashfun \<Rightarrow> Runtime \<Rightarrow> Engine \<Rightarrow> Transaction \<Rightarrow> byte list \<Rightarrow> ExecResult result" where
  "executeDeployContract H S e t payload =
     tryAs ErrOwnership (ParseDeployment payload) (\<lambda>deployment.
     if dp_UpgradeAuthority deployment \<noteq> tx_Sender t then Inl ErrOwnership
     else case contractRuntime S e (dp_Runtime deployment) of
       None \<Rightarrow> Inl ErrUnsupportedOperation
     | Some runtime \<Rightarrow>
         tryE (metered_ValidateModule (Some runtime) (dp_Code deployment)) (\<lambda>_.
         tryE (feeOnlyOutputs H e t) (\<lambda>(created, consumed).
         let txID = tx_ID H t; contractID = ContractIDFromTransaction H txID 0
         in tryE (Stored_MarshalBinary \<lparr>sc_ID = contractID, sc_Deployment = deployment\<rparr>) (\<lambda>storedRaw.
            Inr \<lparr>ex_Consumed = consumed,
                 ex_Created = created @
                   [\<lparr>obj_ID = ObjectIDForShard H txID contractObjectIndex (tx_ShardID t), obj_Version = 1,
                     obj_Owner = tx_Sender t, obj_Kind = KindContract, obj_Data = storedRaw\<rparr>] @
                   (if 0 < length (dp_InitialState deployment) then
                      [\<lparr>obj_ID = ObjectIDForShard H txID contractStateIndex (tx_ShardID t), obj_Version = 1,
                        obj_Owner = tx_Sender t, obj_Kind = KindContractState, obj_Data = dp_InitialState deployment\<rparr>]
                    else []),
                 ex_Outbound = [], ex_TxID = txID\<rparr>))))"

definition witness_map :: "Transaction \<Rightarrow> objectid \<rightharpoonup> Witness" where
  "witness_map t = map_of (rev (map (\<lambda>w. (obj_ID (wit_Object w), w)) (tx_Witnesses t)))"

definition read_state :: "Transaction \<Rightarrow> (objectid \<times> byte list) list \<Rightarrow> Access \<Rightarrow> (objectid \<times> byte list) list result" where
  "read_state t readValues access =
     (case witness_map t (ac_ObjectID access) of
        None \<Rightarrow> Inl ErrOwnership
      | Some w \<Rightarrow>
          if obj_Kind (wit_Object w) \<noteq> KindContractState then Inl ErrOwnership
          else Inr (AList.update (ac_ObjectID access) (obj_Data (wit_Object w)) readValues))"

text \<open>A written object whose witness is absent would be the zero object of Go.\<close>

definition zero_object :: Object where
  "zero_object = \<lparr>obj_ID = 0, obj_Version = 0, obj_Owner = 0, obj_Kind = 0, obj_Data = []\<rparr>"

definition written_object :: "Transaction \<Rightarrow> objectid \<times> byte list \<Rightarrow> Object" where
  "written_object t = (\<lambda>(oid, value).
     let obj = (case witness_map t oid of None \<Rightarrow> zero_object | Some w \<Rightarrow> wit_Object w)
     in obj\<lparr>obj_Version := obj_Version obj + 1, obj_Data := value\<rparr>)"

definition executeContractCall :: "hashfun \<Rightarrow> Runtime \<Rightarrow> Engine \<Rightarrow> Transaction \<Rightarrow> byte list \<Rightarrow> ExecResult result" where
  "executeContractCall H S e t payload =
     tryE (ParseCall payload) (\<lambda>call.
     case witness_map t (cc_ContractObject call) of
       None \<Rightarrow> Inl ErrOwnership
     | Some contractWitness \<Rightarrow>
         if obj_Kind (wit_Object contractWitness) \<noteq> KindContract then Inl ErrOwnership
         else tryE (ParseStoredContract (obj_Data (wit_Object contractWitness))) (\<lambda>stored.
           case contractRuntime S e (dp_Runtime (sc_Deployment stored)) of
             None \<Rightarrow> Inl ErrUnsupportedOperation
           | Some runtime \<Rightarrow>
               tryE (foldE (read_state t) [] (cc_Accesses call)) (\<lambda>readValues.
               tryE (metered_Execute (Some runtime)
                 \<lparr>rq_ContractID = sc_ID stored, rq_Runtime = dp_Runtime (sc_Deployment stored),
                  rq_Code = dp_Code (sc_Deployment stored), rq_Entrypoint = cc_Entrypoint call, rq_Arguments = cc_Arguments call,
                  rq_Accesses = cc_Accesses call, rq_ReadValues = readValues, rq_FuelLimit = cc_FuelLimit call\<rparr>) (\<lambda>res.
               tryE (feeOnlyOutputsExcluding H e t (cc_ContractObject call) (cc_Accesses call)) (\<lambda>(created, consumed).
               let receipt = \<lparr>rp_ContractID = sc_ID stored, rp_FuelUsed = cl_FuelUsed res,
                     rp_ReturnHash = DomainHash H ''zephyr/contract-return/v2'' (cl_ReturnData res),
                     rp_EventRoot = merkle_Root H (map (Leaf H ''contract-event'') (cl_Events res))\<rparr>;
                   txID = tx_ID H t
               in Inr \<lparr>ex_Consumed = consumed @ map fst (cl_Writes res),
                       ex_Created = created @ map (written_object t) (cl_Writes res) @
                         [\<lparr>obj_ID = ObjectIDForShard H txID contractReceiptIndex (tx_ShardID t), obj_Version = 1,
                           obj_Owner = tx_Sender t, obj_Kind = KindSystem, obj_Data = ContractReceipt_MarshalBinary receipt\<rparr>],
                       ex_Outbound = [], ex_TxID = txID\<rparr>)))))"

subsection \<open>Compute\<close>

abbreviation computeReceiptIndex :: u32 where "computeReceiptIndex \<equiv> 0xC0000000"

definition executeComputeOffer :: "hashfun \<Rightarrow> Engine \<Rightarrow> Transaction \<Rightarrow> byte list \<Rightarrow> ExecResult result" where
  "executeComputeOffer H e t payload =
     tryAs ErrOwnership (ParseOffer payload) (\<lambda>offer.
     if oc_Provider offer \<noteq> tx_Sender t \<or> (0 < en_Height e \<and> oc_ValidUntilHeight offer < en_Height e) then Inl ErrOwnership
     else tryE (accountNativeValue H e t {} 0 (oc_Collateral offer)) (\<lambda>(created, outbound, consumed).
       tryE (NewOfferObject H (tx_ID H t) (tx_ShardID t) offer) (\<lambda>offerObject.
       Inr \<lparr>ex_Consumed = consumed, ex_Created = created @ [offerObject], ex_Outbound = outbound, ex_TxID = tx_ID H t\<rparr>)))"

definition executeComputeJob :: "hashfun \<Rightarrow> Engine \<Rightarrow> Transaction \<Rightarrow> byte list \<Rightarrow> ExecResult result" where
  "executeComputeJob H e t payload =
     tryAs ErrOwnership (ParseJob payload) (\<lambda>job.
     if jb_Owner job \<noteq> tx_Sender t \<or> (0 < en_Height e \<and> jb_DeadlineHeight job \<le> en_Height e) then Inl ErrOwnership
     else tryE (accountNativeValue H e t {} 0 (jb_MaxPrice job)) (\<lambda>(created, outbound, consumed).
       tryE (NewJobObject H (tx_ID H t) (tx_ShardID t) job (jb_MaxPrice job)) (\<lambda>(jobObject, _).
       Inr \<lparr>ex_Consumed = consumed, ex_Created = created @ [jobObject], ex_Outbound = outbound, ex_TxID = tx_ID H t\<rparr>)))"

definition mustOfferBytes :: "Offer \<Rightarrow> byte list" where
  "mustOfferBytes offer = (case Offer_MarshalBinary offer of Inl _ \<Rightarrow> [] | Inr raw \<Rightarrow> raw)"

definition executeComputeAccept :: "hashfun \<Rightarrow> Engine \<Rightarrow> Transaction \<Rightarrow> byte list \<Rightarrow> ExecResult result" where
  "executeComputeAccept H e t payload =
     tryAs ErrOwnership (ParseAssignmentMessage payload) (\<lambda>message.
     if oc_Provider (am_Offer message) \<noteq> tx_Sender t \<or> en_ShardCount e \<le> am_JobShard message then Inl ErrOwnership
     else case witnessByKind t KindComputeOffer of
       None \<Rightarrow> Inl ErrOwnership
     | Some w \<Rightarrow>
         let offerObject = wit_Object w
         in if obj_Owner offerObject \<noteq> tx_Sender t \<or> obj_ID offerObject \<noteq> am_OfferID message \<or>
               obj_Data offerObject \<noteq> mustOfferBytes (am_Offer message) then Inl ErrOwnership
            else tryE (accountNativeValue H e t {obj_ID offerObject} (oc_Collateral (am_Offer message))
                        (jb_CollateralRequired (am_Job message))) (\<lambda>(created, outbound, consumed).
              tryE (AssignmentMessage_Output message) (\<lambda>spec.
              let (created, outbound) = place H (tx_ID H t) (tx_ShardID t) (am_JobShard message) computeReceiptIndex spec (created, outbound)
              in Inr \<lparr>ex_Consumed = consumed @ [obj_ID offerObject], ex_Created = created, ex_Outbound = outbound, ex_TxID = tx_ID H t\<rparr>)))"

definition executeComputeResult :: "hashfun \<Rightarrow> Engine \<Rightarrow> Transaction \<Rightarrow> byte list \<Rightarrow> ExecResult result" where
  "executeComputeResult H e t payload =
     tryAs ErrOwnership (ParseResultMessage payload) (\<lambda>message.
     if rs_Provider (rm_Result message) \<noteq> tx_Sender t \<or> en_ShardCount e \<le> rm_JobShard message then Inl ErrOwnership
     else tryE (accountNativeValue H e t {} 0 0) (\<lambda>(created, outbound, consumed).
       let spec = (case ResultMessage_Output message of Inl _ \<Rightarrow> \<lparr>os_Owner = 0, os_Kind = 0, os_Data = []\<rparr> | Inr spec \<Rightarrow> spec);
           (created, outbound) = place H (tx_ID H t) (tx_ShardID t) (rm_JobShard message) computeReceiptIndex spec (created, outbound)
       in Inr \<lparr>ex_Consumed = consumed, ex_Created = created, ex_Outbound = outbound, ex_TxID = tx_ID H t\<rparr>))"

text \<open>The witness with a given identifier, kind and owner; the handlers return \<open>ErrOwnership\<close> without one.\<close>

definition owned_witness :: "Transaction \<Rightarrow> objectid \<Rightarrow> kind \<Rightarrow> Object result" where
  "owned_witness t oid kind =
     (case witnessByID t oid of
        None \<Rightarrow> Inl ErrOwnership
      | Some w \<Rightarrow>
          if obj_Kind (wit_Object w) \<noteq> kind \<or> obj_Owner (wit_Object w) \<noteq> tx_Sender t then Inl ErrOwnership else Inr (wit_Object w))"

definition executeComputeIngestAssignment :: "hashfun \<Rightarrow> Engine \<Rightarrow> Transaction \<Rightarrow> byte list \<Rightarrow> ExecResult result" where
  "executeComputeIngestAssignment H e t payload =
     tryE (ParseIngestRef payload) (\<lambda>ref.
     tryE (owned_witness t (ig_JobObject ref) KindComputeJob) (\<lambda>jobObject.
     tryE (owned_witness t (ig_MessageObject ref) KindComputeAssignment) (\<lambda>messageObject.
     tryE (ParseOnChainJob (obj_Data jobObject)) (\<lambda>record'.
     tryAs ErrComputeMessage (ParseAssignmentMessage (obj_Data messageObject)) (\<lambda>message.
     if am_JobShard message \<noteq> tx_ShardID t \<or> \<not> is_ok (ValidateForRecord message record') then Inl ErrComputeMessage
     else tryE (AssignOnChain record' (am_OfferID message) (am_Offer message) (en_Height e)) (\<lambda>(updated, _, _).
       tryE (OnChainJob_MarshalBinary updated) (\<lambda>updatedRaw.
       tryE (accountNativeValue H e t {obj_ID jobObject, obj_ID messageObject} (jb_CollateralRequired (oj_Job record'))
              (jb_CollateralRequired (oj_Job record'))) (\<lambda>(created, outbound, consumed).
       Inr \<lparr>ex_Consumed = consumed @ [obj_ID jobObject, obj_ID messageObject],
            ex_Created = created @ [jobObject\<lparr>obj_Version := obj_Version jobObject + 1, obj_Data := updatedRaw\<rparr>],
            ex_Outbound = outbound, ex_TxID = tx_ID H t\<rparr>))))))))"

definition executeComputeIngestResult :: "hashfun \<Rightarrow> Engine \<Rightarrow> Transaction \<Rightarrow> byte list \<Rightarrow> ExecResult result" where
  "executeComputeIngestResult H e t payload =
     tryE (ParseIngestRef payload) (\<lambda>ref.
     tryE (owned_witness t (ig_JobObject ref) KindComputeJob) (\<lambda>jobObject.
     tryE (owned_witness t (ig_MessageObject ref) KindComputeResult) (\<lambda>messageObject.
     tryE (ParseOnChainJob (obj_Data jobObject)) (\<lambda>record'.
     tryAs ErrComputeMessage (ParseResultMessage (obj_Data messageObject)) (\<lambda>message.
     if rm_JobID message \<noteq> oj_ID record' \<or> rm_JobOwner message \<noteq> jb_Owner (oj_Job record') \<or> rm_JobShard message \<noteq> tx_ShardID t
     then Inl ErrComputeMessage
     else tryE (SubmitOnChainResult record' (rm_Result message)) (\<lambda>updated.
       let updatedRaw = (case OnChainJob_MarshalBinary updated of Inl _ \<Rightarrow> [] | Inr raw \<Rightarrow> raw)
       in tryE (accountNativeValue H e t {obj_ID jobObject, obj_ID messageObject} 0 0) (\<lambda>(created, outbound, consumed).
          Inr \<lparr>ex_Consumed = consumed @ [obj_ID jobObject, obj_ID messageObject],
               ex_Created = created @ [jobObject\<lparr>obj_Version := obj_Version jobObject + 1, obj_Data := updatedRaw\<rparr>],
               ex_Outbound = outbound, ex_TxID = tx_ID H t\<rparr>)))))))"

definition jobLockedValue :: "OnChainJob \<Rightarrow> u64 result" where
  "jobLockedValue record' =
     foldE (\<lambda>locked (_ :: Assignment). if overflows locked (jb_CollateralRequired (oj_Job record')) then Inl ErrOverflow
                      else Inr (locked + jb_CollateralRequired (oj_Job record')))
       (oj_Escrow record') (oj_Assignments record')"

definition add_return :: "amounts \<Rightarrow> accountid \<times> u64 \<Rightarrow> amounts result" where
  "add_return amounts = (\<lambda>(provider, value).
     if overflows (amount_at amounts provider) value then Inl ErrOverflow else Inr (add_amount provider value amounts))"

definition settlement_output :: "hashfun \<Rightarrow> Engine \<Rightarrow> Transaction \<Rightarrow> amounts \<Rightarrow> u64 \<times> Object list \<times> OutboundOutput list \<Rightarrow>
    nat \<times> accountid \<Rightarrow> (u64 \<times> Object list \<times> OutboundOutput list) result" where
  "settlement_output H e t amounts = (\<lambda>(acc, placed) (i, account).
     let amount = amount_at amounts account
     in if overflows acc amount then Inl ErrOverflow
        else tryE (NewCoinOutput account (en_NativeToken e) amount) (\<lambda>spec.
          tryAs ErrShard (ShardForAccount (router e) account) (\<lambda>destination.
          Inr (acc + amount, place H (tx_ID H t) (tx_ShardID t) destination (computeReceiptIndex + 1 + of_nat i) spec placed))))"

definition settlementOutputs :: "hashfun \<Rightarrow> Engine \<Rightarrow> Transaction \<Rightarrow> OnChainJob \<Rightarrow> OnChainSettlement \<Rightarrow>
    (Object list \<times> OutboundOutput list \<times> u64) result" where
  "settlementOutputs H e t record' settlement =
     (let amounts = foldl (\<lambda>m (provider, value). add_amount provider value m) [] (st_Payments settlement)
      in tryE (foldE add_return amounts (st_CollateralReturns settlement)) (\<lambda>amounts.
         if overflows (st_Refund settlement) (st_SlashReward settlement) then Inl ErrOverflow
         else
           let ownerAmount = st_Refund settlement + st_SlashReward settlement;
               amounts = (if 0 < ownerAmount then add_amount (jb_Owner (oj_Job record')) ownerAmount amounts else amounts);
               ids = sort (map fst amounts)
           in tryE (foldE (settlement_output H e t amounts) (0, [], []) (enumerate 0 ids)) (\<lambda>(acc, created, outbound).
              Inr (created, outbound, acc))))"

text \<open>The end of a job, by settlement or by expiry: its coins, the fee, and the receipt.\<close>

definition close_job :: "hashfun \<Rightarrow> Engine \<Rightarrow> Transaction \<Rightarrow> Object \<Rightarrow> OnChainJob \<Rightarrow> OnChainSettlement \<Rightarrow> SettlementReceipt \<Rightarrow>
    ExecResult result" where
  "close_job H e t jobObject record' settlement receipt =
     tryE (jobLockedValue record') (\<lambda>locked.
     tryAs ErrMarketEscrow (settlementOutputs H e t record' settlement) (\<lambda>(generated, generatedOutbound, generatedAmount).
     if generatedAmount \<noteq> locked then Inl ErrMarketEscrow
     else tryE (accountNativeValue H e t {obj_ID jobObject} locked generatedAmount) (\<lambda>(created, outbound, consumed).
       Inr \<lparr>ex_Consumed = consumed @ [obj_ID jobObject],
            ex_Created = created @ generated @
              [\<lparr>obj_ID = ObjectIDForShard H (tx_ID H t) computeReceiptIndex (tx_ShardID t), obj_Version = 1, obj_Owner = 0,
                obj_Kind = KindSystem, obj_Data = SettlementReceipt_MarshalBinary receipt\<rparr>],
            ex_Outbound = outbound @ generatedOutbound, ex_TxID = tx_ID H t\<rparr>)))"

definition executeComputeFinalize :: "hashfun \<Rightarrow> Engine \<Rightarrow> Transaction \<Rightarrow> byte list \<Rightarrow> bool \<Rightarrow> ExecResult result" where
  "executeComputeFinalize H e t payload majority =
     tryE (ParseJobRef payload) (\<lambda>ref.
     tryE (owned_witness t ref KindComputeJob) (\<lambda>jobObject.
     tryAs ErrOwnership (ParseOnChainJob (obj_Data jobObject)) (\<lambda>record'.
     if jb_Owner (oj_Job record') \<noteq> tx_Sender t then Inl ErrOwnership
     else tryE (if majority then ResolveReplicatedMajority record'
                else if jb_Verification (oj_Job record') \<noteq> VerificationReplicated then Inl ErrMarketVerification
                else FinalizeOnChain record'
                  \<lparr>ve_DeterministicReplay = False, ve_ProofVerified = False, ve_AttestationVerified = False,
                   ve_ChallengePassed = False, ve_ClientApproved = False\<rparr>) (\<lambda>(_, settlement).
       close_job H e t jobObject record' settlement
         \<lparr>sr_JobID = oj_ID record', sr_ResultRoot = st_ResultRoot settlement, sr_Payments = st_Payments settlement,
          sr_Refund = st_Refund settlement, sr_Slashed = st_SlashedCollateral settlement,
          sr_SlashReward = st_SlashReward settlement, sr_Expired = False\<rparr>))))"

definition executeComputeExpire :: "hashfun \<Rightarrow> Engine \<Rightarrow> Transaction \<Rightarrow> byte list \<Rightarrow> ExecResult result" where
  "executeComputeExpire H e t payload =
     tryE (ParseJobRef payload) (\<lambda>ref.
     tryE (owned_witness t ref KindComputeJob) (\<lambda>jobObject.
     tryE (ParseOnChainJob (obj_Data jobObject)) (\<lambda>record'.
     tryE (ExpireOnChain record' (en_Height e)) (\<lambda>(_, refund, collateral).
     close_job H e t jobObject record'
       \<lparr>st_JobID = oj_ID record', st_ResultRoot = 0, st_Payments = [], st_Refund = refund, st_CollateralReturns = collateral,
        st_SlashedCollateral = [], st_SlashReward = 0\<rparr>
       \<lparr>sr_JobID = oj_ID record', sr_ResultRoot = 0, sr_Payments = [], sr_Refund = refund, sr_Slashed = [], sr_SlashReward = 0,
        sr_Expired = True\<rparr>))))"

definition executeCompute :: "hashfun \<Rightarrow> Engine \<Rightarrow> Transaction \<Rightarrow> Operation \<Rightarrow> ExecResult result" where
  "executeCompute H e t op =
     (if op_Kind op = OpComputeOffer then executeComputeOffer H e t (op_Payload op)
      else if op_Kind op = OpComputeJob then executeComputeJob H e t (op_Payload op)
      else if op_Kind op = OpComputeAccept then executeComputeAccept H e t (op_Payload op)
      else if op_Kind op = OpComputeResult then executeComputeResult H e t (op_Payload op)
      else if op_Kind op = OpComputeIngestAssignment then executeComputeIngestAssignment H e t (op_Payload op)
      else if op_Kind op = OpComputeIngestResult then executeComputeIngestResult H e t (op_Payload op)
      else if op_Kind op = OpComputeFinalize then executeComputeFinalize H e t (op_Payload op) False
      else if op_Kind op = OpComputeResolveReplicated then executeComputeFinalize H e t (op_Payload op) True
      else if op_Kind op = OpComputeExpire then executeComputeExpire H e t (op_Payload op)
      else Inl ErrUnsupportedOperation)"

subsection \<open>Lending\<close>

definition requireLendingSameShard :: "Engine \<Rightarrow> Terms \<Rightarrow> unit result" where
  "requireLendingSameShard e terms =
     (let r = \<lparr>rt_ShardCount = if en_ShardCount e = 0 then 1 else en_ShardCount e\<rparr>
      in tryAs ErrShard (ShardForAccount r (tm_Lender terms)) (\<lambda>lenderShard.
         tryAs ErrShard (ShardForAccount r (tm_Borrower terms)) (\<lambda>borrowerShard.
         if lenderShard \<noteq> borrowerShard then Inl ErrShard else Inr ())))"

definition requireLendingChangeOnly :: "Transaction \<Rightarrow> unit result" where
  "requireLendingChangeOnly t =
     checkE (\<lambda>out. if os_Owner out \<noteq> tx_Sender t \<or> os_Kind out \<noteq> KindCoin then Inl ErrLendingState else Inr ()) (tx_Outputs t)"

definition lendingPayout :: "hashfun \<Rightarrow> Engine \<Rightarrow> Transaction \<Rightarrow> accountid \<Rightarrow> u64 \<Rightarrow> u32 \<Rightarrow> Object result" where
  "lendingPayout H e t owner amount index =
     (if amount = 0 then Inl ErrLendingState
      else
        let count = (if en_ShardCount e = 0 then 1 else en_ShardCount e)
        in if AccountShard owner count \<noteq> tx_ShardID t then Inl ErrShard
           else tryE (NewCoinOutputAtHeight owner (en_NativeToken e) amount (en_Height e)) (\<lambda>spec.
             Inr \<lparr>obj_ID = ObjectIDForShard H (tx_ID H t) index (tx_ShardID t), obj_Version = 1, obj_Owner = owner,
                  obj_Kind = KindCoin, obj_Data = os_Data spec\<rparr>))"

definition addLendingValue :: "u64 \<Rightarrow> u64 \<Rightarrow> u64 result" where
  "addLendingValue a b = (if overflows a b then Inl ErrOverflow else Inr (a + b))"

definition executeLoanOffer :: "hashfun \<Rightarrow> Engine \<Rightarrow> Transaction \<Rightarrow> byte list \<Rightarrow> ExecResult result" where
  "executeLoanOffer H e t payload =
     tryAs ErrLendingState (ParseTerms payload) (\<lambda>terms.
     if tm_Lender terms \<noteq> tx_Sender t then Inl ErrLendingState
     else if 0 < en_Height e \<and> tm_MaturityHeight terms \<le> en_Height e then Inl ErrLendingState
     else tryE (requireLendingSameShard e terms) (\<lambda>_.
       tryE (requireLendingChangeOnly t) (\<lambda>_.
       tryE (accountNativeValue H e t {} 0 (tm_Principal terms)) (\<lambda>(created, outbound, consumed).
       tryE (Terms_MarshalBinary terms) (\<lambda>raw.
       Inr \<lparr>ex_Consumed = consumed,
            ex_Created = created @
              [\<lparr>obj_ID = ObjectIDForShard H (tx_ID H t) OfferObjectIndex (tx_ShardID t), obj_Version = 1,
                obj_Owner = tm_Lender terms, obj_Kind = KindLoanOffer, obj_Data = raw\<rparr>],
            ex_Outbound = outbound, ex_TxID = tx_ID H t\<rparr>)))))"

definition executeLoanCancel :: "hashfun \<Rightarrow> Engine \<Rightarrow> Transaction \<Rightarrow> byte list \<Rightarrow> ExecResult result" where
  "executeLoanCancel H e t payload =
     tryE (ParseLoanRef payload) (\<lambda>ref.
     case witnessByID t ref of
       None \<Rightarrow> Inl ErrLendingState
     | Some w \<Rightarrow>
         let offer = wit_Object w
         in if obj_Kind offer \<noteq> KindLoanOffer \<or> obj_Owner offer \<noteq> tx_Sender t then Inl ErrLendingState
            else tryAs ErrLendingState (ParseTerms (obj_Data offer)) (\<lambda>terms.
              if tm_Lender terms \<noteq> tx_Sender t then Inl ErrLendingState
              else tryE (requireLendingChangeOnly t) (\<lambda>_.
                tryE (accountNativeValue H e t {obj_ID offer} (tm_Principal terms) (tm_Principal terms)) (\<lambda>(created, outbound, consumed).
                tryE (lendingPayout H e t (tm_Lender terms) (tm_Principal terms) PayoutObjectIndex) (\<lambda>payout.
                Inr \<lparr>ex_Consumed = consumed @ [obj_ID offer], ex_Created = created @ [payout], ex_Outbound = outbound,
                     ex_TxID = tx_ID H t\<rparr>)))))"

definition executeLoanAccept :: "hashfun \<Rightarrow> Engine \<Rightarrow> Transaction \<Rightarrow> byte list \<Rightarrow> ExecResult result" where
  "executeLoanAccept H e t payload =
     (if en_Height e = 0 then Inl ErrLendingState
      else tryE (ParseLoanRef payload) (\<lambda>ref.
     case witnessByID t ref of
       None \<Rightarrow> Inl ErrLendingState
     | Some w \<Rightarrow>
         let offer = wit_Object w
         in if obj_Kind offer \<noteq> KindLoanOffer then Inl ErrLendingState
            else tryAs ErrLendingState (ParseTerms (obj_Data offer)) (\<lambda>terms.
              if tm_Borrower terms \<noteq> tx_Sender t \<or> obj_Owner offer \<noteq> tm_Lender terms \<or> tm_MaturityHeight terms \<le> en_Height e
              then Inl ErrLendingState
              else tryE (requireLendingSameShard e terms) (\<lambda>_.
                tryE (requireLendingChangeOnly t) (\<lambda>_.
                tryE (addLendingValue (tm_Principal terms) (tm_Collateral terms)) (\<lambda>locked.
                tryE (accountNativeValue H e t {obj_ID offer} (tm_Principal terms) locked) (\<lambda>(created, outbound, consumed).
                tryE (lendingPayout H e t (tm_Borrower terms) (tm_Principal terms) PayoutObjectIndex) (\<lambda>principal.
                tryE (Loan_MarshalBinary \<lparr>ln_OfferObject = obj_ID offer, ln_Terms = terms, ln_AcceptedHeight = en_Height e\<rparr>) (\<lambda>raw.
                Inr \<lparr>ex_Consumed = consumed @ [obj_ID offer],
                     ex_Created = created @
                       [principal,
                        \<lparr>obj_ID = ObjectIDForShard H (tx_ID H t) LoanObjectIndex (tx_ShardID t), obj_Version = 1,
                         obj_Owner = tm_Borrower terms, obj_Kind = KindLoan, obj_Data = raw\<rparr>],
                     ex_Outbound = outbound, ex_TxID = tx_ID H t\<rparr>)))))))))"

definition executeLoanRepay :: "hashfun \<Rightarrow> Engine \<Rightarrow> Transaction \<Rightarrow> byte list \<Rightarrow> ExecResult result" where
  "executeLoanRepay H e t payload =
     tryE (ParseLoanRef payload) (\<lambda>ref.
     case witnessByID t ref of
       None \<Rightarrow> Inl ErrLendingState
     | Some w \<Rightarrow>
         let loanObject = wit_Object w
         in if obj_Kind loanObject \<noteq> KindLoan \<or> obj_Owner loanObject \<noteq> tx_Sender t then Inl ErrLendingState
            else tryAs ErrLendingState (ParseLoan (obj_Data loanObject)) (\<lambda>loan.
              let terms = ln_Terms loan
              in if tm_Borrower terms \<noteq> tx_Sender t then Inl ErrLendingState
                 else tryE (requireLendingChangeOnly t) (\<lambda>_.
                   tryE (RepaymentDue terms) (\<lambda>due.
                   tryE (addLendingValue due (tm_Collateral terms)) (\<lambda>settlement.
                   tryE (accountNativeValue H e t {obj_ID loanObject} (tm_Collateral terms) settlement) (\<lambda>(created, outbound, consumed).
                   tryE (lendingPayout H e t (tm_Lender terms) due PayoutObjectIndex) (\<lambda>lenderPayout.
                   tryE (if 0 < tm_Collateral terms then
                           tryE (lendingPayout H e t (tm_Borrower terms) (tm_Collateral terms) (PayoutObjectIndex + 1)) (\<lambda>c. Inr [c])
                         else Inr []) (\<lambda>collateral.
                   Inr \<lparr>ex_Consumed = consumed @ [obj_ID loanObject], ex_Created = created @ [lenderPayout] @ collateral,
                        ex_Outbound = outbound, ex_TxID = tx_ID H t\<rparr>))))))))"

definition executeLoanDefault :: "hashfun \<Rightarrow> Engine \<Rightarrow> Transaction \<Rightarrow> byte list \<Rightarrow> ExecResult result" where
  "executeLoanDefault H e t payload =
     (if en_Height e = 0 then Inl ErrLendingState
      else tryE (ParseLoanRef payload) (\<lambda>ref.
     case witnessByID t ref of
       None \<Rightarrow> Inl ErrLendingState
     | Some w \<Rightarrow>
         let loanObject = wit_Object w
         in if obj_Kind loanObject \<noteq> KindLoan then Inl ErrLendingState
            else tryAs ErrLendingState (ParseLoan (obj_Data loanObject)) (\<lambda>loan.
              let terms = ln_Terms loan
              in if tm_Lender terms \<noteq> tx_Sender t \<or> en_Height e \<le> tm_MaturityHeight terms then Inl ErrLendingState
                 else tryE (requireLendingChangeOnly t) (\<lambda>_.
                   tryE (accountNativeValue H e t {obj_ID loanObject} (tm_Collateral terms) (tm_Collateral terms))
                     (\<lambda>(created, outbound, consumed).
                   tryE (if 0 < tm_Collateral terms then
                           tryE (lendingPayout H e t (tm_Lender terms) (tm_Collateral terms) PayoutObjectIndex) (\<lambda>c. Inr [c])
                         else Inr []) (\<lambda>collateral.
                   Inr \<lparr>ex_Consumed = consumed @ [obj_ID loanObject], ex_Created = created @ collateral, ex_Outbound = outbound,
                        ex_TxID = tx_ID H t\<rparr>))))))"

definition executeLending :: "hashfun \<Rightarrow> Engine \<Rightarrow> Transaction \<Rightarrow> Operation \<Rightarrow> ExecResult result" where
  "executeLending H e t op =
     (if op_Kind op = OpLoanOffer then executeLoanOffer H e t (op_Payload op)
      else if op_Kind op = OpLoanCancel then executeLoanCancel H e t (op_Payload op)
      else if op_Kind op = OpLoanAccept then executeLoanAccept H e t (op_Payload op)
      else if op_Kind op = OpLoanRepay then executeLoanRepay H e t (op_Payload op)
      else if op_Kind op = OpLoanDefault then executeLoanDefault H e t (op_Payload op)
      else Inl ErrUnsupportedOperation)"

subsection \<open>Lending between shards\<close>

definition crossLendingShards :: "Engine \<Rightarrow> Terms \<Rightarrow> (u32 \<times> u32) result" where
  "crossLendingShards e terms =
     (if en_ShardCount e < 2 then Inl ErrShard
      else
        let lenderShard = AccountShard (tm_Lender terms) (en_ShardCount e);
            borrowerShard = AccountShard (tm_Borrower terms) (en_ShardCount e)
        in if lenderShard = borrowerShard then Inl ErrShard else Inr (lenderShard, borrowerShard))"

text \<open>The guard \<open>MaturityHeight > math.MaxUint64 - CrossShardSettlementGraceBlocks\<close>, and the end of the grace period.\<close>

definition no_grace :: "Terms \<Rightarrow> bool" where
  "no_grace terms \<longleftrightarrow> - 1 - CrossShardSettlementGraceBlocks < tm_MaturityHeight terms"

definition executeCrossLoanOffer :: "hashfun \<Rightarrow> Engine \<Rightarrow> Transaction \<Rightarrow> byte list \<Rightarrow> ExecResult result" where
  "executeCrossLoanOffer H e t payload =
     (if en_Height e = 0 then Inl ErrLendingState
      else tryAs ErrLendingState (ParseTerms payload) (\<lambda>terms.
        if tm_Lender terms \<noteq> tx_Sender t \<or> tm_MaturityHeight terms \<le> en_Height e \<or> no_grace terms then Inl ErrLendingState
        else tryAs ErrShard (crossLendingShards e terms) (\<lambda>(lenderShard, borrowerShard).
          if lenderShard \<noteq> tx_ShardID t \<or> lenderShard = borrowerShard then Inl ErrShard
          else tryE (requireLendingChangeOnly t) (\<lambda>_.
            tryE (accountNativeValue H e t {} 0 (tm_Principal terms)) (\<lambda>(created, outbound, consumed).
            let txID = tx_ID H t; offerID = ObjectIDForShard H txID CrossOfferMessageIndex borrowerShard
            in tryE (CrossOffer_MarshalBinary \<lparr>co_OfferObject = offerID, co_LenderShard = lenderShard, co_BorrowerShard = borrowerShard,
                       co_OfferedHeight = en_Height e, co_Terms = terms\<rparr>) (\<lambda>raw.
               Inr \<lparr>ex_Consumed = consumed, ex_Created = created,
                    ex_Outbound = outbound @
                      [\<lparr>ob_DestinationShard = borrowerShard, ob_OutputIndex = CrossOfferMessageIndex,
                        ob_Output = \<lparr>os_Owner = tm_Borrower terms, os_Kind = KindCrossLoanOffer, os_Data = raw\<rparr>\<rparr>],
                    ex_TxID = txID\<rparr>))))))"

definition executeCrossLoanAccept :: "hashfun \<Rightarrow> Engine \<Rightarrow> Transaction \<Rightarrow> byte list \<Rightarrow> ExecResult result" where
  "executeCrossLoanAccept H e t payload =
     (if en_Height e = 0 then Inl ErrLendingState
      else tryE (ParseLoanRef payload) (\<lambda>ref.
     case witnessByID t ref of
       None \<Rightarrow> Inl ErrLendingState
     | Some w \<Rightarrow>
         let offerObject = wit_Object w
         in if obj_Kind offerObject \<noteq> KindCrossLoanOffer \<or> obj_Owner offerObject \<noteq> tx_Sender t then Inl ErrLendingState
            else tryAs ErrLendingState (ParseCrossOffer (obj_Data offerObject)) (\<lambda>offer.
              let terms = co_Terms offer
              in if co_OfferObject offer \<noteq> obj_ID offerObject \<or> tm_Borrower terms \<noteq> tx_Sender t \<or> tm_MaturityHeight terms \<le> en_Height e
                 then Inl ErrLendingState
                 else tryAs ErrShard (crossLendingShards e terms) (\<lambda>(lenderShard, borrowerShard).
                   if lenderShard \<noteq> co_LenderShard offer \<or> borrowerShard \<noteq> co_BorrowerShard offer \<or> borrowerShard \<noteq> tx_ShardID t \<or>
                      lenderShard = borrowerShard then Inl ErrShard
                   else tryE (requireLendingChangeOnly t) (\<lambda>_.
                     tryE (addLendingValue (tm_Principal terms) (tm_Collateral terms)) (\<lambda>internalOut.
                     tryE (accountNativeValue H e t {obj_ID offerObject} (tm_Principal terms) internalOut) (\<lambda>(created, outbound, consumed).
                     let txID = tx_ID H t;
                         activationID = ObjectIDForShard H txID CrossActivationObjectIndex borrowerShard;
                         acceptanceID = ObjectIDForShard H txID CrossAcceptanceMessageIndex lenderShard
                     in tryE (CrossAcceptance_MarshalBinary \<lparr>ca_OfferObject = co_OfferObject offer, ca_ActivationObject = activationID,
                                ca_LenderShard = lenderShard, ca_BorrowerShard = borrowerShard, ca_AcceptedHeight = en_Height e,
                                ca_Terms = terms\<rparr>) (\<lambda>acceptanceRaw.
                        tryE (CrossActivation_MarshalBinary \<lparr>cv_AcceptanceObject = acceptanceID, cv_LenderShard = lenderShard,
                                cv_BorrowerShard = borrowerShard, cv_AcceptedHeight = en_Height e, cv_Terms = terms\<rparr>) (\<lambda>activationRaw.
                        tryE (lendingPayout H e t (tm_Borrower terms) (tm_Principal terms) CrossPrincipalObjectIndex) (\<lambda>principal.
                        Inr \<lparr>ex_Consumed = consumed @ [obj_ID offerObject],
                             ex_Created = created @
                               [principal,
                                \<lparr>obj_ID = activationID, obj_Version = 1, obj_Owner = tm_Borrower terms,
                                 obj_Kind = KindCrossLoanActivation, obj_Data = activationRaw\<rparr>],
                             ex_Outbound = outbound @
                               [\<lparr>ob_DestinationShard = lenderShard, ob_OutputIndex = CrossAcceptanceMessageIndex,
                                 ob_Output = \<lparr>os_Owner = tm_Lender terms, os_Kind = KindCrossLoanAcceptance, os_Data = acceptanceRaw\<rparr>\<rparr>],
                             ex_TxID = txID\<rparr>))))))))))"

definition executeCrossLoanRepay :: "hashfun \<Rightarrow> Engine \<Rightarrow> Transaction \<Rightarrow> byte list \<Rightarrow> ExecResult result" where
  "executeCrossLoanRepay H e t payload =
     (if en_Height e = 0 then Inl ErrLendingState
      else tryE (ParseLoanRef payload) (\<lambda>ref.
     case witnessByID t ref of
       None \<Rightarrow> Inl ErrLendingState
     | Some w \<Rightarrow>
         let activationObject = wit_Object w
         in if obj_Kind activationObject \<noteq> KindCrossLoanActivation \<or> obj_Owner activationObject \<noteq> tx_Sender t then Inl ErrLendingState
            else tryAs ErrLendingState (ParseCrossActivation (obj_Data activationObject)) (\<lambda>activation.
              let terms = cv_Terms activation
              in if tm_Borrower terms \<noteq> tx_Sender t \<or> tm_MaturityHeight terms < en_Height e then Inl ErrLendingState
                 else tryAs ErrShard (crossLendingShards e terms) (\<lambda>(lenderShard, borrowerShard).
                   if lenderShard \<noteq> cv_LenderShard activation \<or> borrowerShard \<noteq> cv_BorrowerShard activation \<or>
                      borrowerShard \<noteq> tx_ShardID t \<or> lenderShard = borrowerShard then Inl ErrShard
                   else tryE (RepaymentDue terms) (\<lambda>due.
                     tryE (requireLendingChangeOnly t) (\<lambda>_.
                     tryE (accountNativeValue H e t {obj_ID activationObject} 0 due) (\<lambda>(created, outbound, consumed).
                     tryE (Terms_Hash H terms) (\<lambda>termsHash.
                     tryE (CrossRepayment_MarshalBinary \<lparr>cr_AcceptanceObject = cv_AcceptanceObject activation,
                             cr_ActivationObject = obj_ID activationObject, cr_LenderShard = lenderShard,
                             cr_BorrowerShard = borrowerShard, cr_Amount = due, cr_PaidHeight = en_Height e,
                             cr_TermsHash = termsHash\<rparr>) (\<lambda>raw.
                     Inr \<lparr>ex_Consumed = consumed @ [obj_ID activationObject], ex_Created = created,
                          ex_Outbound = outbound @
                            [\<lparr>ob_DestinationShard = lenderShard, ob_OutputIndex = CrossRepaymentMessageIndex,
                              ob_Output = \<lparr>os_Owner = tm_Lender terms, os_Kind = KindCrossLoanRepayment, os_Data = raw\<rparr>\<rparr>],
                          ex_TxID = tx_ID H t\<rparr>)))))))))"

definition executeCrossLoanSettle :: "hashfun \<Rightarrow> Engine \<Rightarrow> Transaction \<Rightarrow> ExecResult result" where
  "executeCrossLoanSettle H e t =
     (case witnessByKind t KindCrossLoanAcceptance of
        None \<Rightarrow> Inl ErrLendingState
      | Some aw \<Rightarrow>
        (case witnessByKind t KindCrossLoanRepayment of
           None \<Rightarrow> Inl ErrLendingState
         | Some rw \<Rightarrow>
           let acceptanceObject = wit_Object aw; repaymentObject = wit_Object rw
           in tryAs ErrLendingState (ParseCrossAcceptance (obj_Data acceptanceObject)) (\<lambda>acceptance.
              let terms = ca_Terms acceptance
              in if obj_Owner acceptanceObject \<noteq> tm_Lender terms then Inl ErrLendingState
                 else tryAs ErrLendingState (ParseCrossRepayment (obj_Data repaymentObject)) (\<lambda>repayment.
                   if obj_Owner repaymentObject \<noteq> tm_Lender terms then Inl ErrLendingState
                   else tryAs ErrShard (crossLendingShards e terms) (\<lambda>(lenderShard, borrowerShard).
                     if lenderShard \<noteq> tx_ShardID t \<or> lenderShard \<noteq> ca_LenderShard acceptance \<or>
                        borrowerShard \<noteq> ca_BorrowerShard acceptance \<or> lenderShard = borrowerShard then Inl ErrShard
                     else tryE (RepaymentDue terms) (\<lambda>due.
                       tryE (Terms_Hash H terms) (\<lambda>termsHash.
                       if cr_AcceptanceObject repayment \<noteq> obj_ID acceptanceObject \<or>
                          cr_ActivationObject repayment \<noteq> ca_ActivationObject acceptance \<or> cr_LenderShard repayment \<noteq> lenderShard \<or>
                          cr_BorrowerShard repayment \<noteq> borrowerShard \<or> cr_Amount repayment \<noteq> due \<or>
                          tm_MaturityHeight terms < cr_PaidHeight repayment \<or> cr_TermsHash repayment \<noteq> termsHash
                       then Inl ErrLendingState
                       else tryE (requireLendingChangeOnly t) (\<lambda>_.
                         tryE (addLendingValue (tm_Collateral terms) due) (\<lambda>internal.
                         tryE (accountNativeValue H e t {obj_ID acceptanceObject, obj_ID repaymentObject} internal internal)
                           (\<lambda>(created, outbound, consumed).
                         tryE (lendingPayout H e t (tm_Lender terms) due PayoutObjectIndex) (\<lambda>lenderPayout.
                         tryE (if 0 < tm_Collateral terms then
                                 tryE (NewCoinOutputAtHeight (tm_Borrower terms) (en_NativeToken e) (tm_Collateral terms) (en_Height e)) (\<lambda>spec.
                                 Inr [\<lparr>ob_DestinationShard = borrowerShard, ob_OutputIndex = CrossCollateralReturnIndex, ob_Output = spec\<rparr>])
                               else Inr []) (\<lambda>collateral.
                         Inr \<lparr>ex_Consumed = consumed @ [obj_ID acceptanceObject, obj_ID repaymentObject],
                              ex_Created = created @ [lenderPayout], ex_Outbound = outbound @ collateral,
                              ex_TxID = tx_ID H t\<rparr>))))))))))))"

definition executeCrossLoanDefault :: "hashfun \<Rightarrow> Engine \<Rightarrow> Transaction \<Rightarrow> byte list \<Rightarrow> ExecResult result" where
  "executeCrossLoanDefault H e t payload =
     tryE (ParseLoanRef payload) (\<lambda>ref.
     case witnessByID t ref of
       None \<Rightarrow> Inl ErrLendingState
     | Some w \<Rightarrow>
         let acceptanceObject = wit_Object w
         in if obj_Kind acceptanceObject \<noteq> KindCrossLoanAcceptance \<or> obj_Owner acceptanceObject \<noteq> tx_Sender t then Inl ErrLendingState
            else tryAs ErrLendingState (ParseCrossAcceptance (obj_Data acceptanceObject)) (\<lambda>acceptance.
              let terms = ca_Terms acceptance
              in if tm_Lender terms \<noteq> tx_Sender t \<or> no_grace terms \<or>
                    en_Height e \<le> tm_MaturityHeight terms + CrossShardSettlementGraceBlocks then Inl ErrLendingState
                 else tryAs ErrShard (crossLendingShards e terms) (\<lambda>(lenderShard, borrowerShard).
                   if lenderShard \<noteq> tx_ShardID t \<or> lenderShard \<noteq> ca_LenderShard acceptance \<or> borrowerShard \<noteq> ca_BorrowerShard acceptance
                   then Inl ErrShard
                   else tryE (requireLendingChangeOnly t) (\<lambda>_.
                     tryE (accountNativeValue H e t {obj_ID acceptanceObject} (tm_Collateral terms) (tm_Collateral terms))
                       (\<lambda>(created, outbound, consumed).
                     tryE (if 0 < tm_Collateral terms then
                             tryE (lendingPayout H e t (tm_Lender terms) (tm_Collateral terms) PayoutObjectIndex) (\<lambda>c. Inr [c])
                           else Inr []) (\<lambda>collateral.
                     Inr \<lparr>ex_Consumed = consumed @ [obj_ID acceptanceObject], ex_Created = created @ collateral,
                          ex_Outbound = outbound, ex_TxID = tx_ID H t\<rparr>))))))"

definition executeCrossLoanExpire :: "hashfun \<Rightarrow> Engine \<Rightarrow> Transaction \<Rightarrow> byte list \<Rightarrow> ExecResult result" where
  "executeCrossLoanExpire H e t payload =
     tryE (ParseLoanRef payload) (\<lambda>ref.
     case witnessByID t ref of
       None \<Rightarrow> Inl ErrLendingState
     | Some w \<Rightarrow>
         let offerObject = wit_Object w
         in if obj_Kind offerObject \<noteq> KindCrossLoanOffer then Inl ErrLendingState
            else tryAs ErrLendingState (ParseCrossOffer (obj_Data offerObject)) (\<lambda>offer.
              let terms = co_Terms offer
              in if no_grace terms \<or> en_Height e \<le> tm_MaturityHeight terms + CrossShardSettlementGraceBlocks then Inl ErrLendingState
                 else tryAs ErrShard (crossLendingShards e terms) (\<lambda>(lenderShard, borrowerShard).
                   if borrowerShard \<noteq> tx_ShardID t \<or> lenderShard \<noteq> co_LenderShard offer \<or> borrowerShard \<noteq> co_BorrowerShard offer
                   then Inl ErrShard
                   else tryE (requireLendingChangeOnly t) (\<lambda>_.
                     tryE (accountNativeValue H e t {obj_ID offerObject} (tm_Principal terms) (tm_Principal terms))
                       (\<lambda>(created, outbound, consumed).
                     tryE (NewCoinOutputAtHeight (tm_Lender terms) (en_NativeToken e) (tm_Principal terms) (en_Height e)) (\<lambda>spec.
                     Inr \<lparr>ex_Consumed = consumed @ [obj_ID offerObject], ex_Created = created,
                          ex_Outbound = outbound @
                            [\<lparr>ob_DestinationShard = lenderShard, ob_OutputIndex = CrossPrincipalReturnIndex, ob_Output = spec\<rparr>],
                          ex_TxID = tx_ID H t\<rparr>))))))"

definition executeCrossShardLending :: "hashfun \<Rightarrow> Engine \<Rightarrow> Transaction \<Rightarrow> Operation \<Rightarrow> ExecResult result" where
  "executeCrossShardLending H e t op =
     (if op_Kind op = OpCrossLoanOffer then executeCrossLoanOffer H e t (op_Payload op)
      else if op_Kind op = OpCrossLoanAccept then executeCrossLoanAccept H e t (op_Payload op)
      else if op_Kind op = OpCrossLoanRepay then executeCrossLoanRepay H e t (op_Payload op)
      else if op_Kind op = OpCrossLoanSettle then executeCrossLoanSettle H e t
      else if op_Kind op = OpCrossLoanDefault then executeCrossLoanDefault H e t (op_Payload op)
      else if op_Kind op = OpCrossLoanExpire then executeCrossLoanExpire H e t (op_Payload op)
      else Inl ErrUnsupportedOperation)"

subsection \<open>Device credentials\<close>

definition deviceOwnerOnShard :: "Engine \<Rightarrow> accountid \<Rightarrow> u32 \<Rightarrow> bool" where
  "deviceOwnerOnShard e owner shard \<longleftrightarrow> AccountShard owner (if en_ShardCount e = 0 then 1 else en_ShardCount e) = shard"

definition executeDeviceCredentialRegister :: "crypto \<Rightarrow> Engine \<Rightarrow> Transaction \<Rightarrow> byte list \<Rightarrow> ExecResult result" where
  "executeDeviceCredentialRegister C e t payload =
     (if en_Height e = 0 \<or> \<not> deviceOwnerOnShard e (tx_Sender t) (tx_ShardID t) then Inl ErrCredential
      else tryAs ErrCredential (ParseSpec C payload) (\<lambda>spec.
        if sp_ExpiresHeight spec \<noteq> 0 \<and> sp_ExpiresHeight spec \<le> en_Height e then Inl ErrCredential
        else tryE (feeOnlyOutputs (sha256 C) e t) (\<lambda>(created, consumed).
          tryE (Credential_MarshalBinary C
                 \<lparr>cd_Owner = tx_Sender t, cd_DevicePublicKey = sp_DevicePublicKey spec, cd_Capabilities = sp_Capabilities spec,
                  cd_IssuedHeight = en_Height e, cd_ExpiresHeight = sp_ExpiresHeight spec, cd_Sequence = 1\<rparr>) (\<lambda>raw.
          Inr \<lparr>ex_Consumed = consumed,
               ex_Created = created @
                 [\<lparr>obj_ID = ObjectIDForShard (sha256 C) (tx_ID (sha256 C) t) credential_ObjectIndex (tx_ShardID t), obj_Version = 1,
                   obj_Owner = tx_Sender t, obj_Kind = KindDeviceCredential, obj_Data = raw\<rparr>],
               ex_Outbound = [], ex_TxID = tx_ID (sha256 C) t\<rparr>))))"

definition executeDeviceCredentialUpdate :: "crypto \<Rightarrow> Engine \<Rightarrow> Transaction \<Rightarrow> byte list \<Rightarrow> ExecResult result" where
  "executeDeviceCredentialUpdate C e t payload =
     (if en_Height e = 0 \<or> \<not> deviceOwnerOnShard e (tx_Sender t) (tx_ShardID t) then Inl ErrCredential
      else tryAs ErrCredential (ParseUpdate C payload) (\<lambda>update.
        let spec = up_Spec update
        in if sp_ExpiresHeight spec \<noteq> 0 \<and> sp_ExpiresHeight spec \<le> en_Height e then Inl ErrCredential
           else case witnessByID t (up_ObjectID update) of
             None \<Rightarrow> Inl ErrCredential
           | Some w \<Rightarrow>
               let obj = wit_Object w
               in if obj_Kind obj \<noteq> KindDeviceCredential \<or> obj_Owner obj \<noteq> tx_Sender t then Inl ErrCredential
                  else tryAs ErrCredential (ParseCredential C (obj_Data obj)) (\<lambda>current.
                    if cd_Owner current \<noteq> tx_Sender t \<or> cd_Sequence current = - 1 then Inl ErrCredential
                    else tryE (feeOnlyOutputsExcluding (sha256 C) e t (obj_ID obj) []) (\<lambda>(created, consumed).
                      tryE (Credential_MarshalBinary C
                             \<lparr>cd_Owner = tx_Sender t, cd_DevicePublicKey = sp_DevicePublicKey spec,
                              cd_Capabilities = sp_Capabilities spec, cd_IssuedHeight = en_Height e,
                              cd_ExpiresHeight = sp_ExpiresHeight spec, cd_Sequence = cd_Sequence current + 1\<rparr>) (\<lambda>raw.
                      Inr \<lparr>ex_Consumed = consumed @ [obj_ID obj],
                           ex_Created = created @ [obj\<lparr>obj_Version := obj_Version obj + 1, obj_Data := raw\<rparr>],
                           ex_Outbound = [], ex_TxID = tx_ID (sha256 C) t\<rparr>)))))"

definition executeDeviceCredentialRevoke :: "crypto \<Rightarrow> Engine \<Rightarrow> Transaction \<Rightarrow> byte list \<Rightarrow> ExecResult result" where
  "executeDeviceCredentialRevoke C e t payload =
     tryAs ErrCredential (ParseCredentialRef payload) (\<lambda>ref.
     if \<not> deviceOwnerOnShard e (tx_Sender t) (tx_ShardID t) then Inl ErrCredential
     else case witnessByID t ref of
       None \<Rightarrow> Inl ErrCredential
     | Some w \<Rightarrow>
         let obj = wit_Object w
         in if obj_Kind obj \<noteq> KindDeviceCredential \<or> obj_Owner obj \<noteq> tx_Sender t then Inl ErrCredential
            else tryAs ErrCredential (ParseCredential C (obj_Data obj)) (\<lambda>current.
              if cd_Owner current \<noteq> tx_Sender t then Inl ErrCredential
              else tryE (feeOnlyOutputsExcluding (sha256 C) e t (obj_ID obj) []) (\<lambda>(created, consumed).
                Inr \<lparr>ex_Consumed = consumed @ [obj_ID obj], ex_Created = created, ex_Outbound = [], ex_TxID = tx_ID (sha256 C) t\<rparr>)))"

definition executeDeviceCredential :: "crypto \<Rightarrow> Engine \<Rightarrow> Transaction \<Rightarrow> Operation \<Rightarrow> ExecResult result" where
  "executeDeviceCredential C e t op =
     (if op_Kind op = OpDeviceCredentialRegister then executeDeviceCredentialRegister C e t (op_Payload op)
      else if op_Kind op = OpDeviceCredentialUpdate then executeDeviceCredentialUpdate C e t (op_Payload op)
      else if op_Kind op = OpDeviceCredentialRevoke then executeDeviceCredentialRevoke C e t (op_Payload op)
      else Inl ErrUnsupportedOperation)"

subsection \<open>Dispatch\<close>

definition executeExtended :: "crypto \<Rightarrow> Runtime \<Rightarrow> Engine \<Rightarrow> Transaction \<Rightarrow> Operation \<Rightarrow> ExecResult result" where
  "executeExtended C S e t op =
     (let H = sha256 C; k = op_Kind op
      in if k = OpDeployContract then executeDeployContract H S e t (op_Payload op)
         else if k = OpContractCall then executeContractCall H S e t (op_Payload op)
         else if k = OpMintToken then executeMintToken H e t (op_Payload op)
         else if k = OpBurnToken then executeBurnToken H e t (op_Payload op)
         else if k \<in> {OpComputeOffer, OpComputeJob, OpComputeResult, OpComputeAccept, OpComputeIngestAssignment,
                      OpComputeIngestResult, OpComputeFinalize, OpComputeResolveReplicated, OpComputeExpire}
         then executeCompute H e t op
         else if k \<in> {OpLoanOffer, OpLoanCancel, OpLoanAccept, OpLoanRepay, OpLoanDefault} then executeLending H e t op
         else if k \<in> {OpDeviceCredentialRegister, OpDeviceCredentialUpdate, OpDeviceCredentialRevoke}
         then executeDeviceCredential C e t op
         else if k \<in> {OpCrossLoanOffer, OpCrossLoanAccept, OpCrossLoanRepay, OpCrossLoanSettle, OpCrossLoanDefault, OpCrossLoanExpire}
         then executeCrossShardLending H e t op
         else Inl ErrUnsupportedOperation)"

definition Execute :: "crypto \<Rightarrow> Runtime \<Rightarrow> key_order \<Rightarrow> Engine \<Rightarrow> Transaction \<Rightarrow> ExecResult result" where
  "Execute C S ord e t =
     tryE (VerifyForNetwork C (en_Network e) t) (\<lambda>_.
     tryE (VerifyWitnesses (sha256 C) t) (\<lambda>_.
     let e = (if en_ShardCount e = 0 then e\<lparr>en_ShardCount := 1\<rparr> else e)
     in tryAs ErrShard (ShardForAccount (router e) (tx_Sender t)) (\<lambda>senderShard.
        if tx_ShardID t \<noteq> senderShard then Inl ErrShard
        else tryE (checkE (\<lambda>inp. tryAs ErrShard (ShardForObject (router e) (in_ObjectID inp)) (\<lambda>inputShard.
                     if inputShard \<noteq> tx_ShardID t then Inl ErrShard else Inr ())) (tx_Inputs t)) (\<lambda>_.
          case tx_Operations t of
            [op] \<Rightarrow>
              if op_Kind op = OpTransfer then executeTransfer (sha256 C) ord e t
              else if op_Kind op = OpCreateToken then executeCreateToken (sha256 C) e t (op_Payload op)
              else executeExtended C S e t op
          | _ \<Rightarrow> Inl ErrUnsupportedOperation))))"

end
