(* ===== verification/Value.thy ===== *)
theory Value
  imports Handlers
begin

text \<open>
  The value an object holds and how the shared loops of the handlers keep it.

  The balance of an object for a token is the amount of a coin of that token, less the recorded supply if the object is the
  definition of that token, and for the native token also what a loan, a loan message, a compute offer, a job or an
  assignment message holds in escrow: for a job its escrow and one collateral for each assignment of its record. \<open>conserves\<close> is what every handler is shown to keep: the coins belong to the
  sender, and the balances before and after differ by the fee alone.
\<close>

subsection \<open>Balances\<close>

definition coin_part :: "tokenid \<Rightarrow> byte list \<Rightarrow> int" where
  "coin_part token data =
     (case ParseCoin data of Inl _ \<Rightarrow> 0 | Inr c \<Rightarrow> if coin_Token c = token then int (unat (coin_Amount c)) else 0)"

definition supply_part :: "tokenid \<Rightarrow> byte list \<Rightarrow> int" where
  "supply_part token data =
     (case ParseDefinition data of Inl _ \<Rightarrow> 0 | Inr d \<Rightarrow> if td_TokenID d = token then int (unat (td_CurrentSupply d)) else 0)"

definition held :: "'a result \<Rightarrow> ('a \<Rightarrow> int) \<Rightarrow> int" where
  "held m f = (case m of Inl _ \<Rightarrow> 0 | Inr x \<Rightarrow> f x)"

definition job_value :: "OnChainJob \<Rightarrow> int" where
  "job_value j = int (unat (oj_Escrow j)) + int (length (oj_Assignments j)) * int (unat (jb_CollateralRequired (oj_Job j)))"

text \<open>
  The record of a job as \<open>MarshalBinary\<close> writes it. \<open>ParseOnChainJob\<close> reads the same format but refuses more than 1024
  assignments or results, which \<open>MarshalBinary\<close> writes all the same. What a job holds is what its record says, whether
  or not the node can read it back.
\<close>

definition job_record :: "byte list \<Rightarrow> OnChainJob result" where
  "job_record data =
     tryE (r_Fixed32 data) (\<lambda>(jobID, r).
     tryE (r_Bytes 1048576 r) (\<lambda>(jobBytes, r).
     tryE (ParseJob jobBytes) (\<lambda>job.
     tryE (r_U64 r) (\<lambda>(escrow, r).
     tryE (r_U8 r) (\<lambda>(status, r).
     tryE (r_U32 r) (\<lambda>(assignmentCount, r).
     tryE (r_many (unat assignmentCount) (read_sub ParseAssignment) r) (\<lambda>(assignments, r).
     tryE (r_U32 r) (\<lambda>(resultCount, r).
     tryE (r_many (unat resultCount) (read_sub ParseResult) r) (\<lambda>(results, r).
     tryE (r_Done r) (\<lambda>_.
     Inr \<lparr>oj_ID = jobID, oj_Job = job, oj_Escrow = escrow, oj_Status = status, oj_Assignments = assignments,
          oj_Results = results\<rparr>))))))))))"

lemma job_record_parsed: "ParseOnChainJob data = Inr j \<Longrightarrow> job_record data = Inr j"
  by (auto simp: ParseOnChainJob_def job_record_def Let_def split: if_splits)

lemma job_record_back:
  assumes "onchain_valid j" "length (oj_Assignments j) < 2 ^ 32" "length (oj_Results j) < 2 ^ 32"
  shows "job_record (OnChainJob_encode j) = Inr (normal_job j)"
proof -
  note e = onchain_entries_back [OF assms(1)]
  have c: "unat (of_nat (length (oj_Assignments j)) :: u32) = length (oj_Assignments j)"
      "unat (of_nat (length (oj_Results j)) :: u32) = length (oj_Results j)"
    using assms(2,3) by (auto intro!: unat_of_nat_small)
  show ?thesis
    using e(1) e(2) [of "[]"] e(3,4) c by (cases j) (simp add: job_record_def OnChainJob_encode_def normal_job_def)
qed

definition escrow_part :: "kind \<Rightarrow> byte list \<Rightarrow> int" where
  "escrow_part kind data =
     (if kind = KindComputeOffer then held (ParseOffer data) (\<lambda>o'. int (unat (oc_Collateral o')))
      else if kind = KindComputeJob then held (job_record data) job_value
      else if kind = KindComputeAssignment then
        held (ParseAssignmentMessage data) (\<lambda>m. int (unat (jb_CollateralRequired (am_Job m))))
      else if kind = KindLoanOffer then held (ParseTerms data) (\<lambda>t. int (unat (tm_Principal t)))
      else if kind = KindLoan then held (ParseLoan data) (\<lambda>l. int (unat (tm_Collateral (ln_Terms l))))
      else if kind = KindCrossLoanOffer then held (ParseCrossOffer data) (\<lambda>m. int (unat (tm_Principal (co_Terms m))))
      else if kind = KindCrossLoanAcceptance then
        held (ParseCrossAcceptance data) (\<lambda>m. int (unat (tm_Collateral (ca_Terms m))))
      else if kind = KindCrossLoanRepayment then held (ParseCrossRepayment data) (\<lambda>m. int (unat (cr_Amount m)))
      else 0)"

definition balance :: "tokenid \<Rightarrow> tokenid \<Rightarrow> kind \<Rightarrow> byte list \<Rightarrow> int" where
  "balance native token kind data =
     (if kind = KindCoin then coin_part token data
      else if kind = KindTokenDefinition then - supply_part token data
      else if token = native then escrow_part kind data else 0)"

definition objects_balance :: "tokenid \<Rightarrow> tokenid \<Rightarrow> Object list \<Rightarrow> int" where
  "objects_balance native token objs = sum_list (map (\<lambda>o'. balance native token (obj_Kind o') (obj_Data o')) objs)"

definition outbound_balance :: "tokenid \<Rightarrow> tokenid \<Rightarrow> OutboundOutput list \<Rightarrow> int" where
  "outbound_balance native token outs =
     sum_list (map (\<lambda>x. balance native token (os_Kind (ob_Output x)) (os_Data (ob_Output x))) outs)"

definition rest :: "objectid set \<Rightarrow> Witness list \<Rightarrow> Object list" where
  "rest X ws = filter (\<lambda>o'. obj_ID o' \<notin> X) (map wit_Object ws)"

definition native_value :: "tokenid \<Rightarrow> tokenid \<Rightarrow> u64 \<Rightarrow> int" where
  "native_value native token v = (if token = native then int (unat v) else 0)"

lemma balance_sums [simp]:
  "objects_balance n k [] = 0" "objects_balance n k (x # xs) = balance n k (obj_Kind x) (obj_Data x) + objects_balance n k xs"
  "objects_balance n k (xs @ ys) = objects_balance n k xs + objects_balance n k ys"
  "outbound_balance n k [] = 0"
  "outbound_balance n k (y # zs) = balance n k (os_Kind (ob_Output y)) (os_Data (ob_Output y)) + outbound_balance n k zs"
  "outbound_balance n k (zs @ zs') = outbound_balance n k zs + outbound_balance n k zs'"
  by (simp_all add: objects_balance_def outbound_balance_def)

lemma rest_simps [simp]: "rest X [] = []" "rest X (w # ws) = (if obj_ID (wit_Object w) \<in> X then rest X ws else wit_Object w # rest X ws)"
  by (simp_all add: rest_def)

lemma balance_coin: "ParseCoin d = Inr c \<Longrightarrow> balance n k KindCoin d = (if coin_Token c = k then int (unat (coin_Amount c)) else 0)"
  by (simp add: balance_def coin_part_def)

lemma balance_definition:
  "ParseDefinition d = Inr x \<Longrightarrow> balance n k KindTokenDefinition d = (if td_TokenID x = k then - int (unat (td_CurrentSupply x)) else 0)"
  by (simp add: balance_def supply_part_def)

lemma balance_escrow:
  "ParseOffer d = Inr a \<Longrightarrow> balance n k KindComputeOffer d = native_value n k (oc_Collateral a)"
  "ParseOnChainJob d = Inr b \<Longrightarrow> balance n k KindComputeJob d = (if k = n then job_value b else 0)"
  "ParseAssignmentMessage d = Inr c \<Longrightarrow> balance n k KindComputeAssignment d = native_value n k (jb_CollateralRequired (am_Job c))"
  "ParseTerms d = Inr f \<Longrightarrow> balance n k KindLoanOffer d = native_value n k (tm_Principal f)"
  "ParseLoan d = Inr g \<Longrightarrow> balance n k KindLoan d = native_value n k (tm_Collateral (ln_Terms g))"
  "ParseCrossOffer d = Inr h \<Longrightarrow> balance n k KindCrossLoanOffer d = native_value n k (tm_Principal (co_Terms h))"
  "ParseCrossAcceptance d = Inr i \<Longrightarrow> balance n k KindCrossLoanAcceptance d = native_value n k (tm_Collateral (ca_Terms i))"
  "ParseCrossRepayment d = Inr j \<Longrightarrow> balance n k KindCrossLoanRepayment d = native_value n k (cr_Amount j)"
  by (simp_all add: balance_def escrow_part_def native_value_def held_def job_record_parsed)

lemma balance_none [simp]:
  "balance n k KindContract d = 0" "balance n k KindContractState d = 0" "balance n k KindComputeResult d = 0"
  "balance n k KindSystem d = 0" "balance n k KindDeviceCredential d = 0" "balance n k KindCrossLoanActivation d = 0"
  "balance n k KindUnknown d = 0"
  by (simp_all add: balance_def escrow_part_def)

lemma native_value_add: "\<not> overflows a b \<Longrightarrow> native_value n k (a + b) = native_value n k a + native_value n k b"
  by (simp add: native_value_def unat_add_no_overflow)

lemma native_value_zero [simp]: "native_value n k 0 = 0"
  by (simp add: native_value_def)

lemma balance_native_coin: "ParseCoin d = Inr c \<Longrightarrow> coin_Token c = n \<Longrightarrow> balance n k KindCoin d = native_value n k (coin_Amount c)"
  by (auto simp: balance_coin native_value_def)

subsection \<open>The shared loops\<close>

definition placed_balance :: "tokenid \<Rightarrow> tokenid \<Rightarrow> Object list \<times> OutboundOutput list \<Rightarrow> int" where
  "placed_balance n k p = objects_balance n k (fst p) + outbound_balance n k (snd p)"

lemma placed_balance_pair [simp]: "placed_balance n k (a, b) = objects_balance n k a + outbound_balance n k b"
  by (simp add: placed_balance_def)

lemma place_balance: "placed_balance n k (place H i s d x spec p) = placed_balance n k p + balance n k (os_Kind spec) (os_Data spec)"
  by (cases p) (simp add: place_def output_object_def)

lemma place_pair: "place H i s d x spec p = (a, b) \<Longrightarrow>
    objects_balance n k a + outbound_balance n k b = placed_balance n k p + balance n k (os_Kind spec) (os_Data spec)"
  using place_balance [of n k H i s d x spec p] by simp

lemma native_coin_ok:
  assumes "native_coin e d acc = Inr acc'"
  shows "native_value (en_NativeToken e) k acc' = native_value (en_NativeToken e) k acc + balance (en_NativeToken e) k KindCoin d"
  using assms by (auto simp: native_coin_def native_value_add balance_native_coin)

lemma account_inputs:
  assumes "foldE (account_input e s X) (av, cons) ws = Inr (av', cons')"
  shows "native_value (en_NativeToken e) k av' = native_value (en_NativeToken e) k av + objects_balance (en_NativeToken e) k (rest X ws) \<and>
    cons' = cons @ map obj_ID (rest X ws) \<and> (\<forall>o' \<in> set (rest X ws). obj_Owner o' = s)"
  using assms
proof (induction ws arbitrary: av cons)
  case (Cons w ws)
  show ?case
  proof (cases "obj_ID (wit_Object w) \<in> X")
    case True
    then show ?thesis using Cons.IH [of av cons] Cons.prems by (simp add: account_input_def)
  next
    case False
    then obtain av1 where n: "native_coin e (obj_Data (wit_Object w)) av = Inr av1" and k: "obj_Kind (wit_Object w) = KindCoin" "obj_Owner (wit_Object w) = s"
      and r: "foldE (account_input e s X) (av1, cons @ [obj_ID (wit_Object w)]) ws = Inr (av', cons')"
      using Cons.prems by (auto simp: account_input_def Let_def)
    then show ?thesis using False native_coin_ok [OF n, of k] Cons.IH [OF r] by simp
  qed
qed simp

lemma account_output_iff:
  "account_output H e t (req, p) (i, spec) = Inr q \<longleftrightarrow> os_Kind spec = KindCoin \<and> (\<exists>req1 d. native_coin e (os_Data spec) req = Inr req1 \<and>
     ShardForAccount (router e) (os_Owner spec) = Inr d \<and> q = (req1, place H (tx_ID H t) (tx_ShardID t) d (of_nat i) spec p))"
  by (auto simp: account_output_def)

lemma account_outputs:
  assumes "foldE (account_output H e t) (req, p) specs = Inr (req', p')"
  shows "native_value (en_NativeToken e) k req' + placed_balance (en_NativeToken e) k p =
    native_value (en_NativeToken e) k req + placed_balance (en_NativeToken e) k p'"
  using assms
proof (induction specs arbitrary: req p)
  case (Cons x specs)
  obtain i spec where x: "x = (i, spec)" by (cases x)
  obtain req1 d where n: "native_coin e (os_Data spec) req = Inr req1" and kd: "os_Kind spec = KindCoin"
    and r: "foldE (account_output H e t) (req1, place H (tx_ID H t) (tx_ShardID t) d (of_nat i) spec p) specs = Inr (req', p')"
    using Cons.prems by (auto simp: account_output_iff x)
  show ?case using native_coin_ok [OF n, of k] Cons.IH [OF r] by (simp add: place_balance kd)
qed simp

lemma account_conserves:
  assumes "accountNativeValue H e t X a b = Inr (created, outbound, consumed)"
  shows "native_value (en_NativeToken e) k a + objects_balance (en_NativeToken e) k (rest X (tx_Witnesses t)) =
      native_value (en_NativeToken e) k b + objects_balance (en_NativeToken e) k created +
      outbound_balance (en_NativeToken e) k outbound + native_value (en_NativeToken e) k (tx_Fee t)"
    and "consumed = map obj_ID (rest X (tx_Witnesses t))" "\<forall>o' \<in> set (rest X (tx_Witnesses t)). obj_Owner o' = tx_Sender t"
proof -
  obtain av req where i: "foldE (account_input e (tx_Sender t) X) (a, []) (tx_Witnesses t) = Inr (av, consumed)"
    and o: "foldE (account_output H e t) (b, [], []) (enumerate 0 (tx_Outputs t)) = Inr (req, created, outbound)"
    and no: "\<not> overflows req (tx_Fee t)" and eq: "av = req + tx_Fee t"
    using assms by (auto simp: accountNativeValue_def)
  show "native_value (en_NativeToken e) k a + objects_balance (en_NativeToken e) k (rest X (tx_Witnesses t)) =
      native_value (en_NativeToken e) k b + objects_balance (en_NativeToken e) k created +
      outbound_balance (en_NativeToken e) k outbound + native_value (en_NativeToken e) k (tx_Fee t)"
    using account_inputs [OF i, of k] account_outputs [OF o, of k] native_value_add [OF no, of "en_NativeToken e" k] by (simp add: eq)
  show "consumed = map obj_ID (rest X (tx_Witnesses t))" "\<forall>o' \<in> set (rest X (tx_Witnesses t)). obj_Owner o' = tx_Sender t"
    using account_inputs [OF i] by simp_all
qed

lemma stamp_balance:
  assumes "stampCoinOutput spec h = Inr s" "ParseCoin (os_Data spec) = Inr c" "os_Kind spec = KindCoin"
  shows "os_Kind s = KindCoin" "balance n k KindCoin (os_Data s) = balance n k KindCoin (os_Data spec)" "os_Owner s = os_Owner spec"
proof -
  have s: "s = spec\<lparr>os_Data := Coin_MarshalBinary (c\<lparr>coin_CreatedHeight := h\<rparr>)\<rparr>"
    using assms by (auto simp: stampCoinOutput_def)
  have "coin_valid (c\<lparr>coin_CreatedHeight := h\<rparr>)" using CoinWire.parse_valid [OF assms(2)] by (simp add: coin_valid_def)
  then have "ParseCoin (os_Data s) = Inr (c\<lparr>coin_CreatedHeight := h\<rparr>)" by (simp add: s)
  then show "balance n k KindCoin (os_Data s) = balance n k KindCoin (os_Data spec)"
    by (simp add: balance_coin assms(2))
  show "os_Kind s = KindCoin" "os_Owner s = os_Owner spec" using assms(3) by (simp_all add: s)
qed

lemma fee_inputs:
  assumes "foldE (fee_input e s X) (av, cons) ws = Inr (av', cons')"
  shows "native_value (en_NativeToken e) k av' = native_value (en_NativeToken e) k av + objects_balance (en_NativeToken e) k (rest X ws) \<and>
    cons' = cons @ map obj_ID (rest X ws) \<and> (\<forall>o' \<in> set (rest X ws). obj_Owner o' = s)"
  using assms
proof (induction ws arbitrary: av cons)
  case (Cons w ws)
  show ?case
  proof (cases "obj_ID (wit_Object w) \<in> X")
    case True
    then show ?thesis using Cons.IH [of av cons] Cons.prems by (simp add: fee_input_def)
  next
    case False
    then obtain c where c: "ParseCoin (obj_Data (wit_Object w)) = Inr c" "coin_Token c = en_NativeToken e"
      and no: "\<not> overflows av (coin_Amount c)" and k: "obj_Kind (wit_Object w) = KindCoin" "obj_Owner (wit_Object w) = s"
      and r: "foldE (fee_input e s X) (av + coin_Amount c, cons @ [obj_ID (wit_Object w)]) ws = Inr (av', cons')"
      using Cons.prems by (auto simp: fee_input_def Let_def)
    then show ?thesis using False Cons.IH [OF r] native_value_add [OF no] balance_native_coin [OF c] by simp
  qed
qed simp

lemma fee_outputs:
  assumes "foldE (fee_output H e t) (out, cr) specs = Inr (out', cr')"
  shows "native_value (en_NativeToken e) k out' + objects_balance (en_NativeToken e) k cr =
    native_value (en_NativeToken e) k out + objects_balance (en_NativeToken e) k cr'"
  using assms
proof (induction specs arbitrary: out cr)
  case (Cons x specs)
  obtain i spec where x: "x = (i, spec)" by (cases x)
  obtain c s where c: "ParseCoin (os_Data spec) = Inr c" "coin_Token c = en_NativeToken e"
    and no: "\<not> overflows out (coin_Amount c)" and kd: "os_Kind spec = KindCoin" and s: "stampCoinOutput spec (en_Height e) = Inr s"
    and r: "foldE (fee_output H e t) (out + coin_Amount c, cr @ [output_object H (tx_ID H t) (of_nat i) (tx_ShardID t) s]) specs = Inr (out', cr')"
    using Cons.prems by (auto simp: fee_output_def x)
  show ?case
    using Cons.IH [OF r] native_value_add [OF no] balance_native_coin [OF c] stamp_balance [OF s c(1) kd]
    by (simp add: output_object_def)
qed simp

lemma fee_conserves:
  assumes "feeOnlyOutputsExcluding H e t x as = Inr (created, consumed)"
  defines "X \<equiv> (if \<not> IsZero32 x then {x} else {}) \<union> set (map ac_ObjectID as)"
  shows "objects_balance (en_NativeToken e) k (rest X (tx_Witnesses t)) =
      objects_balance (en_NativeToken e) k created + native_value (en_NativeToken e) k (tx_Fee t)"
    and "consumed = map obj_ID (rest X (tx_Witnesses t))" "\<forall>o' \<in> set (rest X (tx_Witnesses t)). obj_Owner o' = tx_Sender t"
proof -
  obtain av req where i: "foldE (fee_input e (tx_Sender t) X) (0, []) (tx_Witnesses t) = Inr (av, consumed)"
    and o: "foldE (fee_output H e t) (0, []) (enumerate 0 (tx_Outputs t)) = Inr (req, created)"
    and no: "\<not> overflows req (tx_Fee t)" and eq: "av = req + tx_Fee t"
    using assms(1) by (auto simp: feeOnlyOutputsExcluding_def X_def Let_def)
  show "objects_balance (en_NativeToken e) k (rest X (tx_Witnesses t)) =
      objects_balance (en_NativeToken e) k created + native_value (en_NativeToken e) k (tx_Fee t)"
    using fee_inputs [OF i, of k] fee_outputs [OF o, of k] native_value_add [OF no, of "en_NativeToken e" k] by (simp add: eq)
  show "consumed = map obj_ID (rest X (tx_Witnesses t))" "\<forall>o' \<in> set (rest X (tx_Witnesses t)). obj_Owner o' = tx_Sender t"
    using fee_inputs [OF i] by simp_all
qed

subsection \<open>What a handler must keep\<close>

text \<open>
  The coins among the witnesses belong to the sender, every witness with a balance is consumed, and the balances of all
  witnesses are those of the created and sent outputs and of the fee.
\<close>

definition owned_coins :: "Transaction \<Rightarrow> bool" where
  "owned_coins t \<longleftrightarrow> (\<forall>w \<in> set (tx_Witnesses t). obj_Kind (wit_Object w) = KindCoin \<longrightarrow> obj_Owner (wit_Object w) = tx_Sender t)"

definition conserves :: "Engine \<Rightarrow> Transaction \<Rightarrow> ExecResult \<Rightarrow> bool" where
  "conserves e t r \<longleftrightarrow> owned_coins t \<and> (\<forall>token.
     (\<forall>w \<in> set (tx_Witnesses t). balance (en_NativeToken e) token (obj_Kind (wit_Object w)) (obj_Data (wit_Object w)) \<noteq> 0 \<longrightarrow>
        obj_ID (wit_Object w) \<in> set (ex_Consumed r)) \<and>
     objects_balance (en_NativeToken e) token (map wit_Object (tx_Witnesses t)) =
       objects_balance (en_NativeToken e) token (ex_Created r) + outbound_balance (en_NativeToken e) token (ex_Outbound r) +
       native_value (en_NativeToken e) token (tx_Fee t))"

definition distinct_witnesses :: "Transaction \<Rightarrow> bool" where
  "distinct_witnesses t \<longleftrightarrow> distinct (map (\<lambda>w. obj_ID (wit_Object w)) (tx_Witnesses t))"

lemma rest_empty [simp]: "rest {} ws = map wit_Object ws"
  by (simp add: rest_def)

lemma rest_insert:
  assumes "distinct (map (\<lambda>w. obj_ID (wit_Object w)) ws)" "w \<in> set ws" "obj_ID (wit_Object w) \<notin> X"
  shows "objects_balance n k (rest X ws) =
    balance n k (obj_Kind (wit_Object w)) (obj_Data (wit_Object w)) + objects_balance n k (rest (insert (obj_ID (wit_Object w)) X) ws)"
  using assms
proof (induction ws)
  case (Cons v ws)
  show ?case
  proof (cases "v = w")
    case True
    have "obj_ID (wit_Object u) \<noteq> obj_ID (wit_Object w)" if "u \<in> set ws" for u
      using Cons.prems(1) True imageI [OF that, of "\<lambda>w. obj_ID (wit_Object w)"] by auto
    then have "rest (insert (obj_ID (wit_Object w)) X) ws = rest X ws"
      by (auto simp: rest_def intro!: filter_cong)
    then show ?thesis using True Cons.prems(3) by simp
  next
    case False
    then have "w \<in> set ws" using Cons.prems(2) by simp
    moreover from this have "obj_ID (wit_Object v) \<noteq> obj_ID (wit_Object w)"
      using Cons.prems(1) imageI [of w "set ws" "\<lambda>w. obj_ID (wit_Object w)"] by auto
    ultimately show ?thesis using Cons by simp
  qed
qed simp

lemma in_rest: "w \<in> set ws \<Longrightarrow> obj_ID (wit_Object w) \<notin> X \<Longrightarrow> obj_ID (wit_Object w) \<in> obj_ID ` set (rest X ws)"
  by (auto simp: rest_def)

lemma owned_coinsI:
  assumes "\<forall>o' \<in> set (rest X (tx_Witnesses t)). obj_Owner o' = tx_Sender t"
    and "\<And>w. w \<in> set (tx_Witnesses t) \<Longrightarrow> obj_ID (wit_Object w) \<in> X \<Longrightarrow> obj_Kind (wit_Object w) \<noteq> KindCoin"
  shows "owned_coins t"
  unfolding owned_coins_def
proof (intro ballI impI)
  fix w assume w: "w \<in> set (tx_Witnesses t)" "obj_Kind (wit_Object w) = KindCoin"
  then have "wit_Object w \<in> set (rest X (tx_Witnesses t))" using assms(2) [OF w(1)] by (auto simp: rest_def)
  then show "obj_Owner (wit_Object w) = tx_Sender t" using assms(1) by blast
qed

lemma same_witness:
  assumes "distinct_witnesses t" "w \<in> set (tx_Witnesses t)" "v \<in> set (tx_Witnesses t)" "obj_ID (wit_Object v) = obj_ID (wit_Object w)"
  shows "v = w"
  using assms by (auto simp: distinct_witnesses_def distinct_map dest: inj_onD)

lemma distinct_witnesses_kind:
  assumes "distinct_witnesses t" "w \<in> set (tx_Witnesses t)" "v \<in> set (tx_Witnesses t)"
    "obj_Kind (wit_Object w) \<noteq> obj_Kind (wit_Object v)"
  shows "obj_ID (wit_Object w) \<noteq> obj_ID (wit_Object v)"
  using assms by (auto simp: distinct_witnesses_def distinct_map dest: inj_onD)

lemma witnessByID_Some: "witnessByID t oid = Some w \<Longrightarrow> w \<in> set (tx_Witnesses t) \<and> obj_ID (wit_Object w) = oid"
  by (auto simp: witnessByID_def find_Some_iff)

lemma witnessByKind_Some: "witnessByKind t kd = Some w \<Longrightarrow> w \<in> set (tx_Witnesses t) \<and> obj_Kind (wit_Object w) = kd"
proof -
  assume "witnessByKind t kd = Some w"
  then have "filter (\<lambda>w. obj_Kind (wit_Object w) = kd) (tx_Witnesses t) = [w]"
    by (simp add: witnessByKind_def split: list.splits)
  then have "w \<in> set (filter (\<lambda>w. obj_Kind (wit_Object w) = kd) (tx_Witnesses t))" by simp
  then show ?thesis by simp
qed

text \<open>The three shapes in which the handlers use \<open>accountNativeValue\<close>: no, one or two witnesses set aside.\<close>

lemma conserves_plain:
  assumes "accountNativeValue H e t {} 0 b = Inr (created, outbound, consumed)"
    and "\<And>k. objects_balance (en_NativeToken e) k cs + outbound_balance (en_NativeToken e) k os = native_value (en_NativeToken e) k b"
    and "ex_Consumed r = consumed" "ex_Created r = created @ cs" "ex_Outbound r = outbound @ os"
  shows "conserves e t r"
  unfolding conserves_def using account_conserves [OF assms(1)] assms(2-) by (auto simp: owned_coins_def algebra_simps)

lemma conserves_one:
  assumes "accountNativeValue H e t {obj_ID (wit_Object w)} a b = Inr (created, outbound, consumed)"
    and "distinct_witnesses t" "w \<in> set (tx_Witnesses t)" "obj_Kind (wit_Object w) \<noteq> KindCoin"
    and "\<And>k. balance (en_NativeToken e) k (obj_Kind (wit_Object w)) (obj_Data (wit_Object w)) = native_value (en_NativeToken e) k a"
    and "\<And>k. objects_balance (en_NativeToken e) k cs + outbound_balance (en_NativeToken e) k os = native_value (en_NativeToken e) k b"
    and "ex_Consumed r = consumed @ [obj_ID (wit_Object w)]" "ex_Created r = created @ cs" "ex_Outbound r = outbound @ os"
  shows "conserves e t r"
  unfolding conserves_def
proof (intro allI conjI ballI impI)
  show "owned_coins t"
    using same_witness [OF assms(2,3)] assms(4) by (intro owned_coinsI [OF account_conserves(3) [OF assms(1)]]) auto
next
  fix k
  have "objects_balance (en_NativeToken e) k (map wit_Object (tx_Witnesses t)) = native_value (en_NativeToken e) k a +
      objects_balance (en_NativeToken e) k (rest {obj_ID (wit_Object w)} (tx_Witnesses t))"
    using rest_insert [of "tx_Witnesses t" w "{}"] assms(2,3,5) by (simp add: distinct_witnesses_def)
  then show "objects_balance (en_NativeToken e) k (map wit_Object (tx_Witnesses t)) = objects_balance (en_NativeToken e) k (ex_Created r) +
      outbound_balance (en_NativeToken e) k (ex_Outbound r) + native_value (en_NativeToken e) k (tx_Fee t)"
    using account_conserves(1) [OF assms(1), of k] assms(8,9) assms(6) [of k] by simp
next
  fix k v assume "v \<in> set (tx_Witnesses t)"
  then show "obj_ID (wit_Object v) \<in> set (ex_Consumed r)"
    using account_conserves(2) [OF assms(1)] assms(7) in_rest [of v "tx_Witnesses t" "{obj_ID (wit_Object w)}"] by auto
qed

lemma conserves_two:
  assumes "accountNativeValue H e t {obj_ID (wit_Object w), obj_ID (wit_Object v)} a b = Inr (created, outbound, consumed)"
    and "distinct_witnesses t" "w \<in> set (tx_Witnesses t)" "v \<in> set (tx_Witnesses t)" "obj_ID (wit_Object w) \<noteq> obj_ID (wit_Object v)"
      "obj_Kind (wit_Object w) \<noteq> KindCoin" "obj_Kind (wit_Object v) \<noteq> KindCoin"
    and "\<And>k. balance (en_NativeToken e) k (obj_Kind (wit_Object w)) (obj_Data (wit_Object w)) +
      balance (en_NativeToken e) k (obj_Kind (wit_Object v)) (obj_Data (wit_Object v)) + native_value (en_NativeToken e) k b =
      native_value (en_NativeToken e) k a + objects_balance (en_NativeToken e) k cs + outbound_balance (en_NativeToken e) k os"
    and "ex_Consumed r = consumed @ [obj_ID (wit_Object w), obj_ID (wit_Object v)]" "ex_Created r = created @ cs" "ex_Outbound r = outbound @ os"
  shows "conserves e t r"
  unfolding conserves_def
proof (intro allI conjI ballI impI)
  show "owned_coins t"
    using same_witness [OF assms(2,3)] same_witness [OF assms(2,4)] assms(6,7)
    by (intro owned_coinsI [OF account_conserves(3) [OF assms(1)]]) auto
next
  fix k
  have "objects_balance (en_NativeToken e) k (map wit_Object (tx_Witnesses t)) =
      balance (en_NativeToken e) k (obj_Kind (wit_Object w)) (obj_Data (wit_Object w)) +
      balance (en_NativeToken e) k (obj_Kind (wit_Object v)) (obj_Data (wit_Object v)) +
      objects_balance (en_NativeToken e) k (rest {obj_ID (wit_Object w), obj_ID (wit_Object v)} (tx_Witnesses t))"
    using rest_insert [of "tx_Witnesses t" v "{}"] rest_insert [of "tx_Witnesses t" w "{obj_ID (wit_Object v)}"] assms(2-5)
    by (simp add: distinct_witnesses_def)
  then show "objects_balance (en_NativeToken e) k (map wit_Object (tx_Witnesses t)) = objects_balance (en_NativeToken e) k (ex_Created r) +
      outbound_balance (en_NativeToken e) k (ex_Outbound r) + native_value (en_NativeToken e) k (tx_Fee t)"
    using account_conserves(1) [OF assms(1), of k] assms(10,11) assms(8) [of k] by simp
next
  fix k u assume "u \<in> set (tx_Witnesses t)"
  then show "obj_ID (wit_Object u) \<in> set (ex_Consumed r)"
    using account_conserves(2) [OF assms(1)] assms(9) in_rest [of u "tx_Witnesses t" "{obj_ID (wit_Object w), obj_ID (wit_Object v)}"] by auto
qed

end
