(* ===== verification/ValueLending.thy ===== *)
theory ValueLending
  imports Value
begin

text \<open>
  Each lending handler of \<open>extended_lending.go\<close> and \<open>extended_cross_lending.go\<close> keeps the balances.
\<close>

subsection \<open>Lending\<close>

lemma coin_output_balance:
  assumes "NewCoinOutputAtHeight owner token amount h = Inr spec"
  shows "os_Kind spec = KindCoin" "balance n k KindCoin (os_Data spec) = (if token = k then int (unat amount) else 0)"
  using assms by (simp_all add: NewCoinOutputAtHeight_iff balance_coin coin_valid_def)

lemma native_output_balance:
  assumes "NewCoinOutputAtHeight owner n amount h = Inr spec"
  shows "balance n k (os_Kind spec) (os_Data spec) = native_value n k amount"
  using coin_output_balance [OF assms] by (auto simp: native_value_def)

lemma payout_balance:
  assumes "lendingPayout H e t owner amount index = Inr x"
  shows "balance (en_NativeToken e) k (obj_Kind x) (obj_Data x) = native_value (en_NativeToken e) k amount"
  using assms native_output_balance [of owner "en_NativeToken e" amount "en_Height e" _ k]
  by (auto simp: lendingPayout_def Let_def NewCoinOutputAtHeight_iff split: if_splits)

lemma payout_if_balance:
  assumes "(if 0 < v then tryE (lendingPayout H e t owner v index) (\<lambda>c. Inr [c]) else Inr []) = Inr xs"
  shows "objects_balance (en_NativeToken e) k xs = native_value (en_NativeToken e) k v"
  using assms by (auto simp: payout_balance word_gt_0 split: if_splits)

lemma addLendingValue_ok:
  "addLendingValue a b = Inr c \<Longrightarrow> native_value n k c = native_value n k a + native_value n k b"
  by (auto simp: addLendingValue_def native_value_add split: if_splits)

lemma balance_lending_encoded:
  "Terms_MarshalBinary a = Inr raw \<Longrightarrow> balance n k KindLoanOffer raw = native_value n k (tm_Principal a)"
  "Loan_MarshalBinary b = Inr raw \<Longrightarrow> balance n k KindLoan raw = native_value n k (tm_Collateral (ln_Terms b))"
  "CrossOffer_MarshalBinary c = Inr raw \<Longrightarrow> balance n k KindCrossLoanOffer raw = native_value n k (tm_Principal (co_Terms c))"
  "CrossAcceptance_MarshalBinary d = Inr raw \<Longrightarrow> balance n k KindCrossLoanAcceptance raw = native_value n k (tm_Collateral (ca_Terms d))"
  "CrossRepayment_MarshalBinary f = Inr raw \<Longrightarrow> balance n k KindCrossLoanRepayment raw = native_value n k (cr_Amount f)"
  by (auto simp: lending_Marshal_iff intro!: balance_escrow TermsWire.parse_enc LoanWire.parse_enc CrossOfferWire.parse_enc
      AcceptanceWire.parse_enc RepaymentWire.parse_enc)

lemma executeLoanOffer_conserves:
  assumes "executeLoanOffer H e t payload = Inr r"
  shows "conserves e t r"
proof -
  obtain terms created outbound consumed raw
    where a: "accountNativeValue H e t {} 0 (tm_Principal terms) = Inr (created, outbound, consumed)"
      and m: "Terms_MarshalBinary terms = Inr raw"
      and r: "r = \<lparr>ex_Consumed = consumed, ex_Created = created @
              [\<lparr>obj_ID = ObjectIDForShard H (tx_ID H t) OfferObjectIndex (tx_ShardID t), obj_Version = 1,
                obj_Owner = tm_Lender terms, obj_Kind = KindLoanOffer, obj_Data = raw\<rparr>],
            ex_Outbound = outbound, ex_TxID = tx_ID H t\<rparr>"
    using assms by (auto simp: executeLoanOffer_def split: if_splits)
  show ?thesis using balance_lending_encoded(1) [OF m] by (intro conserves_plain [OF a, where os = "[]"]) (simp_all add: r)
qed

lemma executeLoanCancel_conserves:
  assumes "executeLoanCancel H e t payload = Inr r" "distinct_witnesses t"
  shows "conserves e t r"
proof -
  obtain ref w where w: "witnessByID t ref = Some w" "executeLoanCancel H e t payload = Inr r" "ParseLoanRef payload = Inr ref"
    using assms(1) by (auto simp: executeLoanCancel_def split: option.splits)
  then obtain terms created outbound consumed payout
    where a: "accountNativeValue H e t {obj_ID (wit_Object w)} (tm_Principal terms) (tm_Principal terms) = Inr (created, outbound, consumed)"
      and k: "obj_Kind (wit_Object w) = KindLoanOffer" and p: "ParseTerms (obj_Data (wit_Object w)) = Inr terms"
      and l: "lendingPayout H e t (tm_Lender terms) (tm_Principal terms) PayoutObjectIndex = Inr payout"
      and r: "r = \<lparr>ex_Consumed = consumed @ [obj_ID (wit_Object w)], ex_Created = created @ [payout], ex_Outbound = outbound,
                     ex_TxID = tx_ID H t\<rparr>"
    by (auto simp: executeLoanCancel_def Let_def split: if_splits)
  show ?thesis using witnessByID_Some [OF w(1)] assms(2) payout_balance [OF l] balance_escrow(4) [OF p]
    by (intro conserves_one [OF a, where os = "[]"]) (simp_all add: r k)
qed

lemma executeLoanAccept_conserves:
  assumes "executeLoanAccept H e t payload = Inr r" "distinct_witnesses t"
  shows "conserves e t r"
proof -
  obtain ref w where w: "witnessByID t ref = Some w" "executeLoanAccept H e t payload = Inr r" "ParseLoanRef payload = Inr ref"
    using assms(1) by (auto simp: executeLoanAccept_def split: option.splits if_splits)
  then obtain terms locked created outbound consumed principal raw
    where a: "accountNativeValue H e t {obj_ID (wit_Object w)} (tm_Principal terms) locked = Inr (created, outbound, consumed)"
      and k: "obj_Kind (wit_Object w) = KindLoanOffer" and p: "ParseTerms (obj_Data (wit_Object w)) = Inr terms"
      and s: "addLendingValue (tm_Principal terms) (tm_Collateral terms) = Inr locked"
      and l: "lendingPayout H e t (tm_Borrower terms) (tm_Principal terms) PayoutObjectIndex = Inr principal"
      and m: "Loan_MarshalBinary \<lparr>ln_OfferObject = obj_ID (wit_Object w), ln_Terms = terms, ln_AcceptedHeight = en_Height e\<rparr> = Inr raw"
      and r: "ex_Consumed r = consumed @ [obj_ID (wit_Object w)]" "ex_Created r = created @
                       [principal,
                        \<lparr>obj_ID = ObjectIDForShard H (tx_ID H t) LoanObjectIndex (tx_ShardID t), obj_Version = 1,
                         obj_Owner = tm_Borrower terms, obj_Kind = KindLoan, obj_Data = raw\<rparr>]" "ex_Outbound r = outbound"
    by (auto simp: executeLoanAccept_def Let_def split: if_splits)
  show ?thesis
    using witnessByID_Some [OF w(1)] assms(2) payout_balance [OF l] balance_escrow(4) [OF p] balance_lending_encoded(2) [OF m]
      addLendingValue_ok [OF s]
    by (intro conserves_one [OF a, where os = "[]"]) (simp_all add: r k)
qed

lemma executeLoanRepay_conserves:
  assumes "executeLoanRepay H e t payload = Inr r" "distinct_witnesses t"
  shows "conserves e t r"
proof -
  obtain ref w where w: "witnessByID t ref = Some w" "executeLoanRepay H e t payload = Inr r" "ParseLoanRef payload = Inr ref"
    using assms(1) by (auto simp: executeLoanRepay_def split: option.splits)
  then obtain loan due settlement created outbound consumed lender collateral
    where a: "accountNativeValue H e t {obj_ID (wit_Object w)} (tm_Collateral (ln_Terms loan)) settlement = Inr (created, outbound, consumed)"
      and k: "obj_Kind (wit_Object w) = KindLoan" and p: "ParseLoan (obj_Data (wit_Object w)) = Inr loan"
      and s: "addLendingValue due (tm_Collateral (ln_Terms loan)) = Inr settlement"
      and l: "lendingPayout H e t (tm_Lender (ln_Terms loan)) due PayoutObjectIndex = Inr lender"
      and c: "(if 0 < tm_Collateral (ln_Terms loan) then
          tryE (lendingPayout H e t (tm_Borrower (ln_Terms loan)) (tm_Collateral (ln_Terms loan)) (PayoutObjectIndex + 1)) (\<lambda>c. Inr [c])
        else Inr []) = Inr collateral"
      and r: "ex_Consumed r = consumed @ [obj_ID (wit_Object w)]" "ex_Created r = created @ [lender] @ collateral" "ex_Outbound r = outbound"
    by (simp add: executeLoanRepay_def Let_def split: if_splits) (auto split: prod.splits)
  show ?thesis
    using witnessByID_Some [OF w(1)] assms(2) payout_balance [OF l] balance_escrow(5) [OF p] payout_if_balance [OF c]
      addLendingValue_ok [OF s]
    by (intro conserves_one [OF a, where os = "[]"]) (simp_all add: r k)
qed

lemma executeLoanDefault_conserves:
  assumes "executeLoanDefault H e t payload = Inr r" "distinct_witnesses t"
  shows "conserves e t r"
proof -
  obtain ref w where w: "witnessByID t ref = Some w" "executeLoanDefault H e t payload = Inr r" "ParseLoanRef payload = Inr ref"
    using assms(1) by (auto simp: executeLoanDefault_def split: option.splits if_splits)
  then obtain loan created outbound consumed collateral
    where a: "accountNativeValue H e t {obj_ID (wit_Object w)} (tm_Collateral (ln_Terms loan)) (tm_Collateral (ln_Terms loan)) =
        Inr (created, outbound, consumed)"
      and k: "obj_Kind (wit_Object w) = KindLoan" and p: "ParseLoan (obj_Data (wit_Object w)) = Inr loan"
      and c: "(if 0 < tm_Collateral (ln_Terms loan) then
          tryE (lendingPayout H e t (tm_Lender (ln_Terms loan)) (tm_Collateral (ln_Terms loan)) PayoutObjectIndex) (\<lambda>c. Inr [c])
        else Inr []) = Inr collateral"
      and r: "ex_Consumed r = consumed @ [obj_ID (wit_Object w)]" "ex_Created r = created @ collateral" "ex_Outbound r = outbound"
    by (simp add: executeLoanDefault_def Let_def split: if_splits) (auto split: prod.splits)
  show ?thesis
    using witnessByID_Some [OF w(1)] assms(2) balance_escrow(5) [OF p] payout_if_balance [OF c]
    by (intro conserves_one [OF a, where os = "[]"]) (simp_all add: r k)
qed

lemma executeLending_conserves:
  assumes "executeLending H e t op = Inr r" "distinct_witnesses t"
  shows "conserves e t r"
  using assms executeLoanOffer_conserves executeLoanCancel_conserves executeLoanAccept_conserves executeLoanRepay_conserves
    executeLoanDefault_conserves
  unfolding executeLending_def by (auto split: if_splits)

subsection \<open>Lending between shards\<close>

lemma executeCrossLoanOffer_conserves:
  assumes "executeCrossLoanOffer H e t payload = Inr r"
  shows "conserves e t r"
proof -
  obtain terms l b created outbound consumed raw
    where a: "accountNativeValue H e t {} 0 (tm_Principal terms) = Inr (created, outbound, consumed)"
      and m: "CrossOffer_MarshalBinary \<lparr>co_OfferObject = ObjectIDForShard H (tx_ID H t) CrossOfferMessageIndex b, co_LenderShard = l,
          co_BorrowerShard = b, co_OfferedHeight = en_Height e, co_Terms = terms\<rparr> = Inr raw"
      and r: "ex_Consumed r = consumed" "ex_Created r = created"
        "ex_Outbound r = outbound @ [\<lparr>ob_DestinationShard = b, ob_OutputIndex = CrossOfferMessageIndex,
          ob_Output = \<lparr>os_Owner = tm_Borrower terms, os_Kind = KindCrossLoanOffer, os_Data = raw\<rparr>\<rparr>]"
    using assms by (auto simp: executeCrossLoanOffer_def Let_def split: if_splits)
  show ?thesis using balance_lending_encoded(3) [OF m] by (intro conserves_plain [OF a, where cs = "[]"]) (simp_all add: r)
qed

lemma executeCrossLoanAccept_conserves:
  assumes "executeCrossLoanAccept H e t payload = Inr r" "distinct_witnesses t"
  shows "conserves e t r"
proof -
  obtain ref w where w: "witnessByID t ref = Some w" "executeCrossLoanAccept H e t payload = Inr r" "ParseLoanRef payload = Inr ref"
    using assms(1) by (auto simp: executeCrossLoanAccept_def split: option.splits if_splits)
  then obtain offer l b internal created outbound consumed acc act principal
    where a: "accountNativeValue H e t {obj_ID (wit_Object w)} (tm_Principal (co_Terms offer)) internal = Inr (created, outbound, consumed)"
      and k: "obj_Kind (wit_Object w) = KindCrossLoanOffer" and p: "ParseCrossOffer (obj_Data (wit_Object w)) = Inr offer"
      and s: "addLendingValue (tm_Principal (co_Terms offer)) (tm_Collateral (co_Terms offer)) = Inr internal"
      and m: "CrossAcceptance_MarshalBinary \<lparr>ca_OfferObject = co_OfferObject offer,
          ca_ActivationObject = ObjectIDForShard H (tx_ID H t) CrossActivationObjectIndex b,
          ca_LenderShard = l, ca_BorrowerShard = b, ca_AcceptedHeight = en_Height e, ca_Terms = co_Terms offer\<rparr> = Inr acc"
      and y: "lendingPayout H e t (tm_Borrower (co_Terms offer)) (tm_Principal (co_Terms offer)) CrossPrincipalObjectIndex = Inr principal"
      and r: "ex_Consumed r = consumed @ [obj_ID (wit_Object w)]" "ex_Created r = created @
           [principal, \<lparr>obj_ID = ObjectIDForShard H (tx_ID H t) CrossActivationObjectIndex b, obj_Version = 1,
             obj_Owner = tm_Borrower (co_Terms offer), obj_Kind = KindCrossLoanActivation, obj_Data = act\<rparr>]"
        "ex_Outbound r = outbound @ [\<lparr>ob_DestinationShard = l, ob_OutputIndex = CrossAcceptanceMessageIndex,
           ob_Output = \<lparr>os_Owner = tm_Lender (co_Terms offer), os_Kind = KindCrossLoanAcceptance, os_Data = acc\<rparr>\<rparr>]"
    by (auto simp: executeCrossLoanAccept_def Let_def split: if_splits)
  show ?thesis
    using witnessByID_Some [OF w(1)] assms(2) payout_balance [OF y] balance_escrow(6) [OF p] balance_lending_encoded(4) [OF m]
      addLendingValue_ok [OF s]
    by (intro conserves_one [OF a]) (simp_all add: r k)
qed

lemma executeCrossLoanRepay_conserves:
  assumes "executeCrossLoanRepay H e t payload = Inr r" "distinct_witnesses t"
  shows "conserves e t r"
proof -
  obtain ref w where w: "witnessByID t ref = Some w" "executeCrossLoanRepay H e t payload = Inr r" "ParseLoanRef payload = Inr ref"
    using assms(1) by (auto simp: executeCrossLoanRepay_def split: option.splits if_splits)
  then obtain act l b due th created outbound consumed raw
    where a: "accountNativeValue H e t {obj_ID (wit_Object w)} 0 due = Inr (created, outbound, consumed)"
      and k: "obj_Kind (wit_Object w) = KindCrossLoanActivation" and "ParseCrossActivation (obj_Data (wit_Object w)) = Inr act"
      and "crossLendingShards e (cv_Terms act) = Inr (l, b)" and "RepaymentDue (cv_Terms act) = Inr due" and "Terms_Hash H (cv_Terms act) = Inr th"
      and m: "CrossRepayment_MarshalBinary \<lparr>cr_AcceptanceObject = cv_AcceptanceObject act,
          cr_ActivationObject = obj_ID (wit_Object w), cr_LenderShard = l,
          cr_BorrowerShard = b, cr_Amount = due, cr_PaidHeight = en_Height e, cr_TermsHash = th\<rparr> = Inr raw"
      and r: "ex_Consumed r = consumed @ [obj_ID (wit_Object w)]" "ex_Created r = created"
        "ex_Outbound r = outbound @ [\<lparr>ob_DestinationShard = l, ob_OutputIndex = CrossRepaymentMessageIndex,
           ob_Output = \<lparr>os_Owner = tm_Lender (cv_Terms act), os_Kind = KindCrossLoanRepayment, os_Data = raw\<rparr>\<rparr>]"
    by (auto simp: executeCrossLoanRepay_def Let_def split: if_splits)
  show ?thesis
    using witnessByID_Some [OF w(1)] assms(2) balance_lending_encoded(5) [OF m]
    by (intro conserves_one [OF a, where cs = "[]"]) (simp_all add: r k)
qed

lemma executeCrossLoanSettle_conserves:
  assumes "executeCrossLoanSettle H e t = Inr r" "distinct_witnesses t"
  shows "conserves e t r"
proof -
  obtain w v where w: "witnessByKind t KindCrossLoanAcceptance = Some w" "witnessByKind t KindCrossLoanRepayment = Some v"
    "executeCrossLoanSettle H e t = Inr r"
    using assms(1) by (auto simp: executeCrossLoanSettle_def split: option.splits)
  then obtain acc rep due b internal created outbound consumed lender collateral
    where a: "accountNativeValue H e t {obj_ID (wit_Object w), obj_ID (wit_Object v)} internal internal = Inr (created, outbound, consumed)"
      and p: "ParseCrossAcceptance (obj_Data (wit_Object w)) = Inr acc"
      and q: "ParseCrossRepayment (obj_Data (wit_Object v)) = Inr rep" and due: "cr_Amount rep = due"
      and s: "addLendingValue (tm_Collateral (ca_Terms acc)) due = Inr internal"
      and y: "lendingPayout H e t (tm_Lender (ca_Terms acc)) due PayoutObjectIndex = Inr lender"
      and c: "(if 0 < tm_Collateral (ca_Terms acc) then
          tryE (NewCoinOutputAtHeight (tm_Borrower (ca_Terms acc)) (en_NativeToken e) (tm_Collateral (ca_Terms acc)) (en_Height e)) (\<lambda>spec.
          Inr [\<lparr>ob_DestinationShard = b, ob_OutputIndex = CrossCollateralReturnIndex, ob_Output = spec\<rparr>]) else Inr []) = Inr collateral"
      and r: "ex_Consumed r = consumed @ [obj_ID (wit_Object w), obj_ID (wit_Object v)]" "ex_Created r = created @ [lender]"
        "ex_Outbound r = outbound @ collateral"
    unfolding executeCrossLoanSettle_def Let_def
    by (simp add: guard_eq_Inr) (elim exE conjE, rule that, assumption+, rule refl, assumption+, auto)
  have "outbound_balance (en_NativeToken e) k collateral = native_value (en_NativeToken e) k (tm_Collateral (ca_Terms acc))" for k
    using c by (auto simp: native_output_balance word_gt_0 split: if_splits)
  then show ?thesis
    using witnessByKind_Some [OF w(1)] witnessByKind_Some [OF w(2)] assms(2) payout_balance [OF y] balance_escrow(7) [OF p]
      balance_escrow(8) [OF q] due addLendingValue_ok [OF s] distinct_witnesses_kind [of t w v]
    by (intro conserves_two [OF a]) (simp_all add: r)
qed

lemma executeCrossLoanDefault_conserves:
  assumes "executeCrossLoanDefault H e t payload = Inr r" "distinct_witnesses t"
  shows "conserves e t r"
proof -
  obtain ref w where w: "witnessByID t ref = Some w" "executeCrossLoanDefault H e t payload = Inr r" "ParseLoanRef payload = Inr ref"
    using assms(1) by (auto simp: executeCrossLoanDefault_def split: option.splits if_splits)
  then obtain acc created outbound consumed collateral
    where a: "accountNativeValue H e t {obj_ID (wit_Object w)} (tm_Collateral (ca_Terms acc)) (tm_Collateral (ca_Terms acc)) =
        Inr (created, outbound, consumed)"
      and k: "obj_Kind (wit_Object w) = KindCrossLoanAcceptance" and p: "ParseCrossAcceptance (obj_Data (wit_Object w)) = Inr acc"
      and c: "(if 0 < tm_Collateral (ca_Terms acc) then
          tryE (lendingPayout H e t (tm_Lender (ca_Terms acc)) (tm_Collateral (ca_Terms acc)) PayoutObjectIndex) (\<lambda>c. Inr [c])
        else Inr []) = Inr collateral"
      and r: "ex_Consumed r = consumed @ [obj_ID (wit_Object w)]" "ex_Created r = created @ collateral" "ex_Outbound r = outbound"
    by (simp add: executeCrossLoanDefault_def Let_def split: if_splits) (auto split: prod.splits if_splits)
  show ?thesis
    using witnessByID_Some [OF w(1)] assms(2) balance_escrow(7) [OF p] payout_if_balance [OF c]
    by (intro conserves_one [OF a, where os = "[]"]) (simp_all add: r k)
qed

lemma executeCrossLoanExpire_conserves:
  assumes "executeCrossLoanExpire H e t payload = Inr r" "distinct_witnesses t"
  shows "conserves e t r"
proof -
  obtain ref w where w: "witnessByID t ref = Some w" "executeCrossLoanExpire H e t payload = Inr r" "ParseLoanRef payload = Inr ref"
    using assms(1) by (auto simp: executeCrossLoanExpire_def split: option.splits if_splits)
  then obtain offer l created outbound consumed spec
    where a: "accountNativeValue H e t {obj_ID (wit_Object w)} (tm_Principal (co_Terms offer)) (tm_Principal (co_Terms offer)) =
        Inr (created, outbound, consumed)"
      and k: "obj_Kind (wit_Object w) = KindCrossLoanOffer" and p: "ParseCrossOffer (obj_Data (wit_Object w)) = Inr offer"
      and s: "NewCoinOutputAtHeight (tm_Lender (co_Terms offer)) (en_NativeToken e) (tm_Principal (co_Terms offer)) (en_Height e) = Inr spec"
      and r: "ex_Consumed r = consumed @ [obj_ID (wit_Object w)]" "ex_Created r = created"
        "ex_Outbound r = outbound @ [\<lparr>ob_DestinationShard = l, ob_OutputIndex = CrossPrincipalReturnIndex, ob_Output = spec\<rparr>]"
    by (auto simp: executeCrossLoanExpire_def Let_def split: if_splits)
  show ?thesis
    using witnessByID_Some [OF w(1)] assms(2) balance_escrow(6) [OF p] native_output_balance [OF s]
    by (intro conserves_one [OF a, where cs = "[]"]) (simp_all add: r k)
qed

lemma executeCrossShardLending_conserves:
  assumes "executeCrossShardLending H e t op = Inr r" "distinct_witnesses t"
  shows "conserves e t r"
  using assms executeCrossLoanOffer_conserves executeCrossLoanAccept_conserves executeCrossLoanRepay_conserves
    executeCrossLoanSettle_conserves executeCrossLoanDefault_conserves executeCrossLoanExpire_conserves
  unfolding executeCrossShardLending_def by (auto split: if_splits)

end
