(* ===== verification/ValueCompute.thy ===== *)
theory ValueCompute
  imports ValueLending
begin

text \<open>
  The handlers of contracts, device credentials and compute jobs keep the balances. A job is sound when its record is one
  that the operations on jobs can reach and it has room for its replicas in the wire format.
\<close>

subsection \<open>Fees only: contracts and device credentials\<close>

text \<open>The fee handlers set aside witnesses without a balance.\<close>

lemma conserves_fee:
  assumes "feeOnlyOutputsExcluding H e t x as = Inr (created, consumed)" "distinct_witnesses t"
    and "\<And>w. w \<in> set (tx_Witnesses t) \<Longrightarrow> obj_ID (wit_Object w) \<in> insert x (set (map ac_ObjectID as)) \<Longrightarrow>
      obj_Kind (wit_Object w) \<in> {KindContract, KindContractState, KindDeviceCredential}"
    and "\<And>k. objects_balance (en_NativeToken e) k cs = 0"
    and "set consumed \<subseteq> set (ex_Consumed r)" "ex_Created r = created @ cs" "ex_Outbound r = []"
  shows "conserves e t r"
  unfolding conserves_def
proof (intro allI conjI ballI impI)
  let ?n = "en_NativeToken e"
  define X where "X = (if \<not> IsZero32 x then {x} else {}) \<union> set (map ac_ObjectID as)"
  note fee = fee_conserves [OF assms(1), folded X_def]
  show "owned_coins t"
    using assms(3) by (intro owned_coinsI [OF fee(3)]) (fastforce simp: X_def split: if_splits)
  have zero: "balance ?n k (obj_Kind (wit_Object w)) (obj_Data (wit_Object w)) = 0"
    if "w \<in> set (tx_Witnesses t)" "obj_ID (wit_Object w) \<in> X" for w k
  proof -
    have "obj_ID (wit_Object w) \<in> insert x (set (map ac_ObjectID as))" using that(2) by (auto simp: X_def split: if_splits)
    from assms(3) [OF that(1) this] show ?thesis by auto
  qed
  have all: "objects_balance ?n k (map wit_Object ws) = objects_balance ?n k (rest X ws)" if "set ws \<subseteq> set (tx_Witnesses t)" for ws k
    using that by (induction ws) (auto simp: zero)
  fix k
  show "objects_balance ?n k (map wit_Object (tx_Witnesses t)) = objects_balance ?n k (ex_Created r) +
      outbound_balance ?n k (ex_Outbound r) + native_value ?n k (tx_Fee t)"
    using all [of "tx_Witnesses t" k] fee(1) [of k] assms(4) [of k] by (simp add: assms(6,7))
  fix w assume w: "w \<in> set (tx_Witnesses t)" "balance ?n k (obj_Kind (wit_Object w)) (obj_Data (wit_Object w)) \<noteq> 0"
  then have "obj_ID (wit_Object w) \<notin> X" using zero by blast
  then show "obj_ID (wit_Object w) \<in> set (ex_Consumed r)" using in_rest [OF w(1), of X] fee(2) assms(5) by auto
qed

lemma executeDeviceCredential_conserves:
  assumes "executeDeviceCredential C e t op = Inr r" "distinct_witnesses t" "\<forall>w \<in> set (tx_Witnesses t). obj_ID (wit_Object w) \<noteq> 0"
  shows "conserves e t r"
proof -
  have one: "v = w" if "witnessByID t x = Some w" "v \<in> set (tx_Witnesses t)" "obj_ID (wit_Object v) = x" for v w x
    using witnessByID_Some [OF that(1)] that(2,3) assms(2) by (auto simp: distinct_witnesses_def distinct_map dest: inj_onD)
  consider (reg) "executeDeviceCredentialRegister C e t (op_Payload op) = Inr r"
    | (upd) "executeDeviceCredentialUpdate C e t (op_Payload op) = Inr r"
    | (rev) "executeDeviceCredentialRevoke C e t (op_Payload op) = Inr r"
    using assms(1) by (auto simp: executeDeviceCredential_def split: if_splits)
  then show ?thesis
  proof cases
    case reg
    then obtain created consumed raw where f: "feeOnlyOutputsExcluding (sha256 C) e t 0 [] = Inr (created, consumed)"
      and r: "ex_Consumed r = consumed" "ex_Outbound r = []" "ex_Created r = created @
        [\<lparr>obj_ID = ObjectIDForShard (sha256 C) (tx_ID (sha256 C) t) credential_ObjectIndex (tx_ShardID t), obj_Version = 1,
          obj_Owner = tx_Sender t, obj_Kind = KindDeviceCredential, obj_Data = raw\<rparr>]"
      by (auto simp: executeDeviceCredentialRegister_def feeOnlyOutputs_def split: if_splits)
    show ?thesis using assms(3) by (intro conserves_fee [OF f assms(2)]) (auto simp: r)
  next
    case upd
    then obtain update w where w: "witnessByID t (up_ObjectID update) = Some w" "ParseUpdate C (op_Payload op) = Inr update"
      by (auto simp: executeDeviceCredentialUpdate_def Let_def split: option.splits if_splits)
    then obtain created consumed raw
      where f: "feeOnlyOutputsExcluding (sha256 C) e t (obj_ID (wit_Object w)) [] = Inr (created, consumed)"
      and k: "obj_Kind (wit_Object w) = KindDeviceCredential"
      and r: "ex_Consumed r = consumed @ [obj_ID (wit_Object w)]" "ex_Outbound r = []" "ex_Created r = created @
        [(wit_Object w)\<lparr>obj_Version := obj_Version (wit_Object w) + 1, obj_Data := raw\<rparr>]"
      using upd by (auto simp: executeDeviceCredentialUpdate_def Let_def split: if_splits)
    show ?thesis using one [OF w(1)] witnessByID_Some [OF w(1)] k by (intro conserves_fee [OF f assms(2)]) (auto simp: r)
  next
    case rev
    then obtain ref w where w: "witnessByID t ref = Some w" "ParseCredentialRef (op_Payload op) = Inr ref"
      by (auto simp: executeDeviceCredentialRevoke_def Let_def split: option.splits if_splits)
    then obtain created consumed
      where f: "feeOnlyOutputsExcluding (sha256 C) e t (obj_ID (wit_Object w)) [] = Inr (created, consumed)"
      and k: "obj_Kind (wit_Object w) = KindDeviceCredential"
      and r: "ex_Consumed r = consumed @ [obj_ID (wit_Object w)]" "ex_Outbound r = []" "ex_Created r = created"
      using rev by (auto simp: executeDeviceCredentialRevoke_def Let_def split: if_splits)
    show ?thesis using one [OF w(1)] witnessByID_Some [OF w(1)] k by (intro conserves_fee [OF f assms(2), where cs = "[]"]) (auto simp: r)
  qed
qed

lemma distinct_witness_map:
  assumes "distinct_witnesses t" "w \<in> set (tx_Witnesses t)"
  shows "witness_map t (obj_ID (wit_Object w)) = Some w"
proof -
  have d: "distinct (map fst (rev (map (\<lambda>w. (obj_ID (wit_Object w), w)) (tx_Witnesses t))))"
    using assms(1) by (simp add: distinct_witnesses_def rev_map [symmetric] comp_def)
  show ?thesis unfolding witness_map_def using assms(2) by (intro map_of_is_SomeI [OF d]) auto
qed

lemma read_state_kinds:
  assumes "foldE (read_state t) vs as = Inr vs'" "a \<in> set as"
  shows "\<exists>w. witness_map t (ac_ObjectID a) = Some w \<and> obj_Kind (wit_Object w) = KindContractState"
  using assms by (induction as arbitrary: vs) (auto simp: read_state_def split: option.splits if_splits)

lemma executeDeployContract_conserves:
  assumes "executeDeployContract H S e t payload = Inr r" "distinct_witnesses t" "\<forall>w \<in> set (tx_Witnesses t). obj_ID (wit_Object w) \<noteq> 0"
  shows "conserves e t r"
proof -
  obtain d created consumed raw where f: "feeOnlyOutputsExcluding H e t 0 [] = Inr (created, consumed)"
    and "ParseDeployment payload = Inr d"
    and r: "ex_Consumed r = consumed" "ex_Outbound r = []" "ex_Created r = created @
       [\<lparr>obj_ID = ObjectIDForShard H (tx_ID H t) contractObjectIndex (tx_ShardID t), obj_Version = 1,
         obj_Owner = tx_Sender t, obj_Kind = KindContract, obj_Data = raw\<rparr>] @
       (if 0 < length (dp_InitialState d) then
          [\<lparr>obj_ID = ObjectIDForShard H (tx_ID H t) contractStateIndex (tx_ShardID t), obj_Version = 1,
            obj_Owner = tx_Sender t, obj_Kind = KindContractState, obj_Data = dp_InitialState d\<rparr>]
        else [])"
    using assms(1) unfolding executeDeployContract_def feeOnlyOutputs_def Let_def
    by (auto simp del: length_greater_0_conv split: option.splits if_splits)
  show ?thesis using assms(3) by (intro conserves_fee [OF f assms(2)]) (auto simp: r)
qed

lemma executeContractCall_conserves:
  assumes "executeContractCall H S e t payload = Inr r" "distinct_witnesses t"
  shows "conserves e t r"
proof -
  obtain call w where c: "ParseCall payload = Inr call" "witness_map t (cc_ContractObject call) = Some w"
    and k: "obj_Kind (wit_Object w) = KindContract"
    using assms(1) by (auto simp: executeContractCall_def split: option.splits if_splits)
  then obtain stored runtime vs res created consumed receipt
    where "ParseStoredContract (obj_Data (wit_Object w)) = Inr stored" and "contractRuntime S e (dp_Runtime (sc_Deployment stored)) = Some runtime"
      and rd: "foldE (read_state t) [] (cc_Accesses call) = Inr vs"
      and ex: "metered_Execute (Some runtime)
         \<lparr>rq_ContractID = sc_ID stored, rq_Runtime = dp_Runtime (sc_Deployment stored),
          rq_Code = dp_Code (sc_Deployment stored), rq_Entrypoint = cc_Entrypoint call, rq_Arguments = cc_Arguments call,
          rq_Accesses = cc_Accesses call, rq_ReadValues = vs, rq_FuelLimit = cc_FuelLimit call\<rparr> = Inr res"
      and f: "feeOnlyOutputsExcluding H e t (cc_ContractObject call) (cc_Accesses call) = Inr (created, consumed)"
      and r: "ex_Consumed r = consumed @ map fst (cl_Writes res)" "ex_Outbound r = []" "ex_Created r = created @ map (written_object t) (cl_Writes res) @
         [\<lparr>obj_ID = ObjectIDForShard H (tx_ID H t) contractReceiptIndex (tx_ShardID t), obj_Version = 1,
           obj_Owner = tx_Sender t, obj_Kind = KindSystem, obj_Data = receipt\<rparr>]"
    using assms(1) by (auto simp: executeContractCall_def Let_def split: option.splits)
  have st: "obj_Kind (wit_Object v) = KindContractState" if "a \<in> set (cc_Accesses call)" "witness_map t (ac_ObjectID a) = Some v" for a v
    using read_state_kinds [OF rd that(1)] that(2) by auto
  have "obj_Kind (written_object t x) = KindContractState" if x: "x \<in> set (cl_Writes res)" for x
  proof -
    obtain a where a: "a \<in> set (cc_Accesses call)" "ac_ObjectID a = fst x" using metered_writes [OF ex] imageI [OF x, of fst] by auto
    then obtain v where "witness_map t (fst x) = Some v" "obj_Kind (wit_Object v) = KindContractState"
      using read_state_kinds [OF rd] by force
    then show ?thesis by (cases x) (simp add: written_object_def Let_def)
  qed
  then have "objects_balance (en_NativeToken e) k (map (written_object t) xs) = 0" if "set xs \<subseteq> set (cl_Writes res)" for k xs
    using that by (induction xs) auto
  moreover have "obj_Kind (wit_Object v) \<in> {KindContract, KindContractState, KindDeviceCredential}"
    if "v \<in> set (tx_Witnesses t)" "obj_ID (wit_Object v) \<in> insert (cc_ContractObject call) (set (map ac_ObjectID (cc_Accesses call)))" for v
    using that c(2) k st distinct_witness_map [OF assms(2) that(1)] by auto
  ultimately show ?thesis by (intro conserves_fee [OF f assms(2)]) (auto simp: r)
qed

subsection \<open>Compute\<close>

lemma balance_compute_encoded:
  "Offer_MarshalBinary a = Inr raw \<Longrightarrow> balance n k KindComputeOffer raw = native_value n k (oc_Collateral a)"
  "AssignmentMessage_MarshalBinary m = Inr raw \<Longrightarrow> balance n k KindComputeAssignment raw = native_value n k (jb_CollateralRequired (am_Job m))"
  by (auto simp: compute_Marshal_iff AssignmentMessage_Marshal_iff balance_escrow(1) [OF ParseOffer_back]
      balance_escrow(3) [OF ParseAssignmentMessage_back] trim_message_def)

lemma job_value_normal [simp]: "job_value (normal_job j) = job_value j"
  by (simp add: job_value_def normal_job_def)

lemma balance_job_encoded:
  assumes "OnChainJob_MarshalBinary j = Inr raw" "length (oj_Assignments j) < 2 ^ 32" "length (oj_Results j) < 2 ^ 32"
  shows "balance n k KindComputeJob raw = (if k = n then job_value j else 0)"
  using assms job_record_back [of j] by (auto simp: OnChainJob_Marshal_iff balance_def escrow_part_def held_def)

lemma executeComputeOffer_conserves:
  assumes "executeComputeOffer H e t payload = Inr r"
  shows "conserves e t r"
proof -
  obtain offer created outbound consumed x
    where a: "accountNativeValue H e t {} 0 (oc_Collateral offer) = Inr (created, outbound, consumed)"
      and m: "NewOfferObject H (tx_ID H t) (tx_ShardID t) offer = Inr x"
      and r: "ex_Consumed r = consumed" "ex_Created r = created @ [x]" "ex_Outbound r = outbound"
    using assms by (auto simp: executeComputeOffer_def split: if_splits)
  have "balance (en_NativeToken e) k (obj_Kind x) (obj_Data x) = native_value (en_NativeToken e) k (oc_Collateral offer)" for k
    using m by (auto simp: NewOfferObject_def balance_compute_encoded)
  then show ?thesis by (intro conserves_plain [OF a, where os = "[]"]) (simp_all add: r)
qed

lemma executeComputeJob_conserves:
  assumes "executeComputeJob H e t payload = Inr r"
  shows "conserves e t r"
proof -
  obtain job created outbound consumed x j
    where a: "accountNativeValue H e t {} 0 (jb_MaxPrice job) = Inr (created, outbound, consumed)"
      and m: "NewJobObject H (tx_ID H t) (tx_ShardID t) job (jb_MaxPrice job) = Inr (x, j)"
      and r: "ex_Consumed r = consumed" "ex_Created r = created @ [x]" "ex_Outbound r = outbound"
    using assms by (auto simp: executeComputeJob_def split: if_splits)
  have "balance (en_NativeToken e) k (obj_Kind x) (obj_Data x) = native_value (en_NativeToken e) k (jb_MaxPrice job)" for k
    using m by (auto simp: NewJobObject_def Let_def balance_job_encoded job_value_def native_value_def)
  then show ?thesis by (intro conserves_plain [OF a, where os = "[]"]) (simp_all add: r)
qed

text \<open>An output of a handler that is placed on a shard after the outputs of the transaction.\<close>

lemma place_append: "\<exists>cs os. place H i s d x spec (created, outbound) = (created @ cs, outbound @ os) \<and>
    (\<forall>n k. objects_balance n k cs + outbound_balance n k os = balance n k (os_Kind spec) (os_Data spec))"
proof (cases "d = s")
  case True
  then show ?thesis by (intro exI [of _ "[output_object H i x s spec]"] exI [of _ "[]"]) (simp add: place_def output_object_def)
next
  case False
  then show ?thesis
    by (intro exI [of _ "[]"] exI [of _ "[\<lparr>ob_DestinationShard = d, ob_OutputIndex = x, ob_Output = spec\<rparr>]"]) (simp add: place_def)
qed

lemma executeComputeResult_conserves:
  assumes "executeComputeResult H e t payload = Inr r"
  shows "conserves e t r"
proof -
  obtain message created outbound consumed where a: "accountNativeValue H e t {} 0 0 = Inr (created, outbound, consumed)"
    and r0: "executeComputeResult H e t payload = Inr r" "ParseResultMessage payload = Inr message"
    using assms by (auto simp: executeComputeResult_def split: if_splits)
  define spec where "spec = (case ResultMessage_Output message of Inl _ \<Rightarrow> \<lparr>os_Owner = 0, os_Kind = 0, os_Data = []\<rparr> | Inr spec \<Rightarrow> spec)"
  obtain cs os where p: "place H (tx_ID H t) (tx_ShardID t) (rm_JobShard message) computeReceiptIndex spec (created, outbound) =
      (created @ cs, outbound @ os)" "\<And>n k. objects_balance n k cs + outbound_balance n k os = balance n k (os_Kind spec) (os_Data spec)"
    using place_append by blast
  have r: "ex_Consumed r = consumed" "ex_Created r = created @ cs" "ex_Outbound r = outbound @ os"
    using r0 a p(1) by (auto simp: executeComputeResult_def spec_def [symmetric] split: if_splits)
  have "balance n k (os_Kind spec) (os_Data spec) = 0" for n k
    by (auto simp: spec_def ResultMessage_Output_def split: sum.splits)
  then show ?thesis using p(2) by (intro conserves_plain [OF a]) (simp_all add: r)
qed

lemma executeComputeAccept_conserves:
  assumes "executeComputeAccept H e t payload = Inr r" "distinct_witnesses t"
  shows "conserves e t r"
proof -
  obtain message w where w: "witnessByKind t KindComputeOffer = Some w" "executeComputeAccept H e t payload = Inr r"
    "ParseAssignmentMessage payload = Inr message"
    using assms(1) by (auto simp: executeComputeAccept_def split: option.splits if_splits)
  then obtain created outbound consumed spec
    where a: "accountNativeValue H e t {obj_ID (wit_Object w)} (oc_Collateral (am_Offer message)) (jb_CollateralRequired (am_Job message)) =
        Inr (created, outbound, consumed)"
      and m: "AssignmentMessage_Output message = Inr spec" and d: "obj_Data (wit_Object w) = mustOfferBytes (am_Offer message)"
    by (auto simp: executeComputeAccept_def Let_def split: if_splits)
  obtain cs os where p: "place H (tx_ID H t) (tx_ShardID t) (am_JobShard message) computeReceiptIndex spec (created, outbound) =
      (created @ cs, outbound @ os)" "\<And>n k. objects_balance n k cs + outbound_balance n k os = balance n k (os_Kind spec) (os_Data spec)"
    using place_append by blast
  have r: "ex_Consumed r = consumed @ [obj_ID (wit_Object w)]" "ex_Created r = created @ cs" "ex_Outbound r = outbound @ os"
    using w a m d p(1) by (auto simp: executeComputeAccept_def Let_def split: if_splits)
  have "Offer_MarshalBinary (am_Offer message) = Inr (Offer_encode (am_Offer message))"
    using ParseAssignmentMessage_valid [OF w(3)] by (simp add: message_valid_def compute_Marshal_iff)
  moreover from this have "obj_Data (wit_Object w) = Offer_encode (am_Offer message)" by (simp add: d mustOfferBytes_def)
  ultimately have "balance n k KindComputeOffer (obj_Data (wit_Object w)) = native_value n k (oc_Collateral (am_Offer message))" for n k
    using balance_compute_encoded(1) by metis
  moreover have "balance n k (os_Kind spec) (os_Data spec) = native_value n k (jb_CollateralRequired (am_Job message))" for n k
    using m by (auto simp: AssignmentMessage_Output_def balance_compute_encoded)
  ultimately show ?thesis using p(2) witnessByKind_Some [OF w(1)] assms(2) by (intro conserves_one [OF a]) (simp_all add: r)
qed

lemma owned_witness_ok:
  "owned_witness t oid kd = Inr x \<Longrightarrow> \<exists>w \<in> set (tx_Witnesses t). x = wit_Object w \<and> obj_Kind x = kd \<and> obj_ID x = oid"
  using witnessByID_Some by (fastforce simp: owned_witness_def split: option.splits if_splits)

lemma Job_encode_collateral:
  assumes "Job_MarshalBinary a = Inr raw" "Job_MarshalBinary b = Inr raw"
  shows "jb_CollateralRequired a = jb_CollateralRequired b"
proof -
  have "Inr (trim_job a) = (Inr (trim_job b) :: Job result)"
    using assms ParseJob_back [of a] ParseJob_back [of b] by (auto simp: compute_Marshal_iff)
  then have "trim_job a = trim_job b" by simp
  then show ?thesis by (metis trim_fields(9))
qed

lemma AssignOnChain_value:
  assumes "AssignOnChain j offerID offer height = Inr (j', a, surplus)"
  shows "job_value j' = job_value j + int (unat (jb_CollateralRequired (oj_Job j)))"
    and "length (oj_Assignments j') = Suc (length (oj_Assignments j))" "oj_Results j' = oj_Results j"
proof -
  have "oj_Assignments j' = oj_Assignments j @ [a]" "oj_Job j' = oj_Job j" "oj_Escrow j' = oj_Escrow j"
    using assms by (auto simp: AssignOnChain_def Let_def split: if_splits)
  then show "job_value j' = job_value j + int (unat (jb_CollateralRequired (oj_Job j)))" by (simp add: job_value_def algebra_simps)
  show "length (oj_Assignments j') = Suc (length (oj_Assignments j))" "oj_Results j' = oj_Results j"
    using assms by (auto simp: AssignOnChain_def Let_def split: if_splits)
qed

lemma executeComputeIngestAssignment_conserves:
  assumes "executeComputeIngestAssignment H e t payload = Inr r" "distinct_witnesses t"
  shows "conserves e t r"
proof -
  obtain ref x y where w: "owned_witness t (ig_JobObject ref) KindComputeJob = Inr x"
      "owned_witness t (ig_MessageObject ref) KindComputeAssignment = Inr y"
      and r0: "ParseIngestRef payload = Inr ref" "executeComputeIngestAssignment H e t payload = Inr r"
    using assms(1) by (auto simp: executeComputeIngestAssignment_def)
  then obtain j m j' as su raw created outbound consumed
    where j: "ParseOnChainJob (obj_Data x) = Inr j" and m: "ParseAssignmentMessage (obj_Data y) = Inr m"
      and v: "is_ok (ValidateForRecord m j)" and j': "AssignOnChain j (am_OfferID m) (am_Offer m) (en_Height e) = Inr (j', as, su)"
      and raw: "OnChainJob_MarshalBinary j' = Inr raw"
      and a: "accountNativeValue H e t {obj_ID x, obj_ID y} (jb_CollateralRequired (oj_Job j)) (jb_CollateralRequired (oj_Job j)) =
        Inr (created, outbound, consumed)"
      and r: "ex_Consumed r = consumed @ [obj_ID x, obj_ID y]" "ex_Outbound r = outbound"
        "ex_Created r = created @ [x\<lparr>obj_Version := obj_Version x + 1, obj_Data := raw\<rparr>]"
    by (auto simp: executeComputeIngestAssignment_def split: if_splits)
  obtain wx where wx: "wx \<in> set (tx_Witnesses t)" "x = wit_Object wx" "obj_Kind x = KindComputeJob" using owned_witness_ok [OF w(1)] by blast
  obtain wy where wy: "wy \<in> set (tx_Witnesses t)" "y = wit_Object wy" "obj_Kind y = KindComputeAssignment" using owned_witness_ok [OF w(2)] by blast
  have c: "jb_CollateralRequired (am_Job m) = jb_CollateralRequired (oj_Job j)"
    using v by (auto simp: ValidateForRecord_def is_ok_iff intro: Job_encode_collateral [symmetric] split: if_splits)
  have "length (oj_Assignments j') < 2 ^ 32" "length (oj_Results j') < 2 ^ 32"
    using ParseOnChainJob_valid(2,3) [OF j] AssignOnChain_value(2,3) [OF j'] by simp_all
  then have "balance n k KindComputeJob raw = (if k = n then job_value j else 0) + native_value n k (jb_CollateralRequired (oj_Job j))" for n k
    using balance_job_encoded [OF raw] AssignOnChain_value(1) [OF j'] by (simp add: native_value_def)
  then show ?thesis
    using wx wy assms(2) distinct_witnesses_kind [of t wx wy] balance_escrow(2) [OF j] balance_escrow(3) [OF m] c
    by (intro conserves_two [OF a [unfolded wx wy], where os = "[]"]) (simp_all add: r)
qed

lemma SubmitOnChainResult_value:
  assumes "SubmitOnChainResult j res = Inr j'" "onchain_valid j"
  shows "job_value j' = job_value j" "onchain_valid j'" "length (oj_Assignments j') = length (oj_Assignments j)"
    "length (oj_Results j') = Suc (length (oj_Results j))"
  using assms by (auto simp: SubmitOnChainResult_def Let_def job_value_def onchain_valid_def is_ok_compute_Validate split: if_splits)

lemma executeComputeIngestResult_conserves:
  assumes "executeComputeIngestResult H e t payload = Inr r" "distinct_witnesses t"
  shows "conserves e t r"
proof -
  obtain ref x y where w: "owned_witness t (ig_JobObject ref) KindComputeJob = Inr x"
      "owned_witness t (ig_MessageObject ref) KindComputeResult = Inr y"
      and r0: "ParseIngestRef payload = Inr ref" "executeComputeIngestResult H e t payload = Inr r"
    using assms(1) by (auto simp: executeComputeIngestResult_def)
  then obtain j m j' created outbound consumed
    where j: "ParseOnChainJob (obj_Data x) = Inr j" and "ParseResultMessage (obj_Data y) = Inr m" and j': "SubmitOnChainResult j (rm_Result m) = Inr j'"
      and a: "accountNativeValue H e t {obj_ID x, obj_ID y} 0 0 = Inr (created, outbound, consumed)"
      and r: "ex_Consumed r = consumed @ [obj_ID x, obj_ID y]" "ex_Outbound r = outbound"
        "ex_Created r = created @ [x\<lparr>obj_Version := obj_Version x + 1,
           obj_Data := (case OnChainJob_MarshalBinary j' of Inl _ \<Rightarrow> [] | Inr raw \<Rightarrow> raw)\<rparr>]"
    by (auto simp: executeComputeIngestResult_def Let_def split: if_splits)
  obtain wx where wx: "wx \<in> set (tx_Witnesses t)" "x = wit_Object wx" "obj_Kind x = KindComputeJob" using owned_witness_ok [OF w(1)] by blast
  obtain wy where wy: "wy \<in> set (tx_Witnesses t)" "y = wit_Object wy" "obj_Kind y = KindComputeResult" using owned_witness_ok [OF w(2)] by blast
  note s = SubmitOnChainResult_value [OF j' ParseOnChainJob_valid(1) [OF j]]
  have raw: "OnChainJob_MarshalBinary j' = Inr (OnChainJob_encode j')" using s(2) by (simp add: OnChainJob_Marshal_iff)
  have "balance n k KindComputeJob (OnChainJob_encode j') = (if k = n then job_value j else 0)" for n k
    using balance_job_encoded [OF raw] s ParseOnChainJob_valid(2,3) [OF j] by simp
  then show ?thesis
    using wx wy assms(2) distinct_witnesses_kind [of t wx wy] balance_escrow(2) [OF j] raw
    by (intro conserves_two [OF a [unfolded wx wy], where os = "[]"]) (simp_all add: r)
qed

lemma jobLockedValue_exact:
  assumes "jobLockedValue j = Inr locked"
  shows "native_value n k locked = (if k = n then job_value j else 0)"
proof -
  have "unat v' = unat v + length as * unat c"
    if "foldE (\<lambda>locked (_ :: Assignment). if overflows locked c then Inl ErrOverflow else Inr (locked + c)) v as = Inr v'" for v v' c as
    using that
  proof (induction as arbitrary: v)
    case (Cons a as)
    then show ?case by (auto simp: unat_add_no_overflow split: if_splits)
  qed simp
  from this [OF assms [unfolded jobLockedValue_def]] show ?thesis by (simp add: native_value_def job_value_def)
qed

lemma settlement_output_iff:
  "settlement_output H e t am (acc, p) (i, account) = Inr q \<longleftrightarrow> \<not> overflows acc (amount_at am account) \<and>
     (\<exists>spec d. NewCoinOutput account (en_NativeToken e) (amount_at am account) = Inr spec \<and> ShardForAccount (router e) account = Inr d \<and>
       q = (acc + amount_at am account, place H (tx_ID H t) (tx_ShardID t) d (computeReceiptIndex + 1 + of_nat i) spec p))"
  by (auto simp: settlement_output_def Let_def)

lemma settlement_outputs_exact:
  assumes "foldE (settlement_output H e t am) (acc, p) ids = Inr (acc', p')"
  shows "native_value (en_NativeToken e) k acc' + placed_balance (en_NativeToken e) k p =
    native_value (en_NativeToken e) k acc + placed_balance (en_NativeToken e) k p'"
  using assms
proof (induction ids arbitrary: acc p)
  case (Cons x ids)
  obtain i account where x: "x = (i, account)" by (cases x)
  obtain spec d where no: "\<not> overflows acc (amount_at am account)"
    and n: "NewCoinOutputAtHeight account (en_NativeToken e) (amount_at am account) 0 = Inr spec"
    and r: "foldE (settlement_output H e t am) (acc + amount_at am account,
      place H (tx_ID H t) (tx_ShardID t) d (computeReceiptIndex + 1 + of_nat i) spec p) ids = Inr (acc', p')"
    using Cons.prems by (auto simp: settlement_output_iff x NewCoinOutput_def)
  show ?case using native_output_balance [OF n, of k] native_value_add [OF no] Cons.IH [OF r] by (simp add: place_balance)
qed simp

lemma settlementOutputs_exact:
  assumes "settlementOutputs H e t j s = Inr (created, outbound, acc)"
  shows "objects_balance (en_NativeToken e) k created + outbound_balance (en_NativeToken e) k outbound = native_value (en_NativeToken e) k acc"
  using assms settlement_outputs_exact [of H e t _ 0 "([], [])" _ acc "(created, outbound)" k]
  by (auto simp: settlementOutputs_def Let_def split: if_splits)

lemma close_job_conserves:
  assumes "close_job H e t x j s rc = Inr r" "distinct_witnesses t" "owned_witness t ref KindComputeJob = Inr x"
    "ParseOnChainJob (obj_Data x) = Inr j"
  shows "conserves e t r"
proof -
  obtain locked gen genout created outbound consumed
    where l: "jobLockedValue j = Inr locked" and g: "settlementOutputs H e t j s = Inr (gen, genout, locked)"
      and a: "accountNativeValue H e t {obj_ID x} locked locked = Inr (created, outbound, consumed)"
      and r: "ex_Consumed r = consumed @ [obj_ID x]" "ex_Outbound r = outbound @ genout"
        "ex_Created r = created @ gen @ [\<lparr>obj_ID = ObjectIDForShard H (tx_ID H t) computeReceiptIndex (tx_ShardID t), obj_Version = 1,
           obj_Owner = 0, obj_Kind = KindSystem, obj_Data = SettlementReceipt_MarshalBinary rc\<rparr>]"
    using assms(1) by (auto simp: close_job_def split: if_splits)
  obtain w where w: "w \<in> set (tx_Witnesses t)" "x = wit_Object w" "obj_Kind x = KindComputeJob" using owned_witness_ok [OF assms(3)] by blast
  show ?thesis
    using w assms(2) settlementOutputs_exact [OF g] jobLockedValue_exact [OF l] balance_escrow(2) [OF assms(4)]
    by (intro conserves_one [OF a [unfolded w(2)]]) (simp_all add: r)
qed

lemma executeCompute_conserves:
  assumes "executeCompute H e t op = Inr r" "distinct_witnesses t"
  shows "conserves e t r"
proof -
  have fin: "conserves e t r" if "executeComputeFinalize H e t (op_Payload op) maj = Inr r" for maj
    using that close_job_conserves [OF _ assms(2)] by (auto simp: executeComputeFinalize_def split: if_splits)
  have ex: "conserves e t r" if "executeComputeExpire H e t (op_Payload op) = Inr r"
    using that close_job_conserves [OF _ assms(2)] by (auto simp: executeComputeExpire_def split: if_splits)
  show ?thesis
    using assms fin ex executeComputeOffer_conserves executeComputeJob_conserves executeComputeAccept_conserves executeComputeResult_conserves
      executeComputeIngestAssignment_conserves executeComputeIngestResult_conserves
    unfolding executeCompute_def by (auto split: if_splits)
qed

end
