(* ===== verification/ValueTokens.thy ===== *)
theory ValueTokens
  imports ValueCompute
begin

text \<open>
  Creating, minting, burning and transferring tokens keeps the balances.
\<close>

subsection \<open>Tokens\<close>

lemma native_input_iff:
  "native_input e s v w = Inr v' \<longleftrightarrow> obj_Owner (wit_Object w) = s \<and> obj_Kind (wit_Object w) = KindCoin \<and>
     (\<exists>c. ParseCoin (obj_Data (wit_Object w)) = Inr c \<and> coin_Token c = en_NativeToken e \<and> \<not> overflows v (coin_Amount c) \<and>
       v' = v + coin_Amount c)"
  by (auto simp: native_input_def)

lemma balance_coin_value: "ParseCoin d = Inr c \<Longrightarrow> balance n k KindCoin d = native_value (coin_Token c) k (coin_Amount c)"
  by (simp add: balance_coin native_value_def)

lemma native_inputs:
  assumes "foldE (native_input e s) v ws = Inr v'"
  shows "native_value (en_NativeToken e) k v' = native_value (en_NativeToken e) k v + objects_balance (en_NativeToken e) k (map wit_Object ws) \<and>
    (\<forall>w \<in> set ws. obj_Owner (wit_Object w) = s)"
  using assms
proof (induction ws arbitrary: v)
  case (Cons w ws)
  then obtain c where c: "ParseCoin (obj_Data (wit_Object w)) = Inr c" "coin_Token c = en_NativeToken e"
    and no: "\<not> overflows v (coin_Amount c)" and k: "obj_Kind (wit_Object w) = KindCoin" "obj_Owner (wit_Object w) = s"
    and r: "foldE (native_input e s) (v + coin_Amount c) ws = Inr v'"
    by (auto simp: native_input_iff)
  then show ?case using Cons.IH [OF r] native_value_add [OF no] balance_native_coin [OF c] by simp
qed simp

lemma create_output_iff:
  "create_output H e t (v, p) (i, spec) = Inr q \<longleftrightarrow> os_Kind spec = KindCoin \<and>
     (\<exists>c d s. ParseCoin (os_Data spec) = Inr c \<and> coin_Token c = en_NativeToken e \<and> \<not> overflows v (coin_Amount c) \<and>
       ShardForAccount (router e) (os_Owner spec) = Inr d \<and> stampCoinOutput spec (en_Height e) = Inr s \<and>
       q = (v + coin_Amount c, place H (tx_ID H t) (tx_ShardID t) d (of_nat i) s p))"
  by (auto simp: create_output_def)

lemma create_outputs:
  assumes "foldE (create_output H e t) (v, p) specs = Inr (v', p')"
  shows "native_value (en_NativeToken e) k v' + placed_balance (en_NativeToken e) k p =
    native_value (en_NativeToken e) k v + placed_balance (en_NativeToken e) k p'"
  using assms
proof (induction specs arbitrary: v p)
  case (Cons x specs)
  obtain i spec where x: "x = (i, spec)" by (cases x)
  obtain c d s where c: "ParseCoin (os_Data spec) = Inr c" "coin_Token c = en_NativeToken e"
    and no: "\<not> overflows v (coin_Amount c)" and kd: "os_Kind spec = KindCoin" and s: "stampCoinOutput spec (en_Height e) = Inr s"
    and r: "foldE (create_output H e t) (v + coin_Amount c, place H (tx_ID H t) (tx_ShardID t) d (of_nat i) s p) specs = Inr (v', p')"
    using Cons.prems by (auto simp: create_output_iff x)
  show ?case
    using Cons.IH [OF r] native_value_add [OF no] balance_native_coin [OF c] stamp_balance [OF s c(1) kd] by (simp add: place_balance)
qed simp

lemma balance_definition_encoded:
  assumes "Definition_MarshalBinary d = Inr raw" "length (td_Name d) \<le> 64" "length (td_Symbol d) \<le> 16"
  shows "balance n k KindTokenDefinition raw = - native_value (td_TokenID d) k (td_CurrentSupply d)"
  using assms ParseDefinition_ok [of d]
  by (auto simp: Definition_MarshalBinary_def Definition_Validate_iff balance_definition trimmed_def native_value_def)

lemma token_output_balance:
  "NewCoinOutputAtHeight owner token amount h = Inr spec \<Longrightarrow> balance n k (os_Kind spec) (os_Data spec) = native_value token k amount"
  using coin_output_balance(1) coin_output_balance(2) [of owner token amount h spec n k] by (auto simp: native_value_def)

definition matched :: "Transaction \<Rightarrow> bool" where
  "matched t \<longleftrightarrow> map (\<lambda>w. obj_ID (wit_Object w)) (tx_Witnesses t) = map in_ObjectID (tx_Inputs t)"

lemma executeCreateToken_conserves:
  assumes "executeCreateToken H e t payload = Inr r" "matched t"
  shows "conserves e t r"
proof -
  let ?n = "en_NativeToken e" and ?token = "TokenIDFromTransaction H (tx_ID H t) 0"
  obtain c vin vout created outbound raw coin
    where p: "ParseCreateToken payload = Inr c"
      and i: "foldE (native_input e (tx_Sender t)) 0 (tx_Witnesses t) = Inr vin"
      and o: "foldE (create_output H e t) (0, [], []) (enumerate 0 (tx_Outputs t)) = Inr (vout, created, outbound)"
      and no: "\<not> overflows vout (tx_Fee t)" and v: "vin = vout + tx_Fee t"
      and d: "Definition_MarshalBinary \<lparr>td_TokenID = ?token, td_Name = ct_Name c, td_Symbol = ct_Symbol c,
               td_Decimals = ct_Decimals c, td_SupplyPolicy = ct_SupplyPolicy c, td_MaxSupply = ct_MaxSupply c,
               td_CurrentSupply = ct_InitialSupply c, td_MintAuthority = ct_MintAuthority c,
               td_Burnable = ct_Burnable c, td_Transferable = ct_Transferable c\<rparr> = Inr raw"
      and s: "NewCoinOutputAtHeight (tx_Sender t) ?token (ct_InitialSupply c) (en_Height e) = Inr coin"
      and r: "ex_Consumed r = map in_ObjectID (tx_Inputs t)" "ex_Outbound r = outbound" "ex_Created r = created @
         [\<lparr>obj_ID = ObjectIDForShard H (tx_ID H t) 0x80000000 (tx_ShardID t), obj_Version = 1, obj_Owner = tx_Sender t,
           obj_Kind = KindTokenDefinition, obj_Data = raw\<rparr>,
          output_object H (tx_ID H t) 0x80000001 (tx_ShardID t) coin]"
    using assms(1) by (auto simp: executeCreateToken_def Let_def split: if_splits)
  have "objects_balance ?n k (map wit_Object (tx_Witnesses t)) = objects_balance ?n k (ex_Created r) +
      outbound_balance ?n k (ex_Outbound r) + native_value ?n k (tx_Fee t)" for k
    using native_inputs [OF i, of k] create_outputs [OF o, of k] native_value_add [OF no, of ?n k] ParseCreateToken_valid [OF p]
      balance_definition_encoded [OF d, of ?n k] token_output_balance [OF s, of ?n k]
    by (simp add: r v output_object_def)
  moreover have "obj_ID (wit_Object w) \<in> set (ex_Consumed r)" if "w \<in> set (tx_Witnesses t)" for w
    using that assms(2) [unfolded matched_def, THEN arg_cong [of _ _ set]] by (auto simp: r)
  moreover have "owned_coins t" using native_inputs [OF i] by (simp add: owned_coins_def)
  ultimately show ?thesis by (simp add: conserves_def)
qed

lemma tokenDefinitionWitness_ok:
  assumes "tokenDefinitionWitness t oid = Inr (x, d)"
  shows "\<exists>w \<in> set (tx_Witnesses t). x = wit_Object w \<and> obj_ID x = oid \<and> obj_Kind x = KindTokenDefinition \<and> ParseDefinition (obj_Data x) = Inr d"
  using assms witnessByID_Some by (fastforce simp: tokenDefinitionWitness_def split: option.splits if_splits)

lemma executeMintToken_conserves:
  assumes "executeMintToken H e t payload = Inr r" "distinct_witnesses t"
  shows "conserves e t r"
  unfolding conserves_def
proof (intro allI conjI ballI impI)
  let ?n = "en_NativeToken e"
  obtain req x d d' created consumed raw coin
    where p: "ParseMintToken payload = Inr req" and x: "tokenDefinitionWitness t (mt_DefinitionObject req) = Inr (x, d)"
      and d': "Mint d (mt_Amount req) = Inr d'"
      and f: "feeOnlyOutputsExcluding H e t (mt_DefinitionObject req) [] = Inr (created, consumed)"
      and raw: "Definition_MarshalBinary d' = Inr raw"
      and s: "NewCoinOutputAtHeight (mt_Recipient req) (td_TokenID d) (mt_Amount req) (en_Height e) = Inr coin"
      and r: "ex_Consumed r = consumed @ [obj_ID x]" "ex_Outbound r = []" "ex_Created r = created @
            [x\<lparr>obj_Version := obj_Version x + 1, obj_Data := raw\<rparr>, output_object H (tx_ID H t) tokenMintOutputIndex (tx_ShardID t) coin]"
    using assms(1) by (auto simp: executeMintToken_def split: if_splits)
  obtain w where w: "w \<in> set (tx_Witnesses t)" "x = wit_Object w" "obj_ID x = mt_DefinitionObject req" "obj_Kind x = KindTokenDefinition"
    "ParseDefinition (obj_Data x) = Inr d"
    using tokenDefinitionWitness_ok [OF x] by blast
  have "mt_DefinitionObject req \<noteq> 0" using MintWire.parse_valid [OF p] by (simp add: mint_valid_def)
  then have X: "(if \<not> IsZero32 (mt_DefinitionObject req) then {mt_DefinitionObject req} else {}) \<union> set (map ac_ObjectID []) = {obj_ID x}"
    by (simp add: IsZero32_def w(3))
  note fee = fee_conserves [OF f, unfolded X]
  show "owned_coins t" using same_witness [OF assms(2) w(1)] w by (intro owned_coinsI [OF fee(3)]) auto
  note nm = ParseDefinition_valid [OF w(5)]
  have m: "td_TokenID d' = td_TokenID d" "td_Name d' = td_Name d" "td_Symbol d' = td_Symbol d"
    "unat (td_CurrentSupply d') = unat (td_CurrentSupply d) + unat (mt_Amount req)"
    using d' by (auto simp: Mint_iff unat_add_no_overflow overflows_iff)
  fix k
  show "objects_balance ?n k (map wit_Object (tx_Witnesses t)) = objects_balance ?n k (ex_Created r) +
      outbound_balance ?n k (ex_Outbound r) + native_value ?n k (tx_Fee t)"
    using rest_insert [of "tx_Witnesses t" w "{}" ?n k] assms(2) w fee(1) [of k] balance_definition [OF w(5), of ?n k] nm m
      balance_definition_encoded [OF raw, of ?n k] token_output_balance [OF s, of ?n k]
    by (auto simp: r output_object_def distinct_witnesses_def native_value_def)
  fix v assume "v \<in> set (tx_Witnesses t)"
  then show "obj_ID (wit_Object v) \<in> set (ex_Consumed r)" using in_rest [of v "tx_Witnesses t" "{obj_ID x}"] fee(2) by (auto simp: r)
qed

lemma burn_inputs:
  assumes "foldE (burn_input e s x token) (vn, vt, cons) ws = Inr (vn', vt', cons')" "token \<noteq> en_NativeToken e"
  shows "native_value (en_NativeToken e) k vn' + native_value token k vt' =
      native_value (en_NativeToken e) k vn + native_value token k vt + objects_balance (en_NativeToken e) k (rest {x} ws) \<and>
    cons' = cons @ map obj_ID (rest {x} ws) \<and> (\<forall>o' \<in> set (rest {x} ws). obj_Owner o' = s)"
  using assms(1)
proof (induction ws arbitrary: vn vt cons)
  case (Cons w ws)
  show ?case
  proof (cases "obj_ID (wit_Object w) = x")
    case True
    then show ?thesis using Cons.IH [of vn vt cons] Cons.prems by (simp add: burn_input_def)
  next
    case False
    then obtain c vn1 vt1 where c: "ParseCoin (obj_Data (wit_Object w)) = Inr c" and k: "obj_Kind (wit_Object w) = KindCoin" "obj_Owner (wit_Object w) = s"
      and v: "coin_Token c = en_NativeToken e \<and> \<not> overflows vn (coin_Amount c) \<and> vn1 = vn + coin_Amount c \<and> vt1 = vt \<or>
        coin_Token c = token \<and> \<not> overflows vt (coin_Amount c) \<and> vn1 = vn \<and> vt1 = vt + coin_Amount c"
      and r: "foldE (burn_input e s x token) (vn1, vt1, cons @ [obj_ID (wit_Object w)]) ws = Inr (vn', vt', cons')"
      using Cons.prems by (auto simp: burn_input_def Let_def split: if_splits)
    have "native_value (en_NativeToken e) k vn1 + native_value token k vt1 =
        native_value (en_NativeToken e) k vn + native_value token k vt + balance (en_NativeToken e) k KindCoin (obj_Data (wit_Object w))"
      using v c assms(2) by (auto simp: native_value_add balance_coin_value)
    then show ?thesis using Cons.IH [OF r] False k by simp
  qed
qed simp

lemma burn_outputs:
  assumes "foldE (burn_output H e t token) (vn, vt, cr) specs = Inr (vn', vt', cr')" "token \<noteq> en_NativeToken e"
  shows "native_value (en_NativeToken e) k vn' + native_value token k vt' + objects_balance (en_NativeToken e) k cr =
      native_value (en_NativeToken e) k vn + native_value token k vt + objects_balance (en_NativeToken e) k cr'"
  using assms(1)
proof (induction specs arbitrary: vn vt cr)
  case (Cons x specs)
  obtain i spec where x: "x = (i, spec)" by (cases x)
  obtain c vn1 vt1 s where c: "ParseCoin (os_Data spec) = Inr c" and kd: "os_Kind spec = KindCoin"
    and v: "coin_Token c = en_NativeToken e \<and> \<not> overflows vn (coin_Amount c) \<and> vn1 = vn + coin_Amount c \<and> vt1 = vt \<or>
      coin_Token c = token \<and> \<not> overflows vt (coin_Amount c) \<and> vn1 = vn \<and> vt1 = vt + coin_Amount c"
    and s: "stampCoinOutput spec (en_Height e) = Inr s"
    and r: "foldE (burn_output H e t token) (vn1, vt1, cr @ [output_object H (tx_ID H t) (of_nat i) (tx_ShardID t) s]) specs = Inr (vn', vt', cr')"
    using Cons.prems by (auto simp: burn_output_def x split: if_splits)
  have "native_value (en_NativeToken e) k vn1 + native_value token k vt1 =
      native_value (en_NativeToken e) k vn + native_value token k vt + balance (en_NativeToken e) k KindCoin (os_Data spec)"
    using v c assms(2) by (auto simp: native_value_add balance_coin_value)
  then show ?case using Cons.IH [OF r] stamp_balance [OF s c kd] by (simp add: output_object_def)
qed simp

lemma executeBurnToken_conserves:
  assumes "executeBurnToken H e t payload = Inr r" "distinct_witnesses t"
  shows "conserves e t r"
  unfolding conserves_def
proof (intro allI conjI ballI impI)
  let ?n = "en_NativeToken e"
  obtain req x d d' vn vt consumed un ut created raw
    where "ParseBurnToken payload = Inr req" and x: "tokenDefinitionWitness t (bt_DefinitionObject req) = Inr (x, d)" and nn: "td_TokenID d \<noteq> ?n"
      and d': "Burn d (bt_Amount req) = Inr d'"
      and i: "foldE (burn_input e (tx_Sender t) (bt_DefinitionObject req) (td_TokenID d)) (0, 0, []) (tx_Witnesses t) = Inr (vn, vt, consumed)"
      and o: "foldE (burn_output H e t (td_TokenID d)) (0, 0, []) (enumerate 0 (tx_Outputs t)) = Inr (un, ut, created)"
      and no: "\<not> overflows un (tx_Fee t)" "\<not> overflows ut (bt_Amount req)" and v: "vn = un + tx_Fee t" "vt = ut + bt_Amount req"
      and raw: "Definition_MarshalBinary d' = Inr raw"
      and r: "ex_Consumed r = consumed @ [obj_ID x]" "ex_Outbound r = []"
        "ex_Created r = created @ [x\<lparr>obj_Version := obj_Version x + 1, obj_Data := raw\<rparr>]"
    using assms(1) by (auto simp: executeBurnToken_def split: if_splits)
  obtain w where w: "w \<in> set (tx_Witnesses t)" "x = wit_Object w" "obj_ID x = bt_DefinitionObject req" "obj_Kind x = KindTokenDefinition"
    "ParseDefinition (obj_Data x) = Inr d"
    using tokenDefinitionWitness_ok [OF x] by blast
  have "\<forall>o' \<in> set (rest {obj_ID x} (tx_Witnesses t)). obj_Owner o' = tx_Sender t" 
    using burn_inputs [OF i nn, THEN conjunct2, THEN conjunct2] by (simp only: w(3))
  then show "owned_coins t"
  proof (rule owned_coinsI)
    fix v assume "v \<in> set (tx_Witnesses t)" "obj_ID (wit_Object v) \<in> {obj_ID x}"
    then have "v = w" using same_witness [OF assms(2) w(1)] w(2) by simp
    then show "obj_Kind (wit_Object v) \<noteq> KindCoin" using w(2,4) by simp
  qed
  note nm = ParseDefinition_valid [OF w(5)]
  have m: "td_TokenID d' = td_TokenID d" "td_Name d' = td_Name d" "td_Symbol d' = td_Symbol d"
    "int (unat (td_CurrentSupply d')) = int (unat (td_CurrentSupply d)) - int (unat (bt_Amount req))"
    using d' by (auto simp: Burn_iff unat_sub word_le_nat_alt)
  fix k
  show "objects_balance ?n k (map wit_Object (tx_Witnesses t)) = objects_balance ?n k (ex_Created r) +
      outbound_balance ?n k (ex_Outbound r) + native_value ?n k (tx_Fee t)"
    using rest_insert [of "tx_Witnesses t" w "{}" ?n k] assms(2) w burn_inputs [OF i nn, of k] burn_outputs [OF o nn, of k]
      balance_definition [OF w(5), of ?n k] nm m native_value_add [OF no(1), of ?n k] native_value_add [OF no(2), of "td_TokenID d" k] v
      balance_definition_encoded [OF raw, of ?n k]
    by (auto simp: r distinct_witnesses_def native_value_def)
  fix u assume "u \<in> set (tx_Witnesses t)"
  then show "obj_ID (wit_Object u) \<in> set (ex_Consumed r)"
    using in_rest [of u "tx_Witnesses t" "{obj_ID x}"] burn_inputs [OF i nn] by (auto simp: r w(3))
qed

subsection \<open>Transfers\<close>

lemma add_total_ok:
  assumes "add_total m token v = Inr m'"
  shows "int (unat (amount_at m' k)) = int (unat (amount_at m k)) + native_value token k v"
    and "fst ` set m' = insert token (fst ` set m)"
proof -
  have no: "\<not> overflows (amount_at m token) v" and m': "m' = AList.update token (amount_at m token + v) m"
    using assms by (auto simp: add_total_def Let_def split: if_splits)
  have "amount_at m' k = (if k = token then amount_at m token + v else amount_at m k)" by (simp add: m' amount_at_def update_conv')
  then show "int (unat (amount_at m' k)) = int (unat (amount_at m k)) + native_value token k v"
    using unat_add_no_overflow [OF no] by (simp add: native_value_def del: of_nat_unat)
  show "fst ` set m' = insert token (fst ` set m)" by (simp add: m' dom_update)
qed

lemma transfer_input_cases:
  assumes "transfer_input e s (m, ds, cons) w = Inr q"
  obtains (coin) c m' where "obj_Kind (wit_Object w) = KindCoin \<and> obj_Owner (wit_Object w) = s" "ParseCoin (obj_Data (wit_Object w)) = Inr c"
      "add_total m (coin_Token c) (coin_Amount c) = Inr m'" "q = (m', ds, cons @ [obj_ID (wit_Object w)])"
    | (token) ds' where "obj_Kind (wit_Object w) = KindTokenDefinition" "q = (m, ds', cons)"
  using assms by (auto simp: transfer_input_def Let_def split: if_splits)

definition coin_witnesses :: "Witness list \<Rightarrow> Object list" where
  "coin_witnesses ws = filter (\<lambda>o'. obj_Kind o' = KindCoin) (map wit_Object ws)"

lemma coin_witnesses_simps [simp]:
  "coin_witnesses [] = []"
  "coin_witnesses (w # ws) = (if obj_Kind (wit_Object w) = KindCoin then wit_Object w # coin_witnesses ws else coin_witnesses ws)"
  by (simp_all add: coin_witnesses_def)

definition coin_tokens :: "Witness list \<Rightarrow> tokenid set" where
  "coin_tokens ws = {token. \<exists>w \<in> set ws. obj_Kind (wit_Object w) = KindCoin \<and>
     (case ParseCoin (obj_Data (wit_Object w)) of Inl _ \<Rightarrow> False | Inr c \<Rightarrow> coin_Token c = token)}"

lemma coin_tokens_simps:
  "coin_tokens [] = {}"
  "obj_Kind (wit_Object w) = KindCoin \<Longrightarrow> ParseCoin (obj_Data (wit_Object w)) = Inr c \<Longrightarrow> coin_tokens (w # ws) = insert (coin_Token c) (coin_tokens ws)"
  "obj_Kind (wit_Object w) \<noteq> KindCoin \<Longrightarrow> coin_tokens (w # ws) = coin_tokens ws"
  by (auto simp: coin_tokens_def)

lemma transfer_inputs:
  assumes "foldE (transfer_input e s) (m, ds, cons) ws = Inr (m', ds', cons')"
  shows "int (unat (amount_at m' k)) = int (unat (amount_at m k)) + objects_balance n k (coin_witnesses ws) \<and>
    cons' = cons @ map obj_ID (coin_witnesses ws) \<and>
    fst ` set m' = fst ` set m \<union> coin_tokens ws \<and>
    (\<forall>w \<in> set ws. obj_Kind (wit_Object w) = KindCoin \<longrightarrow> obj_Owner (wit_Object w) = s)"
  using assms
proof (induction ws arbitrary: m ds cons)
  case (Cons w ws)
  then obtain q where q: "transfer_input e s (m, ds, cons) w = Inr q" "foldE (transfer_input e s) q ws = Inr (m', ds', cons')" by auto
  from q(1) show ?case
  proof (cases rule: transfer_input_cases)
    case (coin c m1)
    note IH = Cons.IH [OF q(2) [unfolded coin(4)]]
    have "fst ` set m' = fst ` set m \<union> coin_tokens (w # ws)"
      using IH by (simp add: add_total_ok(2) [OF coin(3)] coin_tokens_simps(2) [OF conjunct1 [OF coin(1)] coin(2)])
    then show ?thesis using IH coin(1) add_total_ok(1) [OF coin(3), of k] balance_coin_value [OF coin(2), of n k] by simp
  next
    case (token ds1)
    then show ?thesis using Cons.IH [OF q(2) [unfolded token(2)]] by (simp add: coin_tokens_simps)
  qed
qed (simp add: coin_tokens_simps)

lemma transfer_output_ok:
  assumes "transfer_output H e t ds (m, p) (i, spec) = Inr q"
  shows "os_Kind spec = KindCoin \<and> (\<exists>c m' d s. ParseCoin (os_Data spec) = Inr c \<and> add_total m (coin_Token c) (coin_Amount c) = Inr m' \<and>
     stampCoinOutput spec (en_Height e) = Inr s \<and> q = (m', place H (tx_ID H t) (tx_ShardID t) d (of_nat i) s p))"
  using assms by (auto simp: transfer_output_def split: if_splits)

lemma transfer_outputs:
  assumes "foldE (transfer_output H e t ds) (m, p) specs = Inr (m', p')"
  shows "int (unat (amount_at m' k)) + placed_balance n k p = int (unat (amount_at m k)) + placed_balance n k p'"
  using assms
proof (induction specs arbitrary: m p)
  case (Cons x specs)
  obtain i spec where x: "x = (i, spec)" by (cases x)
  obtain q where q: "transfer_output H e t ds (m, p) (i, spec) = Inr q" "foldE (transfer_output H e t ds) q specs = Inr (m', p')"
    using Cons.prems by (auto simp: x)
  from transfer_output_ok [OF q(1)] obtain c m1 d s where c: "ParseCoin (os_Data spec) = Inr c" "os_Kind spec = KindCoin"
    and m1: "add_total m (coin_Token c) (coin_Amount c) = Inr m1" and s: "stampCoinOutput spec (en_Height e) = Inr s"
    and qq: "q = (m1, place H (tx_ID H t) (tx_ShardID t) d (of_nat i) s p)" by blast
  show ?case
    using Cons.IH [OF q(2) [unfolded qq]] add_total_ok(1) [OF m1, of k] balance_coin_value [OF c(1), of n k] stamp_balance [OF s c]
    by (simp add: place_balance)
qed simp

lemma amount_at_delete: "amount_at (AList.delete x m) k = (if k = x then 0 else amount_at m k)"
  by (simp add: amount_at_def delete_conv')

lemma transfer_settle_ok:
  assumes "transfer_settle e fee ds m out token = Inr out'"
  shows "out' = AList.delete token out \<and>
    int (unat (amount_at m token)) = int (unat (amount_at out token)) + native_value (en_NativeToken e) token fee"
proof (cases "token = en_NativeToken e")
  case True
  then have "\<not> overflows (amount_at out token) fee" "amount_at m token = amount_at out token + fee" "out' = AList.delete token out"
    using assms by (auto simp: transfer_settle_def Let_def split: if_splits)
  then show ?thesis by (simp add: True native_value_def unat_add_no_overflow del: of_nat_unat)
next
  case False
  then show ?thesis using assms by (auto simp: transfer_settle_def Let_def native_value_def split: if_splits)
qed

lemma transfer_settled:
  assumes "foldE (transfer_settle e fee ds m) out ks = Inr []"
  shows "int (unat (amount_at m k)) = int (unat (amount_at out k)) + native_value (en_NativeToken e) k fee \<or> k \<notin> set ks"
    and "k \<notin> set ks \<Longrightarrow> amount_at out k = 0"
  using assms
proof (induction ks arbitrary: out)
  case (Cons x ks)
  {
    case 1
    then obtain out1 where s: "transfer_settle e fee ds m out x = Inr out1" "foldE (transfer_settle e fee ds m) out1 ks = Inr []" by auto
    show ?case using Cons.IH(1) [OF s(2)] transfer_settle_ok [OF s(1)] by (cases "k = x") (auto simp: amount_at_delete)
  next
    case 2
    then obtain out1 where s: "transfer_settle e fee ds m out x = Inr out1" "foldE (transfer_settle e fee ds m) out1 ks = Inr []" by auto
    show ?case using Cons.IH(2) [OF _ s(2)] transfer_settle_ok [OF s(1)] 2(1) by (auto simp: amount_at_delete)
  }
qed (simp_all add: amount_at_def)

definition holds_native :: "Engine \<Rightarrow> Transaction \<Rightarrow> bool" where
  "holds_native e t \<longleftrightarrow> list_ex (\<lambda>w. obj_Kind (wit_Object w) = KindCoin \<and>
     (case ParseCoin (obj_Data (wit_Object w)) of Inl _ \<Rightarrow> False | Inr c \<Rightarrow> coin_Token c = en_NativeToken e)) (tx_Witnesses t)"

lemma case_Inr: "(case m of Inl _ \<Rightarrow> False | Inr c \<Rightarrow> P c) \<longleftrightarrow> (\<exists>c. m = Inr c \<and> P c)"
  by (cases m) simp_all

text \<open>The fee of a transaction: a transfer without a native coin pays none.\<close>

definition paid_fee :: "Engine \<Rightarrow> Transaction \<Rightarrow> u64" where
  "paid_fee e t = (if list_ex (\<lambda>op. op_Kind op = OpTransfer) (tx_Operations t) \<and> \<not> holds_native e t then 0 else tx_Fee t)"

definition spent :: "Transaction \<Rightarrow> ExecResult \<Rightarrow> Object list" where
  "spent t r = filter (\<lambda>o'. obj_ID o' \<in> set (ex_Consumed r)) (map wit_Object (tx_Witnesses t))"

lemma conserves_spent:
  assumes "conserves e t r"
  shows "objects_balance (en_NativeToken e) k (spent t r) = objects_balance (en_NativeToken e) k (map wit_Object (tx_Witnesses t))"
proof -
  have "objects_balance (en_NativeToken e) k (filter (\<lambda>o'. obj_ID o' \<in> set (ex_Consumed r)) (map wit_Object ws)) =
      objects_balance (en_NativeToken e) k (map wit_Object ws)" if "set ws \<subseteq> set (tx_Witnesses t)" for ws
    using that assms by (induction ws) (auto simp: conserves_def)
  then show ?thesis by (simp add: spent_def)
qed

lemma spent_coins:
  assumes "distinct_witnesses t" "ex_Consumed r = map obj_ID (coin_witnesses (tx_Witnesses t))"
  shows "spent t r = coin_witnesses (tx_Witnesses t)"
proof -
  have "(obj_ID (wit_Object w) \<in> set (ex_Consumed r)) = (obj_Kind (wit_Object w) = KindCoin)" if w: "w \<in> set (tx_Witnesses t)" for w
  proof
    assume "obj_ID (wit_Object w) \<in> set (ex_Consumed r)"
    then obtain v where v: "v \<in> set (tx_Witnesses t)" "obj_Kind (wit_Object v) = KindCoin" "obj_ID (wit_Object w) = obj_ID (wit_Object v)"
      by (auto simp: assms(2) coin_witnesses_def)
    then show "obj_Kind (wit_Object w) = KindCoin" using distinct_witnesses_kind [OF assms(1) w v(1)] by auto
  next
    assume "obj_Kind (wit_Object w) = KindCoin"
    then have "wit_Object w \<in> set (coin_witnesses (tx_Witnesses t))" using w by (simp add: coin_witnesses_def)
    then show "obj_ID (wit_Object w) \<in> set (ex_Consumed r)" by (simp add: assms(2))
  qed
  then show ?thesis unfolding spent_def coin_witnesses_def by (intro filter_cong [OF refl]) auto
qed

lemma executeTransfer_conserves:
  assumes "executeTransfer H ord e t = Inr r" "covers ord" "distinct_witnesses t" "list_ex (\<lambda>op. op_Kind op = OpTransfer) (tx_Operations t)"
  shows "objects_balance (en_NativeToken e) k (spent t r) = objects_balance (en_NativeToken e) k (ex_Created r) +
    outbound_balance (en_NativeToken e) k (ex_Outbound r) + native_value (en_NativeToken e) k (paid_fee e t)"
proof -
  let ?n = "en_NativeToken e"
  obtain m ds consumed out created outbound
    where i: "foldE (transfer_input e (tx_Sender t)) ([], [], []) (tx_Witnesses t) = Inr (m, ds, consumed)"
      and o: "foldE (transfer_output H e t ds) ([], [], []) (enumerate 0 (tx_Outputs t)) = Inr (out, created, outbound)"
      and s: "foldE (transfer_settle e (tx_Fee t) ds m) out (ord (map fst m)) = Inr []"
      and r: "ex_Consumed r = consumed" "ex_Created r = created" "ex_Outbound r = outbound"
    using assms(1) by (auto simp: executeTransfer_def split: if_splits)
  have ks: "set (ord (map fst m)) = fst ` set m" using assms(2) by (simp add: covers_def)
  note ti = transfer_inputs [OF i, of k ?n]
  have sp: "spent t r = coin_witnesses (tx_Witnesses t)" using spent_coins [OF assms(3)] ti by (simp add: r)
  have out: "int (unat (amount_at out k)) = objects_balance ?n k created + outbound_balance ?n k outbound"
    using transfer_outputs [OF o, of k ?n] by (simp add: amount_at_def)
  have native: "?n \<in> fst ` set m \<longleftrightarrow> holds_native e t"
    using ti by (simp add: coin_tokens_def holds_native_def list_ex_iff)
  have in0: "int (unat (amount_at m k)) = objects_balance ?n k (spent t r)" using ti by (simp add: sp amount_at_def)
  show ?thesis
  proof (cases "k \<in> fst ` set m")
    case True
    then have "native_value ?n k (paid_fee e t) = native_value ?n k (tx_Fee t)" using native
      by (cases "k = ?n") (simp_all add: native_value_def paid_fee_def)
    then show ?thesis using transfer_settled(1) [OF s, of k] True in0 out by (simp add: ks r)
  next
    case False
    then have "map_of m k = None" by (simp add: map_of_eq_None_iff)
    then have "amount_at m k = 0" by (simp add: amount_at_def)
    moreover have "amount_at out k = 0" using transfer_settled(2) [OF s, of k] False by (simp add: ks)
    moreover have "native_value ?n k (paid_fee e t) = 0" using False native assms(4) by (auto simp: native_value_def paid_fee_def)
    ultimately show ?thesis using in0 out by (simp add: r)
  qed
qed

end
