(* ===== verification/Effects.thy ===== *)
theory Effects
  imports ValueTokens
begin

text \<open>
  What an accepted transaction touches: the objects it consumes are among its witnesses, which are its declared inputs,
  and the coins among them belong to its sender.
\<close>

subsection \<open>Consumed objects\<close>

definition witness_ids :: "Transaction \<Rightarrow> objectid set" where
  "witness_ids t = (\<lambda>w. obj_ID (wit_Object w)) ` set (tx_Witnesses t)"

lemma rest_ids: "x \<in> set (rest X (tx_Witnesses t)) \<Longrightarrow> obj_ID x \<in> witness_ids t \<and> obj_ID x \<notin> X"
  by (auto simp: rest_def witness_ids_def)

lemma account_consumed:
  assumes "accountNativeValue H e t X a b = Inr (created, outbound, consumed)"
  shows "set consumed \<subseteq> witness_ids t"
  using account_conserves(2) [OF assms] rest_ids [of _ X t] by auto

lemma fee_consumed:
  assumes "feeOnlyOutputsExcluding H e t x as = Inr (created, consumed)"
  shows "set consumed \<subseteq> witness_ids t"
    and "x \<noteq> 0 \<Longrightarrow> set consumed \<inter> insert x (ac_ObjectID ` set as) = {}"
proof -
  let ?X = "(if \<not> IsZero32 x then {x} else {}) \<union> set (map ac_ObjectID as)"
  have r: "oid \<in> witness_ids t \<and> oid \<notin> ?X" if "oid \<in> set consumed" for oid
  proof -
    from that obtain x' where "x' \<in> set (rest ?X (tx_Witnesses t))" "oid = obj_ID x'"
      unfolding fee_conserves(2) [OF assms] by auto
    then show ?thesis using rest_ids [of x' ?X t] by blast
  qed
  show "set consumed \<subseteq> witness_ids t" using r by blast
  show "set consumed \<inter> insert x (ac_ObjectID ` set as) = {}" if "x \<noteq> 0"
  proof -
    have "?X = insert x (ac_ObjectID ` set as)" using that by (simp add: IsZero32_def)
    then show ?thesis using r by blast
  qed
qed

lemma witness_found:
  "witnessByID t oid = Some w \<Longrightarrow> obj_ID (wit_Object w) \<in> witness_ids t"
  "witnessByKind t kd = Some w \<Longrightarrow> obj_ID (wit_Object w) \<in> witness_ids t"
  "owned_witness t oid kd = Inr x \<Longrightarrow> obj_ID x \<in> witness_ids t"
  "tokenDefinitionWitness t oid = Inr (x, d) \<Longrightarrow> obj_ID x \<in> witness_ids t"
  using witnessByID_Some witnessByKind_Some owned_witness_ok tokenDefinitionWitness_ok unfolding witness_ids_def by blast+

lemmas consumed_intros = subsetD [OF account_consumed] subsetD [OF fee_consumed(1)] witness_found

text \<open>The witnesses named by a handler and the coins it consumes are witnesses of the transaction.\<close>

lemma lending_consumed:
  assumes "executeLending H e t op = Inr r"
  shows "set (ex_Consumed r) \<subseteq> witness_ids t"
proof -
  consider "executeLoanOffer H e t (op_Payload op) = Inr r" | "executeLoanCancel H e t (op_Payload op) = Inr r"
    | "executeLoanAccept H e t (op_Payload op) = Inr r" | "executeLoanRepay H e t (op_Payload op) = Inr r"
    | "executeLoanDefault H e t (op_Payload op) = Inr r"
    using assms by (auto simp: executeLending_def split: if_splits)
  then show ?thesis
    by cases (auto simp: executeLoanOffer_def executeLoanCancel_def executeLoanAccept_def executeLoanRepay_def
      executeLoanDefault_def result_iff intro: consumed_intros)
qed

lemma cross_lending_consumed:
  assumes "executeCrossShardLending H e t op = Inr r"
  shows "set (ex_Consumed r) \<subseteq> witness_ids t"
proof -
  consider "executeCrossLoanOffer H e t (op_Payload op) = Inr r" | "executeCrossLoanAccept H e t (op_Payload op) = Inr r"
    | "executeCrossLoanRepay H e t (op_Payload op) = Inr r" | "executeCrossLoanSettle H e t = Inr r"
    | "executeCrossLoanDefault H e t (op_Payload op) = Inr r" | "executeCrossLoanExpire H e t (op_Payload op) = Inr r"
    using assms by (auto simp: executeCrossShardLending_def split: if_splits)
  then show ?thesis
    by cases (auto simp: executeCrossLoanOffer_def executeCrossLoanAccept_def executeCrossLoanRepay_def executeCrossLoanSettle_def
      executeCrossLoanDefault_def executeCrossLoanExpire_def result_iff intro: consumed_intros)
qed

lemma accept_consumed:
  assumes "executeComputeAccept H e t payload = Inr r"
  shows "set (ex_Consumed r) \<subseteq> witness_ids t"
proof -
  obtain w m created outbound consumed
    where "ParseAssignmentMessage payload = Inr m" "witnessByKind t KindComputeOffer = Some w" "obj_ID (wit_Object w) = am_OfferID m"
      "accountNativeValue H e t {am_OfferID m} (oc_Collateral (am_Offer m)) (jb_CollateralRequired (am_Job m)) = Inr (created, outbound, consumed)"
      "ex_Consumed r = consumed @ [am_OfferID m]"
    using assms by (auto simp: executeComputeAccept_def result_iff case_prod_beta)
  then show ?thesis using account_consumed witness_found(2) by fastforce
qed

lemma executeCompute_cases:
  assumes "executeCompute H e t op = Inr r"
  obtains "executeComputeOffer H e t (op_Payload op) = Inr r" | "executeComputeJob H e t (op_Payload op) = Inr r"
    | "executeComputeAccept H e t (op_Payload op) = Inr r" | "executeComputeResult H e t (op_Payload op) = Inr r"
    | "executeComputeIngestAssignment H e t (op_Payload op) = Inr r" | "executeComputeIngestResult H e t (op_Payload op) = Inr r"
    | maj where "executeComputeFinalize H e t (op_Payload op) maj = Inr r" | "executeComputeExpire H e t (op_Payload op) = Inr r"
  using assms by (auto simp: executeCompute_def split: if_splits)

lemma compute_consumed:
  assumes "executeCompute H e t op = Inr r"
  shows "set (ex_Consumed r) \<subseteq> witness_ids t"
  using assms
  by (cases rule: executeCompute_cases) (auto simp: accept_consumed [THEN subsetD] executeComputeOffer_def executeComputeJob_def executeComputeResult_def
      executeComputeIngestAssignment_def executeComputeIngestResult_def executeComputeFinalize_def executeComputeExpire_def
      close_job_def result_iff case_prod_beta intro: consumed_intros)

lemma credential_consumed:
  assumes "executeDeviceCredential C e t op = Inr r"
  shows "set (ex_Consumed r) \<subseteq> witness_ids t"
proof -
  consider "executeDeviceCredentialRegister C e t (op_Payload op) = Inr r" | "executeDeviceCredentialUpdate C e t (op_Payload op) = Inr r"
    | "executeDeviceCredentialRevoke C e t (op_Payload op) = Inr r"
    using assms by (auto simp: executeDeviceCredential_def split: if_splits)
  then show ?thesis
    by cases (auto simp: executeDeviceCredentialRegister_def executeDeviceCredentialUpdate_def executeDeviceCredentialRevoke_def
      feeOnlyOutputs_def result_iff intro: consumed_intros)
qed

lemma burn_consumed:
  assumes "executeBurnToken H e t payload = Inr r"
  shows "set (ex_Consumed r) \<subseteq> witness_ids t"
proof -
  have ids: "cons' = cons @ map obj_ID (rest {x} ws)"
    if "foldE (burn_input e s x token) (vn, vt, cons) ws = Inr (vn', vt', cons')" "token \<noteq> en_NativeToken e"
    for e s x token vn vt cons ws vn' vt' cons' using burn_inputs [OF that] by blast
  show ?thesis
    using assms by (auto simp: executeBurnToken_def result_iff intro: consumed_intros dest!: ids dest: rest_ids)
qed

lemma token_consumed:
  "executeMintToken H e t payload = Inr r \<Longrightarrow> set (ex_Consumed r) \<subseteq> witness_ids t"
  "executeDeployContract H S e t payload = Inr r \<Longrightarrow> set (ex_Consumed r) \<subseteq> witness_ids t"
  by (auto simp: executeMintToken_def executeDeployContract_def feeOnlyOutputs_def result_iff intro: consumed_intros split: if_splits)

lemma metered_written:
  assumes "metered_Execute m request = Inr res" "a \<in> set (rq_Accesses request)" "ac_ObjectID a \<in> fst ` set (cl_Writes res)"
  shows "ac_Write a"
proof -
  obtain allowed where al: "foldE allow Map.empty (rq_Accesses request) = Inr allowed"
    and w: "\<forall>oid \<in> set (map fst (cl_Writes res)). allowed oid = Some True"
    using assms(1) by (auto simp: metered_Execute_def validateRequest_def checkE_ok result_iff split: option.splits)
  have "(\<forall>oid. f oid \<noteq> None \<longrightarrow> allowed oid = f oid) \<and> (\<forall>a \<in> set as. allowed (ac_ObjectID a) = Some (ac_Write a))"
    if "foldE allow f as = Inr allowed" for f as
    using that by (induction as arbitrary: f) (fastforce simp: allow_def guard_eq_Inr)+
  from this [OF al] show ?thesis using w assms(2,3) by force
qed

lemma call_consumed:
  assumes "executeContractCall H S e t payload = Inr r" "ParseCall payload = Inr call" "distinct_witnesses t"
    "\<forall>w \<in> set (tx_Witnesses t). obj_ID (wit_Object w) \<noteq> 0"
  shows "set (ex_Consumed r) \<subseteq> witness_ids t" "cc_ContractObject call \<notin> set (ex_Consumed r)"
    and "\<And>a. a \<in> set (cc_Accesses call) \<Longrightarrow> \<not> ac_Write a \<Longrightarrow> ac_ObjectID a \<notin> set (ex_Consumed r)"
proof -
  have found: "v \<in> set (tx_Witnesses t) \<and> obj_ID (wit_Object v) = oid" if "witness_map t oid = Some v" for v oid
    using map_of_SomeD [OF that [unfolded witness_map_def]] by auto
  obtain w stored runtime vs res created consumed
    where w: "witness_map t (cc_ContractObject call) = Some w" "obj_Kind (wit_Object w) = KindContract"
      and "ParseStoredContract (obj_Data (wit_Object w)) = Inr stored" "contractRuntime S e (dp_Runtime (sc_Deployment stored)) = Some runtime"
      and rd: "foldE (read_state t) [] (cc_Accesses call) = Inr vs"
      and ex: "metered_Execute (Some runtime)
         \<lparr>rq_ContractID = sc_ID stored, rq_Runtime = dp_Runtime (sc_Deployment stored),
          rq_Code = dp_Code (sc_Deployment stored), rq_Entrypoint = cc_Entrypoint call, rq_Arguments = cc_Arguments call,
          rq_Accesses = cc_Accesses call, rq_ReadValues = vs, rq_FuelLimit = cc_FuelLimit call\<rparr> = Inr res"
      and f: "feeOnlyOutputsExcluding H e t (cc_ContractObject call) (cc_Accesses call) = Inr (created, consumed)"
      and r: "ex_Consumed r = consumed @ map fst (cl_Writes res)"
    using assms(1,2) unfolding executeContractCall_def by (auto simp: result_iff)
  have nz: "cc_ContractObject call \<noteq> 0" using found [OF w(1)] assms(4) by auto
  have wr: "oid \<in> ac_ObjectID ` set (cc_Accesses call)" if "oid \<in> fst ` set (cl_Writes res)" for oid
    using metered_writes [OF ex] that by auto
  have st: "\<exists>v. witness_map t oid = Some v \<and> obj_Kind (wit_Object v) = KindContractState" if "oid \<in> ac_ObjectID ` set (cc_Accesses call)" for oid
    using read_state_kinds [OF rd] that by auto
  have "fst ` set (cl_Writes res) \<subseteq> witness_ids t"
  proof
    fix oid assume "oid \<in> fst ` set (cl_Writes res)"
    then obtain v where "witness_map t oid = Some v" using wr st by blast
    from found [OF this] show "oid \<in> witness_ids t" by (auto simp: witness_ids_def)
  qed
  then show "set (ex_Consumed r) \<subseteq> witness_ids t" using fee_consumed(1) [OF f] by (simp add: r)
  have "cc_ContractObject call \<notin> ac_ObjectID ` set (cc_Accesses call)" using st [of "cc_ContractObject call"] w by auto
  then show "cc_ContractObject call \<notin> set (ex_Consumed r)" using fee_consumed(2) [OF f nz] wr by (auto simp: r)
  show "ac_ObjectID a \<notin> set (ex_Consumed r)" if "a \<in> set (cc_Accesses call)" "\<not> ac_Write a" for a
    using fee_consumed(2) [OF f nz] metered_written [OF ex, of a] that by (auto simp: r)
qed

lemma transfer_consumed:
  assumes "executeTransfer H ord e t = Inr r" "distinct_witnesses t"
  shows "set (ex_Consumed r) \<subseteq> witness_ids t" "owned_coins t"
    and "w \<in> set (tx_Witnesses t) \<Longrightarrow> obj_Kind (wit_Object w) \<noteq> KindCoin \<Longrightarrow> obj_ID (wit_Object w) \<notin> set (ex_Consumed r)"
proof -
  obtain m ds where i: "foldE (transfer_input e (tx_Sender t)) ([], [], []) (tx_Witnesses t) = Inr (m, ds, ex_Consumed r)"
    using assms(1) by (auto simp: executeTransfer_def split: if_splits)
  note ti = transfer_inputs [OF i, of 0 0]
  have c: "ex_Consumed r = map obj_ID (coin_witnesses (tx_Witnesses t))" using ti by simp
  then show "set (ex_Consumed r) \<subseteq> witness_ids t" by (auto simp: coin_witnesses_def witness_ids_def)
  show "owned_coins t" using ti by (simp add: owned_coins_def)
  show "obj_ID (wit_Object w) \<notin> set (ex_Consumed r)" if "w \<in> set (tx_Witnesses t)" "obj_Kind (wit_Object w) \<noteq> KindCoin"
    using that distinct_witnesses_kind [OF assms(2) that(1)] by (force simp: c coin_witnesses_def)
qed

subsection \<open>Witnesses that verify\<close>

lemma verify_witness_id: "verify_witness H root (inp, w) = Inr () \<Longrightarrow> obj_ID (wit_Object w) = in_ObjectID inp"
  by (auto simp: verify_witness_def Let_def split: if_splits)

lemma verified_witnesses:
  assumes "ValidateStatic C t = Inr ()" "VerifyWitnesses H t = Inr ()"
  shows "matched t" "distinct_witnesses t" "\<forall>w \<in> set (tx_Witnesses t). obj_ID (wit_Object w) \<noteq> 0"
proof -
  have v: "static_valid C t" using assms(1) by (simp add: ValidateStatic_iff)
  have len: "length (tx_Witnesses t) = length (tx_Inputs t)" using assms(2) by (simp add: VerifyWitnesses_def split: if_splits)
  have "obj_ID (wit_Object (tx_Witnesses t ! i)) = in_ObjectID (tx_Inputs t ! i)" if "i < length (tx_Inputs t)" for i
    by (rule verify_witness_id [OF VerifyWitnesses_nth(1) [OF assms(2) that]])
  then show m: "matched t" unfolding matched_def by (auto simp: len intro!: nth_equalityI)
  have d: "distinct (map in_ObjectID (tx_Inputs t))" "\<forall>i \<in> set (tx_Inputs t). in_ObjectID i \<noteq> 0"
    using v unfolding static_valid_def list_all_iff by blast+
  show "distinct_witnesses t" unfolding distinct_witnesses_def m [unfolded matched_def] by (rule d(1))
  show "\<forall>w \<in> set (tx_Witnesses t). obj_ID (wit_Object w) \<noteq> 0"
  proof
    fix w assume "w \<in> set (tx_Witnesses t)"
    then have "obj_ID (wit_Object w) \<in> set (map (\<lambda>w. obj_ID (wit_Object w)) (tx_Witnesses t))" by simp
    then have "obj_ID (wit_Object w) \<in> set (map in_ObjectID (tx_Inputs t))" unfolding m [unfolded matched_def] .
    then show "obj_ID (wit_Object w) \<noteq> 0" using d(2) by auto
  qed
qed

subsection \<open>Spending\<close>

text \<open>The coins of a transaction belong to its sender, whatever the state of the jobs it names.\<close>

lemma account_owned:
  assumes "accountNativeValue H e t X a b = Inr q"
    and "\<And>w. w \<in> set (tx_Witnesses t) \<Longrightarrow> obj_ID (wit_Object w) \<in> X \<Longrightarrow> obj_Kind (wit_Object w) \<noteq> KindCoin"
  shows "owned_coins t"
  using owned_coinsI [OF account_conserves(3) assms(2)] assms(1) by (cases q) blast

lemma owned_witness_unique:
  assumes "owned_witness t oid kd = Inr x" "distinct_witnesses t" "w \<in> set (tx_Witnesses t)" "obj_ID (wit_Object w) = obj_ID x"
  shows "obj_Kind (wit_Object w) = kd"
proof -
  obtain v where v: "v \<in> set (tx_Witnesses t)" "x = wit_Object v" "obj_Kind x = kd" using owned_witness_ok [OF assms(1)] by blast
  have "w = v" using same_witness [OF assms(2) v(1) assms(3)] assms(4) v(2) by simp
  then show ?thesis using v by simp
qed

lemma ingest_owned:
  assumes "owned_witness t i kd = Inr x" "owned_witness t j kd' = Inr y" "kd \<noteq> KindCoin" "kd' \<noteq> KindCoin"
    and "accountNativeValue H e t {obj_ID x, obj_ID y} a b = Inr q" "distinct_witnesses t"
  shows "owned_coins t"
  using assms(3,4) owned_witness_unique [OF assms(1,6)] owned_witness_unique [OF assms(2,6)] by (intro account_owned [OF assms(5)]) auto

lemma executeCompute_owned:
  assumes "executeCompute H e t op = Inr r" "distinct_witnesses t"
  shows "owned_coins t"
proof -
  have asg: "owned_coins t" if run: "executeComputeIngestAssignment H e t p = Inr r" for p
  proof -
    obtain i j x y a b q where "owned_witness t i KindComputeJob = Inr x" "owned_witness t j KindComputeAssignment = Inr y"
      "accountNativeValue H e t {obj_ID x, obj_ID y} a b = Inr q"
      using run unfolding executeComputeIngestAssignment_def by (simp add: result_iff) blast
    from ingest_owned [OF this(1,2) _ _ this(3) assms(2)] show ?thesis by simp
  qed
  have res: "owned_coins t" if run: "executeComputeIngestResult H e t p = Inr r" for p
  proof -
    obtain i j x y a b q where "owned_witness t i KindComputeJob = Inr x" "owned_witness t j KindComputeResult = Inr y"
      "accountNativeValue H e t {obj_ID x, obj_ID y} a b = Inr q"
      using run unfolding executeComputeIngestResult_def by (simp add: result_iff) blast
    from ingest_owned [OF this(1,2) _ _ this(3) assms(2)] show ?thesis by simp
  qed
  have close: "owned_coins t" if "close_job H e t x j s rc = Inr r" "owned_witness t ref KindComputeJob = Inr x"
    "ParseOnChainJob (obj_Data x) = Inr j" for x j s rc ref
    using close_job_conserves [OF that(1) assms(2) that(2,3)] by (simp add: conserves_def)
  from assms(1) show ?thesis
  proof (cases rule: executeCompute_cases)
    case 1
    then show ?thesis using executeComputeOffer_conserves by (simp add: conserves_def)
  next
    case 2
    then show ?thesis using executeComputeJob_conserves by (simp add: conserves_def)
  next
    case 3
    then show ?thesis using executeComputeAccept_conserves assms(2) by (simp add: conserves_def)
  next
    case 4
    then show ?thesis using executeComputeResult_conserves by (simp add: conserves_def)
  next
    case (7 maj)
    then show ?thesis unfolding executeComputeFinalize_def by (simp add: result_iff) (blast intro: close)
  next
    case 8
    then show ?thesis unfolding executeComputeExpire_def by (simp add: result_iff) (blast intro: close)
  qed (fact asg res)+
qed

lemma executeExtended_cases:
  assumes "executeExtended C S e t op = Inr r"
  obtains (deploy) "executeDeployContract (sha256 C) S e t (op_Payload op) = Inr r"
    | (call) "op_Kind op = OpContractCall" "executeContractCall (sha256 C) S e t (op_Payload op) = Inr r"
    | (mint) "executeMintToken (sha256 C) e t (op_Payload op) = Inr r" | (burn) "executeBurnToken (sha256 C) e t (op_Payload op) = Inr r"
    | (compute) "executeCompute (sha256 C) e t op = Inr r" | (lending) "executeLending (sha256 C) e t op = Inr r"
    | (credential) "executeDeviceCredential C e t op = Inr r" | (cross) "executeCrossShardLending (sha256 C) e t op = Inr r"
  using assms unfolding executeExtended_def Let_def by (auto simp only: sum.distinct simp_thms split: if_splits)

lemma executeExtended_spending:
  assumes "executeExtended C S e t op = Inr r" "distinct_witnesses t" "\<forall>w \<in> set (tx_Witnesses t). obj_ID (wit_Object w) \<noteq> 0"
  shows "owned_coins t \<and> set (ex_Consumed r) \<subseteq> witness_ids t"
proof -
  have calls: "set (ex_Consumed r) \<subseteq> witness_ids t" if run: "executeContractCall (sha256 C) S e t (op_Payload op) = Inr r"
  proof -
    obtain call where "ParseCall (op_Payload op) = Inr call" using run by (auto simp: executeContractCall_def)
    from call_consumed(1) [OF run this assms(2,3)] show ?thesis .
  qed
  from assms(1) show ?thesis
  proof (cases rule: executeExtended_cases)
    case deploy
    then show ?thesis using executeDeployContract_conserves [OF _ assms(2,3)] token_consumed by (simp add: conserves_def)
  next
    case call
    then show ?thesis using executeContractCall_conserves [OF _ assms(2)] calls by (simp add: conserves_def)
  next
    case mint
    then show ?thesis using executeMintToken_conserves [OF _ assms(2)] token_consumed by (simp add: conserves_def)
  next
    case burn
    then show ?thesis using executeBurnToken_conserves [OF _ assms(2)] burn_consumed by (simp add: conserves_def)
  next
    case compute
    then show ?thesis using executeCompute_owned [OF _ assms(2)] compute_consumed by blast
  next
    case lending
    then show ?thesis using executeLending_conserves [OF _ assms(2)] lending_consumed by (simp add: conserves_def)
  next
    case credential
    then show ?thesis using executeDeviceCredential_conserves [OF _ assms(2,3)] credential_consumed by (simp add: conserves_def)
  next
    case cross
    then show ?thesis using executeCrossShardLending_conserves [OF _ assms(2)] cross_lending_consumed by (simp add: conserves_def)
  qed
qed

end
