(* ===== verification/Conservation.thy ===== *)
theory Conservation
  imports Effects
begin

text \<open>
  What holds of every transaction that \<open>Engine.Execute\<close> (\<open>internal/v2/execution/engine.go\<close>) accepts: no value is
  created or destroyed, only the coins of the signer are spent, and only declared inputs are consumed. The last part
  shows two ways in which the checks fall short: a transfer without a native coin pays no fee, and a job that asks for no
  collateral cannot expire once it is assigned.
\<close>

subsection \<open>Every operation\<close>

lemma executeExtended_conserves:
  assumes "executeExtended C S e t op = Inr r" "distinct_witnesses t" "\<forall>w \<in> set (tx_Witnesses t). obj_ID (wit_Object w) \<noteq> 0"
  shows "conserves e t r"
proof -
  note cases = executeDeployContract_conserves [OF _ assms(2,3)] executeContractCall_conserves [OF _ assms(2)]
    executeMintToken_conserves [OF _ assms(2)] executeBurnToken_conserves [OF _ assms(2)] executeCompute_conserves [OF _ assms(2)]
    executeLending_conserves [OF _ assms(2)] executeDeviceCredential_conserves [OF _ assms(2,3)]
    executeCrossShardLending_conserves [OF _ assms(2)]
  show ?thesis using assms(1) unfolding executeExtended_def Let_def by (auto simp only: sum.distinct simp_thms split: if_splits intro: cases)
qed

lemma conserves_shard_count [simp]: "conserves (e\<lparr>en_ShardCount := c\<rparr>) t r \<longleftrightarrow> conserves e t r"
  by (simp add: conserves_def)

lemma holds_native_shard_count [simp]: "holds_native (e\<lparr>en_ShardCount := c\<rparr>) t = holds_native e t"
  by (simp add: holds_native_def cong: sum.case_cong)

lemma paid_fee_shard_count [simp]: "paid_fee (e\<lparr>en_ShardCount := c\<rparr>) t = paid_fee e t"
  by (simp add: paid_fee_def)

definition effective :: "Engine \<Rightarrow> Engine" where
  "effective e = (if en_ShardCount e = 0 then e\<lparr>en_ShardCount := 1\<rparr> else e)"

lemma effective_simps [simp]:
  "en_NativeToken (effective e) = en_NativeToken e" "paid_fee (effective e) t = paid_fee e t" "en_Height (effective e) = en_Height e"
  by (simp_all add: effective_def)

lemma Execute_ok:
  assumes "Execute C S ord e t = Inr r"
  obtains op where "tx_Network t = en_Network e" "ValidateStatic C t = Inr ()" "VerifyWitnesses (sha256 C) t = Inr ()" "tx_Operations t = [op]"
    "(if op_Kind op = OpTransfer then executeTransfer (sha256 C) ord (effective e) t
      else if op_Kind op = OpCreateToken then executeCreateToken (sha256 C) (effective e) t (op_Payload op)
      else executeExtended C S (effective e) t op) = Inr r"
proof -
  have "\<exists>op. tx_Network t = en_Network e \<and> ValidateStatic C t = Inr () \<and> VerifyWitnesses (sha256 C) t = Inr () \<and> tx_Operations t = [op] \<and>
    (if op_Kind op = OpTransfer then executeTransfer (sha256 C) ord (effective e) t
      else if op_Kind op = OpCreateToken then executeCreateToken (sha256 C) (effective e) t (op_Payload op)
      else executeExtended C S (effective e) t op) = Inr r"
    using assms unfolding Execute_def effective_def [symmetric] Let_def VerifyForNetwork_def by (auto simp: guard_eq_Inr split: list.split_asm)
  then show thesis using that by blast
qed

lemma value_balance:
  assumes "Execute C S ord e t = Inr r" "covers ord"
  shows "objects_balance (en_NativeToken e) k (spent t r) = objects_balance (en_NativeToken e) k (ex_Created r) +
    outbound_balance (en_NativeToken e) k (ex_Outbound r) + native_value (en_NativeToken e) k (paid_fee e t)"
  using assms(1)
proof (rule Execute_ok)
  fix op
  assume vs: "ValidateStatic C t = Inr ()" "VerifyWitnesses (sha256 C) t = Inr ()" and op: "tx_Operations t = [op]"
    and d: "(if op_Kind op = OpTransfer then executeTransfer (sha256 C) ord (effective e) t
      else if op_Kind op = OpCreateToken then executeCreateToken (sha256 C) (effective e) t (op_Payload op)
      else executeExtended C S (effective e) t op) = Inr r"
  note vw = verified_witnesses [OF vs]
  show ?thesis
  proof (cases "op_Kind op = OpTransfer")
    case True
    then show ?thesis using executeTransfer_conserves [OF _ assms(2) vw(2), of "sha256 C" "effective e" r k] d by (simp add: op)
  next
    case False
    then have c: "conserves (effective e) t r"
      using d executeCreateToken_conserves [OF _ vw(1)] executeExtended_conserves [OF _ vw(2,3)] by (auto split: if_splits)
    have "paid_fee e t = tx_Fee t" using False by (simp add: paid_fee_def op)
    then show ?thesis using conserves_spent [OF c, of k] c by (simp add: conserves_def)
  qed
qed

lemma spending:
  assumes "Execute C S ord e t = Inr r"
  shows "owned_coins t \<and> set (ex_Consumed r) \<subseteq> witness_ids t \<and> witness_ids t = in_ObjectID ` set (tx_Inputs t) \<and> distinct_witnesses t"
  using assms
proof (rule Execute_ok)
  fix op
  assume vs: "ValidateStatic C t = Inr ()" "VerifyWitnesses (sha256 C) t = Inr ()"
    and d: "(if op_Kind op = OpTransfer then executeTransfer (sha256 C) ord (effective e) t
      else if op_Kind op = OpCreateToken then executeCreateToken (sha256 C) (effective e) t (op_Payload op)
      else executeExtended C S (effective e) t op) = Inr r"
  note vw = verified_witnesses [OF vs]
  have ids: "witness_ids t = in_ObjectID ` set (tx_Inputs t)"
    using vw(1) [unfolded matched_def, THEN arg_cong [of _ _ set]] by (simp add: witness_ids_def)
  have create: "owned_coins t \<and> set (ex_Consumed r) \<subseteq> witness_ids t"
    if "executeCreateToken (sha256 C) (effective e) t (op_Payload op) = Inr r"
    using that executeCreateToken_conserves [OF that vw(1)]
    by (auto simp: executeCreateToken_def conserves_def ids result_iff)
  show "owned_coins t \<and> set (ex_Consumed r) \<subseteq> witness_ids t \<and> witness_ids t = in_ObjectID ` set (tx_Inputs t) \<and> distinct_witnesses t"
    using d transfer_consumed(1,2) [OF _ vw(2)] create executeExtended_spending [OF _ vw(2,3)] ids vw(2) by (auto split: if_splits)
qed

subsection \<open>A payment\<close>

text \<open>An account that spends coins of 10 in sum, out of a store of three coins, pays 7 to another and a fee of 3.\<close>

definition payer :: accountid where
  "payer = AccountIDFromPublicKey toy_hash (replicate 65 4)"

definition coin_object :: "objectid \<Rightarrow> tokenid \<Rightarrow> u64 \<Rightarrow> Object" where
  "coin_object oid token amount = \<lparr>obj_ID = oid, obj_Version = 1, obj_Owner = payer, obj_Kind = KindCoin,
     obj_Data = Coin_MarshalBinary \<lparr>coin_Token = token, coin_Amount = amount, coin_CreatedHeight = 0\<rparr>\<rparr>"

definition coin_output :: "accountid \<Rightarrow> tokenid \<Rightarrow> u64 \<Rightarrow> OutputSpec" where
  "coin_output owner token amount = \<lparr>os_Owner = owner, os_Kind = KindCoin,
     os_Data = Coin_MarshalBinary \<lparr>coin_Token = token, coin_Amount = amount, coin_CreatedHeight = 0\<rparr>\<rparr>"

definition sample_engine :: Engine where
  "sample_engine = \<lparr>en_Network = 9, en_NativeToken = 5, en_ShardCount = 1, en_Height = 1, en_ContractRuntimes = Map.empty\<rparr>"

definition coin_store :: "Object list \<Rightarrow> Memory" where
  "coin_store os = memAfter toy_hash rev [([], os)]"

definition payment :: "Object list \<Rightarrow> Object list \<Rightarrow> OutputSpec list \<Rightarrow> u64 \<Rightarrow> Transaction" where
  "payment stored os outs fee =
     snd (tx_Sign toy_crypto (Some (toy_signer 4)) (unsigned_tx toy_hash (coin_store stored) 0 os outs sample_op fee))"

definition sample_coins :: "Object list" where
  "sample_coins = [coin_object 3 5 10, coin_object 4 5 4, coin_object 6 5 6]"

definition sample_spend :: "Object list \<Rightarrow> Transaction" where
  "sample_spend os = payment sample_coins os [coin_output 8 5 7] 3"

lemma coin_object_simps [simp]:
  "obj_ID (coin_object i k v) = i" "obj_Version (coin_object i k v) = 1" "obj_Owner (coin_object i k v) = payer"
  "obj_Kind (coin_object i k v) = KindCoin" "payer \<noteq> 0"
  "k \<noteq> 0 \<Longrightarrow> v \<noteq> 0 \<Longrightarrow> ParseCoin (obj_Data (coin_object i k v)) = Inr \<lparr>coin_Token = k, coin_Amount = v, coin_CreatedHeight = 0\<rparr>"
  by (simp_all add: coin_object_def payer_def AccountIDFromPublicKey_def coin_valid_def DomainHash_def toy_hash_def)

lemma coin_object_valid: "i \<noteq> 0 \<Longrightarrow> k \<noteq> 0 \<Longrightarrow> v \<noteq> 0 \<Longrightarrow> object_valid (coin_object i k v)"
  by (simp add: object_valid_def coin_object_def)

lemma coin_store_mem:
  assumes "list_all object_valid os" "distinct (map obj_ID os)"
  shows "mem_objects (coin_store os) = created_at os"
proof -
  have "mem_objects (NewMemory toy_hash) = Map.empty" by (simp add: NewMemory_def)
  then have "delta_ok (mem_objects (NewMemory toy_hash)) [] os" using assms by (simp add: delta_ok_def)
  then obtain m' where "mem_Apply toy_hash rev [] os (NewMemory toy_hash) = ((mem_Root m', Inr ()), m')"
      "mem_objects m' = applyMirror [] os (mem_objects (NewMemory toy_hash))"
    by (rule mem_Apply_accepts [OF NewMemory_inv covers_simps(1)])
  then show ?thesis by (simp add: coin_store_def memAfter_def applyMirror_eq [OF assms(2)] NewMemory_def)
qed

lemma coin_store_objects:
  assumes "list_all object_valid os" "distinct (map obj_ID os)" "o' \<in> set os"
  shows "GetObject (coin_store os) (obj_ID o') = Some o'"
  by (simp add: GetObject_def coin_store_mem [OF assms(1,2)] created_at_mem [OF assms(2,3)])

lemma payment_fields [simp]:
  "tx_Sender (payment st os outs fee) = payer" "tx_Inputs (payment st os outs fee) = map (object_input toy_hash) os"
  "tx_Witnesses (payment st os outs fee) = map (object_witness (coin_store st)) os" "tx_Outputs (payment st os outs fee) = outs"
  "tx_Operations (payment st os outs fee) = [sample_op]" "tx_Fee (payment st os outs fee) = fee" "tx_Network (payment st os outs fee) = 9"
  "tx_ShardID (payment st os outs fee) = 0" "tx_StateRoot (payment st os outs fee) = mem_Root (coin_store st)"
  "tx_SenderPublicKey (payment st os outs fee) = replicate 65 4"
  by (simp_all add: payment_def tx_Sign_def unsigned_tx_def toy_signer_def payer_def Let_def)

lemma payment_valid:
  assumes "list_all object_valid st" "distinct (map obj_ID st)" "set os \<subseteq> set st" "distinct (map obj_ID os)"
    "list_all output_valid outs" "length os \<le> MaxInputs" "length outs \<le> MaxOutputs" "list_all (\<lambda>o'. Object_Hash toy_hash o' \<noteq> 0) os"
  shows "VerifyWitnesses toy_hash (payment st os outs fee) = Inr () \<and> ValidateStatic toy_crypto (payment st os outs fee) = Inr ()"
proof -
  let ?t = "unsigned_tx toy_hash (coin_store st) 0 os outs sample_op fee"
  have t': "tx_Sign toy_crypto (Some (toy_signer 4)) ?t = (Inr (), payment st os outs fee)"
    using sample_signed [of ?t] by (auto simp: payment_def)
  have root: "mem_Root (coin_store st) \<noteq> 0"
    using mem_Root_canonical [OF memAfter_inv, of rev toy_hash] canonicalRoot_toy by (simp add: coin_store_def)
  have "GetObject (coin_store st) (obj_ID o') = Some o'" if "o' \<in> set os" for o'
    using coin_store_objects [OF assms(1,2)] assms(3) that by blast
  then show ?thesis
    using signed_transaction_exact [OF _ _ _ _ _ _ toy_contract _ _ t', where H = toy_hash and ord = rev and os = os and ds = "[([], st)]"]
      root assms
    by (auto simp: parts_ok_def unsigned_tx_def intent_wf_def sample_op_def coin_store_def list_all_iff)
qed

lemma sample_shard: "ObjectShard 3 = 0" "ObjectShard 4 = 0" "ObjectShard 6 = 0"
  by code_simp+

lemma wit_Object_witness [simp]: "wit_Object (object_witness m o') = o'"
  by (simp add: object_witness_def)

lemma sample_coins_valid: "list_all object_valid sample_coins" "distinct (map obj_ID sample_coins)"
  by (simp_all add: sample_coins_def coin_object_valid)

lemma Object_Hash_toy [simp]: "Object_Hash toy_hash (coin_object i k v) \<noteq> 0"
  by (simp add: Object_Hash_def length_Object_CanonicalBytes) (simp add: coin_object_def)

lemma sample_payment:
  assumes "os = [coin_object 3 5 10] \<or> os = [coin_object 4 5 4, coin_object 6 5 6]"
  defines "t \<equiv> sample_spend os"
  shows "Execute toy_crypto S rev sample_engine t = Inr \<lparr>ex_Consumed = map obj_ID os,
      ex_Created = [output_object toy_hash (tx_ID toy_hash t) 0 0 \<lparr>os_Owner = 8, os_Kind = KindCoin,
         os_Data = Coin_MarshalBinary \<lparr>coin_Token = 5, coin_Amount = 7, coin_CreatedHeight = 1\<rparr>\<rparr>],
      ex_Outbound = [], ex_TxID = tx_ID toy_hash t\<rparr>"
    and "holds_native sample_engine t" "map wit_Object (tx_Witnesses t) = os" "tx_Fee t = 3"
proof -
  let ?r = "\<lparr>ex_Consumed = map obj_ID os,
      ex_Created = [output_object toy_hash (tx_ID toy_hash t) 0 0 \<lparr>os_Owner = 8, os_Kind = KindCoin,
         os_Data = Coin_MarshalBinary \<lparr>coin_Token = 5, coin_Amount = 7, coin_CreatedHeight = 1\<rparr>\<rparr>],
      ex_Outbound = [], ex_TxID = tx_ID toy_hash t\<rparr>"
  note t = t_def sample_spend_def
  have "output_valid (coin_output 8 5 7)" by (simp add: output_valid_def coin_output_def)
  then have p: "VerifyWitnesses toy_hash t = Inr () \<and> ValidateStatic toy_crypto t = Inr ()"
    unfolding t by (intro payment_valid) (use sample_coins_valid assms(1) in \<open>auto simp: sample_coins_def\<close>)
  have out: "ParseCoin (os_Data (coin_output 8 5 7)) = Inr \<lparr>coin_Token = 5, coin_Amount = 7, coin_CreatedHeight = 0\<rparr>"
    "os_Kind (coin_output 8 5 7) = KindCoin" "os_Owner (coin_output 8 5 7) = 8"
    by (simp_all add: coin_output_def coin_valid_def)
  have ok: "VerifyForNetwork toy_crypto 9 t = Inr ()" using p by (simp add: VerifyForNetwork_def t)
  show "map wit_Object (tx_Witnesses t) = os" "tx_Fee t = 3" by (simp_all add: t comp_def)
  show "holds_native sample_engine t" using assms(1) by (auto simp: holds_native_def sample_engine_def t)
  have run: "executeTransfer toy_hash rev sample_engine t = Inr ?r"
    using assms(1) out unfolding executeTransfer_def
    by (elim disjE) (simp_all add: t transfer_input_def transfer_output_def transfer_settle_def Let_def add_total_def
        amount_at_def overflows_def sample_engine_def ShardForAccount_def AccountShard_def IsZero32_def stampCoinOutput_def place_def
        coin_output_def)
  have "\<forall>inp \<in> set (tx_Inputs t). ObjectShard (in_ObjectID inp) = 0 \<and> in_ObjectID inp \<noteq> 0"
    using assms(1) by (auto simp: t object_input_def sample_shard)
  then show "Execute toy_crypto S rev sample_engine t = Inr ?r"
    using run ok p by (simp add: t Execute_def sample_engine_def Let_def ShardForAccount_def ShardForObject_def AccountShard_def IsZero32_def
        checkE_ok sample_op_def)
qed

subsection \<open>What every accepted transaction keeps\<close>

text \<open>
  C1. No transaction creates or destroys value. When \<open>Execute\<close> accepts a transaction, whatever its operation, then for
  every token the balances of the objects it consumes are those of the objects it creates and of the outputs it sends
  to other shards, and for the native token also the fee it pays (\<open>paid_fee\<close>: none for a transfer without a native coin).
  The balances count the coins, less the recorded supply of the token, and for the native token what loans, loan
  messages, offers, jobs and assignments hold in escrow. A job holds its escrow and one collateral for each assignment
  of its record, also when the record has grown beyond what \<open>ParseOnChainJob\<close> reads back (\<open>job_record_unreadable\<close>): that
  value is locked, not lost from the books. The only hypothesis besides acceptance is that Go visits every key of a map,
  in whatever order.
\<close>

theorem value_conserved:
  assumes "Execute C S ord e t = Inr r" "covers ord"
  shows "objects_balance (en_NativeToken e) token (spent t r) =
    objects_balance (en_NativeToken e) token (ex_Created r) + outbound_balance (en_NativeToken e) token (ex_Outbound r) +
    (if token = en_NativeToken e then int (unat (paid_fee e t)) else 0)"
  using value_balance [OF assms, of token] by (simp add: native_value_def)

theorem value_conserved_witness:
  "\<exists>t r. Execute toy_crypto sample_runtime rev sample_engine t = Inr r \<and> spent t r = [coin_object 3 5 10] \<and>
     objects_balance 5 5 (spent t r) = 10 \<and> objects_balance 5 5 (ex_Created r) + outbound_balance 5 5 (ex_Outbound r) + 3 = 10"
proof -
  note p = sample_payment [of "[coin_object 3 5 10]", OF disjI1 [OF refl]]
  let ?t = "sample_spend [coin_object 3 5 10]"
  obtain r where r: "Execute toy_crypto sample_runtime rev sample_engine ?t = Inr r" "ex_Consumed r = [3]" using p(1) by simp
  have f: "paid_fee sample_engine ?t = 3" "en_NativeToken sample_engine = 5" using p(2,4) by (simp_all add: paid_fee_def sample_engine_def)
  have s: "spent ?t r = [coin_object 3 5 10]" using p(3) by (simp add: spent_def r(2))
  have "objects_balance 5 5 (spent ?t r) = 10" by (simp add: s balance_coin)
  with value_conserved [OF r(1) covers_simps(1), of 5] have "objects_balance 5 5 (ex_Created r) + outbound_balance 5 5 (ex_Outbound r) + 3 = 10"
    by (simp add: f)
  then show ?thesis using r(1) s \<open>objects_balance 5 5 (spent ?t r) = 10\<close> by blast
qed

text \<open>
  C2. Only the holder of a key spends its coins. When \<open>Execute\<close> accepts a transaction, it is for the engine's network, its
  sender is the account of the public key it carries, that key signed its digest, every coin among its witnesses belongs
  to the sender, and what it consumes is among its declared inputs.
\<close>

theorem spending_authorized:
  assumes "Execute C S ord e t = Inr r"
  shows "tx_Network t = en_Network e \<and> tx_Sender t = AccountIDFromPublicKey (sha256 C) (tx_SenderPublicKey t) \<and>
    verifySignature C (tx_SenderPublicKey t) (tx_SigningDigest (sha256 C) t) (tx_Signature t) = Inr () \<and>
    (\<forall>w. w \<in> set (tx_Witnesses t) \<and> obj_Kind (wit_Object w) = KindCoin \<longrightarrow> obj_Owner (wit_Object w) = tx_Sender t) \<and>
    set (ex_Consumed r) \<subseteq> in_ObjectID ` set (tx_Inputs t)"
  using assms
proof (rule Execute_ok)
  assume "tx_Network t = en_Network e" "ValidateStatic C t = Inr ()"
  then show ?thesis using spending [OF assms] by (auto simp: ValidateStatic_iff static_valid_def owned_coins_def)
qed

theorem spending_authorized_witness:
  "\<exists>t r. Execute toy_crypto sample_runtime rev sample_engine t = Inr r \<and> tx_Sender t = payer \<and> ex_Consumed r = [3] \<and>
     3 \<in> in_ObjectID ` set (tx_Inputs t) \<and>
     verifySignature toy_crypto (tx_SenderPublicKey t) (tx_SigningDigest toy_hash t) (tx_Signature t) = Inr ()"
proof -
  obtain r where r: "Execute toy_crypto sample_runtime rev sample_engine (sample_spend [coin_object 3 5 10]) = Inr r" "ex_Consumed r = [3]"
    using sample_payment(1) [of "[coin_object 3 5 10]" sample_runtime] by simp
  show ?thesis using spending_authorized [OF r(1)] r
    by (intro exI [of _ "sample_spend [coin_object 3 5 10]"] exI [of _ r]) (simp add: sample_spend_def)
qed

subsection \<open>Fees that are not paid\<close>

lemma foldE_cong_set: "(\<And>s x. x \<in> set xs \<Longrightarrow> f s x = g s x) \<Longrightarrow> foldE f s xs = foldE g s xs"
proof (induction xs arbitrary: s)
  case (Cons x xs)
  then show ?case by (cases "g s x") simp_all
qed simp

text \<open>The outputs of a transfer give the same totals whatever its fee, which only changes the identifiers they get.\<close>

lemma transfer_output_fee:
  "map_sum (\<lambda>x. x) fst (transfer_output H e (t\<lparr>tx_Fee := fee\<rparr>) ds (m, p') x) = map_sum (\<lambda>x. x) fst (transfer_output H e t ds (m, p) x)"
proof (cases x)
  case (Pair i spec)
  show ?thesis
    by (simp add: Pair transfer_output_def tryE_def tryAs_def split: sum.split if_split)
qed

lemma map_sum_fst_cases:
  assumes "map_sum (\<lambda>x. x) fst r = map_sum (\<lambda>x. x) fst s"
  obtains (err) a where "r = Inl a" "s = Inl a" | (ok) m p q where "r = Inr (m, p)" "s = Inr (m, q)"
proof (cases r)
  case (Inl a)
  then show thesis using assms err by (cases s) auto
next
  case (Inr b)
  then obtain c where "s = Inr c" "fst c = fst b" using assms by (cases s) auto
  then show thesis using Inr ok [of "fst b" "snd b" "snd c"] by (cases c) simp
qed

lemma transfer_outputs_fee:
  "map_sum (\<lambda>x. x) fst (foldE (transfer_output H e (t\<lparr>tx_Fee := fee\<rparr>) ds) (m, p') specs) = map_sum (\<lambda>x. x) fst (foldE (transfer_output H e t ds) (m, p) specs)"
proof (induction specs arbitrary: m p p')
  case (Cons x specs)
  have "map_sum (\<lambda>x. x) fst (transfer_output H e (t\<lparr>tx_Fee := fee\<rparr>) ds (m, p') x) = map_sum (\<lambda>x. x) fst (transfer_output H e t ds (m, p) x)"
    by (rule transfer_output_fee)
  then show ?case by (cases rule: map_sum_fst_cases) (simp_all add: Cons.IH)
qed simp

lemma transfer_settle_fee: "token \<noteq> en_NativeToken e \<Longrightarrow> transfer_settle e fee ds m out token = transfer_settle e fee' ds m out token"
  by (simp add: transfer_settle_def)

text \<open>
  C39. A transfer that spends no native coin pays no fee, whatever fee it declares: if \<open>executeTransfer\<close> accepts it with
  one fee, it accepts it with every other. The loop over the input totals adds the fee to what the native token requires,
  and never runs for a token that is not among the inputs.
\<close>

theorem transfer_fee_skipped:
  assumes "\<not> holds_native e t" "covers ord"
  shows "is_ok (executeTransfer H ord e (t\<lparr>tx_Fee := fee\<rparr>)) \<longleftrightarrow> is_ok (executeTransfer H ord e t)"
proof (cases "foldE (transfer_input e (tx_Sender t)) ([], [], []) (tx_Witnesses t)")
  case (Inl a)
  then show ?thesis by (simp add: executeTransfer_def is_ok_iff)
next
  case (Inr q)
  then obtain m ds consumed where i: "foldE (transfer_input e (tx_Sender t)) ([], [], []) (tx_Witnesses t) = Inr (m, ds, consumed)"
    by (cases q) auto
  have "en_NativeToken e \<notin> set (ord (map fst m))"
    using transfer_inputs [OF i, of 0 0] assms by (simp add: coin_tokens_def holds_native_def list_ex_iff covers_def)
  then have s: "foldE (transfer_settle e fee ds m) out (ord (map fst m)) = foldE (transfer_settle e (tx_Fee t) ds m) out (ord (map fst m))" for out
    by (intro foldE_cong_set transfer_settle_fee) auto
  let ?o = "\<lambda>t. foldE (transfer_output H e t ds) ([], [], []) (enumerate 0 (tx_Outputs t))"
  have "map_sum (\<lambda>x. x) fst (?o (t\<lparr>tx_Fee := fee\<rparr>)) = map_sum (\<lambda>x. x) fst (?o t)" using transfer_outputs_fee by simp
  then show ?thesis
  proof (cases rule: map_sum_fst_cases)
    case (err a)
    then show ?thesis using i by (simp add: executeTransfer_def is_ok_iff)
  next
    case (ok out p q)
    then show ?thesis using i s by (cases p; cases q) (simp add: executeTransfer_def is_ok_iff guard_eq_Inr)
  qed
qed

text \<open>A transfer of a token of the payer, with the definition of the token as a witness.\<close>

definition token_transfer :: Transaction where
  "token_transfer = (payment [] [] [coin_output 8 6 10] 0)\<lparr>tx_Witnesses :=
     map (\<lambda>o'. \<lparr>wit_Object = o', wit_Proof = \<lparr>smp_Exists = True, smp_Bitmap = 0, smp_Siblings = []\<rparr>\<rparr>)
       [coin_object 3 6 10, (sample_object 4)\<lparr>obj_Kind := KindTokenDefinition, obj_Data := Definition_encode (sample_definition\<lparr>td_TokenID := 6\<rparr>)\<rparr>]\<rparr>"

lemma token_transfer_simps:
  "ParseDefinition (Definition_encode (sample_definition\<lparr>td_TokenID := 6\<rparr>)) = Inr (sample_definition\<lparr>td_TokenID := 6\<rparr>)"
  "ParseCoin (os_Data (coin_output 8 6 10)) = Inr \<lparr>coin_Token = 6, coin_Amount = 10, coin_CreatedHeight = 0\<rparr>"
  "os_Kind (coin_output 8 6 10) = KindCoin" "os_Owner (coin_output 8 6 10) = 8"
  "td_TokenID (sample_definition\<lparr>td_TokenID := 6\<rparr>) = 6" "td_Transferable (sample_definition\<lparr>td_TokenID := 6\<rparr>)"
proof -
  have "definition_valid (sample_definition\<lparr>td_TokenID := 6\<rparr>)" "trimmed (sample_definition\<lparr>td_TokenID := 6\<rparr>) = sample_definition\<lparr>td_TokenID := 6\<rparr>"
    "length (td_Name (sample_definition\<lparr>td_TokenID := 6\<rparr>)) \<le> 64" "length (td_Symbol (sample_definition\<lparr>td_TokenID := 6\<rparr>)) \<le> 16"
    by (simp_all add: definition_valid_def trimmed_def sample_definition_def)
  then show "ParseDefinition (Definition_encode (sample_definition\<lparr>td_TokenID := 6\<rparr>)) = Inr (sample_definition\<lparr>td_TokenID := 6\<rparr>)"
    using ParseDefinition_ok by metis
qed (simp_all add: coin_output_def coin_valid_def sample_definition_def)

lemma token_transfer_ok: "is_ok (executeTransfer toy_hash rev sample_engine token_transfer)"
  by (simp add: executeTransfer_def transfer_input_def transfer_output_def transfer_settle_def Let_def add_total_def
        amount_at_def overflows_def sample_engine_def ShardForAccount_def AccountShard_def IsZero32_def stampCoinOutput_def place_def
        token_transfer_def token_transfer_simps transferable_def is_ok_iff)

theorem transfer_fee_skipped_witness:
  "is_ok (executeTransfer toy_hash rev sample_engine (token_transfer\<lparr>tx_Fee := 1000000\<rparr>))"
proof -
  have "\<not> holds_native sample_engine token_transfer"
    by (simp add: holds_native_def token_transfer_def sample_engine_def)
  from transfer_fee_skipped [OF this covers_simps(1), of toy_hash 1000000]
  have "is_ok (executeTransfer toy_hash rev sample_engine (token_transfer\<lparr>tx_Fee := 1000000\<rparr>))" using token_transfer_ok by simp
  then show ?thesis .
qed

subsection \<open>Jobs that cannot expire\<close>

lemma settled_nonzero:
  assumes "foldE (settlement_output H e t am) s ids = Inr s'" "(i, account) \<in> set ids"
  shows "amount_at am account \<noteq> 0"
  using assms
proof (induction ids arbitrary: s)
  case (Cons x ids)
  obtain acc p where s: "s = (acc, p)" by (cases s)
  show ?case
  proof (cases "x = (i, account)")
    case True
    then show ?thesis using Cons.prems(1) by (auto simp: s settlement_output_iff NewCoinOutput_def NewCoinOutputAtHeight_iff)
  next
    case False
    then show ?thesis using Cons by auto
  qed
qed simp

lemma amount_at_Nil [simp]: "amount_at [] k = 0"
  by (simp add: amount_at_def)

lemma add_amount_simps:
  "fst ` set (add_amount k v m) = insert k (fst ` set m)"
  "amount_at (add_amount k v m) account = (if account = k then amount_at m k + v else amount_at m account)"
  by (simp_all add: add_amount_def amount_at_def update_conv' dom_update)

lemma update_values: "snd ` set (AList.update k v m) \<subseteq> insert v (snd ` set m)"
  by (induction m) auto

lemma zero_collaterals:
  fixes as :: "Assignment list"
  assumes "snd ` set m0 \<subseteq> {0}"
  defines "m \<equiv> foldl (\<lambda>m a. add_amount (as_Provider a) 0 m) m0 as"
  shows "snd ` set m \<subseteq> {0} \<and> fst ` set m = as_Provider ` set as \<union> fst ` set m0"
  using assms(1) unfolding m_def
proof (induction as arbitrary: m0)
  case (Cons a as)
  have "amount_at m0 k = 0" for k using Cons.prems by (force simp: amount_at_def split: option.split dest: map_of_SomeD)
  then have "snd ` set (add_amount (as_Provider a) 0 m0) \<subseteq> {0}"
    using update_values [of "as_Provider a" 0 m0] Cons.prems by (auto simp: add_amount_def)
  from Cons.IH [OF this] show ?case by (auto simp: add_amount_simps)
qed simp_all

lemma add_return_iff: "add_return m (p, v) = Inr m' \<longleftrightarrow> \<not> overflows (amount_at m p) v \<and> m' = add_amount p v m"
  by (auto simp: add_return_def)

lemma add_zero_returns:
  assumes "foldE add_return m coll = Inr m'" "snd ` set coll \<subseteq> {0}"
  shows "amount_at m' k = amount_at m k \<and> fst ` set m' = fst ` set m \<union> fst ` set coll"
  using assms
proof (induction coll arbitrary: m)
  case (Cons x coll)
  obtain p where x: "x = (p, 0)" using Cons.prems by (cases x) auto
  have r: "foldE add_return (add_amount p 0 m) coll = Inr m'" 
    using Cons.prems(1) by (auto simp: x add_return_iff)
  from Cons.IH [OF r] Cons.prems(2) show ?case by (auto simp: x add_amount_simps)
qed simp_all

text \<open>
  C40. A job that asks for no collateral cannot expire once a provider other than its owner is assigned: \<open>executeComputeExpire\<close>
  fails at every height, because it would return a coin of amount 0 to the provider, which \<open>NewCoinOutput\<close> refuses. The
  escrow of such a job is only released if its results arrive.
\<close>

theorem expire_stuck:
  assumes "ParseJobRef payload = Inr ref" "owned_witness t ref KindComputeJob = Inr x" "ParseOnChainJob (obj_Data x) = Inr j"
    and "jb_CollateralRequired (oj_Job j) = 0" "a \<in> set (oj_Assignments j)" "as_Provider a \<noteq> jb_Owner (oj_Job j)"
  shows "\<not> is_ok (executeComputeExpire H e t payload)"
proof
  let ?c = "foldl (\<lambda>m a. add_amount (as_Provider a) 0 m) [] (oj_Assignments j)"
  let ?s = "\<lparr>st_JobID = oj_ID j, st_ResultRoot = 0, st_Payments = [], st_Refund = oj_Escrow j, st_CollateralReturns = ?c,
        st_SlashedCollateral = [], st_SlashReward = 0\<rparr>"
  assume "is_ok (executeComputeExpire H e t payload)"
  then obtain q where "settlementOutputs H e t j ?s = Inr q"
    using assms(1-3) unfolding executeComputeExpire_def close_job_def ExpireOnChain_def
    by (auto simp: is_ok_iff result_iff assms(4))
  then obtain am p where ret: "foldE add_return [] ?c = Inr am"
    and o: "foldE (settlement_output H e t (if 0 < oj_Escrow j then add_amount (jb_Owner (oj_Job j)) (oj_Escrow j) am else am)) (0, [], [])
      (enumerate 0 (sort (map fst (if 0 < oj_Escrow j then add_amount (jb_Owner (oj_Job j)) (oj_Escrow j) am else am)))) = Inr p"
    unfolding settlementOutputs_def Let_def by (auto simp: guard_eq_Inr cong: if_cong)
  let ?am = "if 0 < oj_Escrow j then add_amount (jb_Owner (oj_Job j)) (oj_Escrow j) am else am"
  have z: "snd ` set ?c \<subseteq> {0}" "as_Provider a \<in> fst ` set ?c"
    using zero_collaterals [of "[]" "oj_Assignments j"] assms(5) by auto
  note r = add_zero_returns [OF ret z(1), of "as_Provider a"]
  have "as_Provider a \<in> fst ` set ?am" using r z(2) by (simp add: add_amount_simps)
  then have "as_Provider a \<in> set (sort (map fst ?am))" by simp
  then obtain i where "i < length (sort (map fst ?am))" "sort (map fst ?am) ! i = as_Provider a" by (meson in_set_conv_nth)
  then have "(i, as_Provider a) \<in> set (enumerate 0 (sort (map fst ?am)))" by (simp add: in_set_enumerate_eq)
  from settled_nonzero [OF o this] show False using r assms(6) by (simp add: add_amount_simps split: if_splits)
qed

definition free_job :: OnChainJob where
  "free_job = sample_assigned_job\<lparr>oj_Job := sample_job\<lparr>jb_CollateralRequired := 0\<rparr>\<rparr>"

definition expire_tx :: Transaction where
  "expire_tx = (payment [] [] [] 0)\<lparr>tx_Witnesses := [\<lparr>wit_Object = (coin_object 3 5 10)\<lparr>obj_Kind := KindComputeJob,
     obj_Data := OnChainJob_encode free_job\<rparr>, wit_Proof = \<lparr>smp_Exists = True, smp_Bitmap = 0, smp_Siblings = []\<rparr>\<rparr>]\<rparr>"

theorem expire_stuck_witness:
  "\<not> is_ok (executeComputeExpire toy_hash (sample_engine\<lparr>en_Height := 1000\<rparr>) expire_tx (w_Fixed32 3)) \<and>
   is_ok (ExpireOnChain free_job 1000)"
proof -
  let ?x = "(coin_object 3 5 10)\<lparr>obj_Kind := KindComputeJob, obj_Data := OnChainJob_encode free_job\<rparr>"
  have "onchain_valid free_job"
    by (simp add: onchain_valid_def free_job_def sample_assigned_job_def sample_new_job_def sample_job_def job_valid_def
        resources_valid_def assignment_valid_def)
  then have p: "ParseOnChainJob (obj_Data ?x) = Inr (normal_job free_job)"
    using ParseOnChainJob_back [of free_job] by (simp add: free_job_def sample_assigned_job_def sample_new_job_def)
  have w: "owned_witness expire_tx 3 KindComputeJob = Inr ?x" by (simp add: owned_witness_def witnessByID_def expire_tx_def)
  have r: "ParseJobRef (w_Fixed32 3) = Inr 3" by (simp add: ParseJobRef_def JobRef_MarshalBinary_def IsZero32_def)
  have "\<lparr>as_OfferID = 1, as_Provider = 21, as_Price = 40\<rparr> \<in> set (oj_Assignments (normal_job free_job))"
    by (simp add: normal_job_def free_job_def sample_assigned_job_def)
  from expire_stuck [OF r w p _ this, of toy_hash "sample_engine\<lparr>en_Height := 1000\<rparr>"] show ?thesis
    by (simp add: normal_job_def free_job_def sample_assigned_job_def sample_new_job_def sample_job_def ExpireOnChain_def is_ok_iff)
qed

end
