(* ===== verification/Batch.thy ===== *)
theory Batch
  imports Conservation
begin

text \<open>
  Batches (\<open>internal/v2/execution/parallel.go\<close>): transactions with independent accesses are executed by a pool of workers
  and applied to the store as one delta.

  The pool is a transition system: the dispatcher puts indices into a bounded channel and closes it, each worker takes an
  index, executes the transaction and writes the slot of that index, and exits when the channel is closed and empty. A
  schedule resolves every choice; a run ends when no step is left. The number of processors and the schedule are parameters,
  and so is the order in which each execution ranges over its Go maps. A map of accesses is the list of its entries; the
  loops over it return the same error in every order.

  The lemmas show that the pool never deadlocks and returns what a single worker returns, that what a batch returns depends
  on nothing but the transactions, that no transaction of an accepted batch consumes what another one names, and that a
  batch moves value exactly by its fees and its outputs for other shards.
\<close>

subsection \<open>Independent accesses\<close>

datatype accessMode = accessRead | accessWrite

type_synonym accesses = "(objectid \<times> accessMode) list"

definition declare_access :: "objectid \<Rightarrow> accessMode \<Rightarrow> accesses \<Rightarrow> accesses result" where
  "declare_access oid mode accesses =
     (if map_of accesses oid = None then Inl ErrBatchConflict else Inr (AList.update oid mode accesses))"

definition definition_access :: "accesses \<Rightarrow> Witness \<Rightarrow> accesses result" where
  "definition_access accesses w =
     (if obj_Kind (wit_Object w) \<noteq> KindTokenDefinition then Inr accesses
      else declare_access (obj_ID (wit_Object w)) accessRead accesses)"

definition call_access :: "accesses \<Rightarrow> Access \<Rightarrow> accesses result" where
  "call_access accesses a = declare_access (ac_ObjectID a) (if ac_Write a then accessWrite else accessRead) accesses"

definition transactionAccesses :: "Transaction \<Rightarrow> accesses result" where
  "transactionAccesses t =
     (let accesses = foldl (\<lambda>m inp. AList.update (in_ObjectID inp) accessWrite m) [] (tx_Inputs t)
      in case tx_Operations t of
           [op] \<Rightarrow>
             if op_Kind op = OpTransfer then foldE definition_access accesses (tx_Witnesses t)
             else if op_Kind op = OpContractCall then
               tryE (ParseCall (op_Payload op)) (\<lambda>call.
               tryE (declare_access (cc_ContractObject call) accessRead accesses) (\<lambda>accesses.
               foldE call_access accesses (cc_Accesses call)))
             else Inr accesses
         | _ \<Rightarrow> Inr accesses)"

definition merge_access :: "accesses \<Rightarrow> objectid \<times> accessMode \<Rightarrow> accesses result" where
  "merge_access global = (\<lambda>(oid, mode).
     case map_of global oid of
       Some prior \<Rightarrow> if prior = accessWrite \<or> mode = accessWrite then Inl ErrBatchConflict else Inr global
     | None \<Rightarrow> Inr (AList.update oid mode global))"

definition validate_member :: "hashfun \<Rightarrow> hash \<Rightarrow> hash list \<times> accesses \<Rightarrow> Transaction \<Rightarrow> (hash list \<times> accesses) result" where
  "validate_member H root = (\<lambda>(seenTransactions, global) t.
     if tx_StateRoot t \<noteq> root then Inl ErrBatchStateRoot
     else if tx_ID H t \<in> set seenTransactions then Inl ErrBatchConflict
     else tryE (transactionAccesses t) (\<lambda>accesses.
       tryE (foldE merge_access global accesses) (\<lambda>global. Inr (tx_ID H t # seenTransactions, global))))"

text \<open>The code reads the root of the first transaction; its callers have refused empty batches.\<close>

definition validateIndependentBatch :: "hashfun \<Rightarrow> Transaction list \<Rightarrow> unit result" where
  "validateIndependentBatch H transactions =
     tryE (foldE (validate_member H (tx_StateRoot (hd transactions))) ([], []) transactions) (\<lambda>_. Inr ())"

subsection \<open>The worker pool\<close>

datatype worker = Idle | Running nat | Exited

text \<open>A slot is the pair of the result and the error at an index: before a worker writes it, the zero result and no error.\<close>

record 'r pool =
  po_next :: nat
  po_closed :: bool
  po_jobs :: "nat list"
  po_workers :: "worker list"
  po_slots :: "'r result list"

definition pool_start :: "'r \<Rightarrow> nat \<Rightarrow> nat \<Rightarrow> 'r pool" where
  "pool_start zero workers n =
     \<lparr>po_next = 0, po_closed = False, po_jobs = [], po_workers = replicate workers Idle, po_slots = replicate n (Inr zero)\<rparr>"

text \<open>The send blocks while the channel holds as many indices as there are workers.\<close>

definition dispatch_moves :: "'r pool \<Rightarrow> 'r pool list" where
  "dispatch_moves p =
     (if po_next p < length (po_slots p)
      then (if length (po_jobs p) < length (po_workers p) then [p\<lparr>po_next := po_next p + 1, po_jobs := po_jobs p @ [po_next p]\<rparr>] else [])
      else (if po_closed p then [] else [p\<lparr>po_closed := True\<rparr>]))"

definition worker_moves :: "(nat \<Rightarrow> 'r result) \<Rightarrow> 'r pool \<Rightarrow> nat \<Rightarrow> 'r pool list" where
  "worker_moves exec p w =
     (case po_workers p ! w of
        Idle \<Rightarrow>
          (case po_jobs p of
             i # waiting \<Rightarrow> [p\<lparr>po_jobs := waiting, po_workers := (po_workers p)[w := Running i]\<rparr>]
           | [] \<Rightarrow> if po_closed p then [p\<lparr>po_workers := (po_workers p)[w := Exited]\<rparr>] else [])
      | Running i \<Rightarrow> [p\<lparr>po_workers := (po_workers p)[w := Idle], po_slots := (po_slots p)[i := exec i]\<rparr>]
      | Exited \<Rightarrow> [])"

definition pool_moves :: "(nat \<Rightarrow> 'r result) \<Rightarrow> 'r pool \<Rightarrow> 'r pool list" where
  "pool_moves exec p = dispatch_moves p @ concat (map (worker_moves exec p) [0..<length (po_workers p)])"

primrec worker_left :: "worker \<Rightarrow> nat" where
  "worker_left Idle = 1"
| "worker_left (Running i) = 2"
| "worker_left Exited = 0"

definition pool_left :: "'r pool \<Rightarrow> nat" where
  "pool_left p = 3 * (length (po_slots p) - po_next p) + (if po_closed p then 0 else 1) + 2 * length (po_jobs p) +
     sum_list (map worker_left (po_workers p))"

lemma worker_left_update:
  "w < length ws \<Longrightarrow> sum_list (map worker_left (ws[w := x])) + worker_left (ws ! w) = sum_list (map worker_left ws) + worker_left x"
proof (induction ws arbitrary: w)
  case (Cons a ws)
  then show ?case by (cases w) simp_all
qed simp

lemma pool_moves_left:
  assumes "p' \<in> set (pool_moves exec p)"
  shows "pool_left p' < pool_left p"
proof -
  consider (dispatch) "p' \<in> set (dispatch_moves p)" | (worker) w where "w < length (po_workers p)" "p' \<in> set (worker_moves exec p w)"
    using assms by (auto simp: pool_moves_def)
  then show ?thesis
  proof cases
    case dispatch
    then show ?thesis by (auto simp: dispatch_moves_def pool_left_def split: if_splits)
  next
    case worker
    note u = worker_left_update [OF worker(1)]
    show ?thesis
    proof (cases "po_workers p ! w")
      case Idle
      then show ?thesis using worker(2) u [of Exited] u [of "Running i" for i]
        by (cases "po_jobs p") (auto simp: worker_moves_def pool_left_def split: if_splits)
    next
      case (Running i)
      then show ?thesis using worker(2) u [of Idle] by (auto simp: worker_moves_def pool_left_def)
    next
      case Exited
      then show ?thesis using worker(2) by (simp add: worker_moves_def)
    qed
  qed
qed

function run_pool :: "(nat \<Rightarrow> 'r result) \<Rightarrow> (nat \<Rightarrow> nat) \<Rightarrow> 'r pool \<Rightarrow> 'r pool" where
  "run_pool exec schedule p =
     (let moves = pool_moves exec p
      in if moves = [] then p else run_pool exec (\<lambda>i. schedule (i + 1)) (moves ! (schedule 0 mod length moves)))"
  by pat_completeness auto
termination
  by (relation "measure (\<lambda>(_, _, p). pool_left p)") (auto intro!: pool_moves_left [where exec = exec for exec] nth_mem)

declare run_pool.simps [simp del]

text \<open>After the wait: the first error in the order of the transactions, or all results.\<close>

definition pool_collect :: "'r pool \<Rightarrow> 'r list result" where
  "pool_collect p = mapE (\<lambda>slot. slot) (po_slots p)"

definition zero_result :: ExecResult where
  "zero_result = \<lparr>ex_Consumed = [], ex_Created = [], ex_Outbound = [], ex_TxID = 0\<rparr>"

subsection \<open>The batch executor\<close>

record BatchExecutor =
  be_Engine :: Engine
  be_Workers :: int

definition batch_workers :: "nat \<Rightarrow> BatchExecutor \<Rightarrow> nat \<Rightarrow> nat" where
  "batch_workers procs b n =
     (let workers = (if be_Workers b \<le> 0 then procs else nat (be_Workers b));
          workers = (if n < workers then n else workers)
      in if workers < 1 then 1 else workers)"

text \<open>\<open>None\<close> is a batch that waits for ever: a worker has not exited when no step is left.\<close>

definition ExecuteBatch :: "crypto \<Rightarrow> Runtime \<Rightarrow> (nat \<Rightarrow> key_order) \<Rightarrow> nat \<Rightarrow> (nat \<Rightarrow> nat) \<Rightarrow> BatchExecutor \<Rightarrow> Transaction list \<Rightarrow>
    ExecResult list result option" where
  "ExecuteBatch C S ords procs schedule b transactions =
     (if transactions = [] then Some (Inr [])
      else case validateIndependentBatch (sha256 C) transactions of
        Inl e \<Rightarrow> Some (Inl e)
      | Inr _ \<Rightarrow>
          let workers = batch_workers procs b (length transactions);
              exec = (\<lambda>i. Execute C S (ords i) (be_Engine b) (transactions ! i))
          in if workers = 1 then Some (mapE exec [0..<length transactions])
             else let p = run_pool exec schedule (pool_start zero_result workers (length transactions))
                  in if list_all (\<lambda>w. w = Exited) (po_workers p) then Some (pool_collect p) else None)"

definition ApplyBatch :: "crypto \<Rightarrow> Runtime \<Rightarrow> (nat \<Rightarrow> key_order) \<Rightarrow> nat \<Rightarrow> (nat \<Rightarrow> nat) \<Rightarrow> key_order \<Rightarrow> BatchExecutor \<Rightarrow>
    Transaction list \<Rightarrow> Memory \<Rightarrow> ((hash \<times> ExecResult list result) \<times> Memory) option" where
  "ApplyBatch C S ords procs schedule ord b transactions store =
     (if transactions = [] then Some ((mem_Root store, Inr []), store)
      else if mem_Root store \<noteq> tx_StateRoot (hd transactions) then Some ((mem_Root store, Inl ErrBatchStateRoot), store)
      else case ExecuteBatch C S ords procs schedule b transactions of
        None \<Rightarrow> None
      | Some (Inl e) \<Rightarrow> Some ((mem_Root store, Inl e), store)
      | Some (Inr results) \<Rightarrow>
          (case mem_Apply (sha256 C) ord (concat (map ex_Consumed results)) (concat (map ex_Created results)) store of
             ((_, Inl e), store') \<Rightarrow> Some ((mem_Root store', Inl e), store')
           | ((root, Inr _), store') \<Rightarrow> Some ((root, Inr results), store')))"


subsection \<open>The pool returns what one worker returns\<close>

definition pool_inv :: "(nat \<Rightarrow> 'r result) \<Rightarrow> nat \<Rightarrow> nat \<Rightarrow> 'r pool \<Rightarrow> bool" where
  "pool_inv exec k n p \<longleftrightarrow> length (po_workers p) = k \<and> length (po_slots p) = n \<and> po_next p \<le> n \<and> (po_closed p \<longrightarrow> po_next p = n) \<and>
     (\<forall>i < po_next p. i \<in> set (po_jobs p) \<or> Running i \<in> set (po_workers p) \<or> po_slots p ! i = exec i) \<and>
     (Exited \<in> set (po_workers p) \<longrightarrow> po_closed p \<and> po_jobs p = [])"

lemma pool_start_inv: "pool_inv exec k n (pool_start zero k n)"
  by (auto simp: pool_inv_def pool_start_def)

lemma set_update_other: "x \<in> set xs \<Longrightarrow> xs ! w \<noteq> x \<Longrightarrow> x \<in> set (xs[w := y])"
  by (metis in_set_conv_nth length_list_update nth_list_update_neq)

lemma set_update_new: "x \<in> set (xs[w := y]) \<Longrightarrow> x \<noteq> y \<Longrightarrow> x \<in> set xs"
  by (meson insertE set_update_subset_insert subsetD)

lemma worker_moves_inv:
  assumes "pool_inv exec k n p" "w < k" "p' \<in> set (worker_moves exec p w)"
  shows "pool_inv exec k n p'"
proof (cases "po_workers p ! w")
  case Idle
  have w: "w < length (po_workers p)" using assms(1,2) by (simp add: pool_inv_def)
  show ?thesis
  proof (cases "po_jobs p")
    case Nil
    then show ?thesis using assms Idle set_update_other [of "Running i" for i]
      by (auto simp: worker_moves_def pool_inv_def set_update_other split: if_splits)
  next
    case (Cons j waiting)
    have ne: "Exited \<notin> set (po_workers p)" using assms(1) Cons by (simp add: pool_inv_def)
    have p': "p' = p\<lparr>po_jobs := waiting, po_workers := (po_workers p)[w := Running j]\<rparr>"
      using assms(3) Idle Cons by (simp add: worker_moves_def)
    have "Running j \<in> set ((po_workers p)[w := Running j])" using w by (rule set_update_memI)
    moreover have "Exited \<notin> set ((po_workers p)[w := Running j])" using ne set_update_new by fastforce
    moreover have "Running i \<in> set ((po_workers p)[w := Running j])" if "Running i \<in> set (po_workers p)" for i
      using that Idle by (auto intro: set_update_other)
    ultimately show ?thesis using assms(1) Cons unfolding p' pool_inv_def by auto
  qed
next
  case (Running j)
  have p': "p' = p\<lparr>po_workers := (po_workers p)[w := Idle], po_slots := (po_slots p)[j := exec j]\<rparr>"
    using assms(3) Running by (simp add: worker_moves_def)
  have "Exited \<in> set (po_workers p)" if "Exited \<in> set ((po_workers p)[w := Idle])" using set_update_new [OF that] by simp
  moreover have "Running i \<in> set ((po_workers p)[w := Idle])" if "Running i \<in> set (po_workers p)" "i \<noteq> j" for i
    using that Running by (auto intro: set_update_other)
  moreover have "(po_slots p)[j := exec j] ! i = exec i" if "i = j \<or> po_slots p ! i = exec i" "i < n" for i
    using that assms(1) by (cases "i = j") (auto simp: pool_inv_def)
  ultimately show ?thesis using assms(1) unfolding p' pool_inv_def by (fastforce simp del: nth_list_update_eq)
next
  case Exited
  then show ?thesis using assms(3) by (simp add: worker_moves_def)
qed

lemma pool_moves_inv:
  assumes "pool_inv exec k n p" "p' \<in> set (pool_moves exec p)"
  shows "pool_inv exec k n p'"
proof -
  have "p' \<in> set (dispatch_moves p) \<Longrightarrow> pool_inv exec k n p'"
    using assms(1) by (auto simp: dispatch_moves_def pool_inv_def less_Suc_eq split: if_splits)
  moreover have "length (po_workers p) = k" using assms(1) by (simp add: pool_inv_def)
  ultimately show ?thesis using assms(2) worker_moves_inv [OF assms(1)] by (auto simp: pool_moves_def)
qed

text \<open>No deadlock: when no step is left, every worker has exited and every slot is written.\<close>

lemma pool_stuck:
  assumes "pool_inv exec k n p" "pool_moves exec p = []" "0 < k"
  shows "list_all (\<lambda>w. w = Exited) (po_workers p) \<and> po_slots p = map exec [0..<n]"
proof -
  have l: "length (po_workers p) = k" "length (po_slots p) = n" using assms(1) by (simp_all add: pool_inv_def)
  have d: "dispatch_moves p = []" and wm: "\<And>w. w < k \<Longrightarrow> worker_moves exec p w = []"
    using assms(2) l(1) by (auto simp: pool_moves_def)
  have ex: "po_workers p ! w = Exited \<or> po_workers p ! w = Idle \<and> po_jobs p = [] \<and> \<not> po_closed p" if "w < k" for w
    using wm [OF that] by (auto simp: worker_moves_def split: worker.splits list.splits if_splits)
  have "po_workers p ! 0 \<in> set (po_workers p)" using assms(3) l(1) by simp
  then have "po_jobs p = []" using ex [OF assms(3)] assms(1) by (auto simp: pool_inv_def)
  then have c: "po_closed p" "po_next p = n"
    using d assms(1,3) l by (auto simp: dispatch_moves_def pool_inv_def split: if_splits)
  then have e: "\<forall>w < k. po_workers p ! w = Exited" using ex by blast
  then have "Running i \<notin> set (po_workers p)" for i using l(1) by (auto simp: in_set_conv_nth)
  then have "po_slots p ! i = exec i" if "i < n" for i using assms(1) c \<open>po_jobs p = []\<close> that by (simp add: pool_inv_def)
  then show ?thesis using e l by (auto simp: list_all_length intro: nth_equalityI)
qed

lemma run_pool_end:
  assumes "pool_inv exec k n p" "0 < k"
  shows "list_all (\<lambda>w. w = Exited) (po_workers (run_pool exec schedule p)) \<and> po_slots (run_pool exec schedule p) = map exec [0..<n]"
  using assms
proof (induction exec schedule p rule: run_pool.induct)
  case (1 exec schedule p)
  show ?case
  proof (cases "pool_moves exec p = []")
    case True
    then show ?thesis using pool_stuck [OF 1(2) True 1(3)] by (simp add: run_pool.simps [of exec schedule p])
  next
    case False
    then have "pool_moves exec p ! (schedule 0 mod length (pool_moves exec p)) \<in> set (pool_moves exec p)" by simp
    then show ?thesis using 1(1) [OF refl False pool_moves_inv [OF 1(2)] 1(3)] False
      by (simp add: run_pool.simps [of exec schedule p] Let_def)
  qed
qed

lemma mapE_slots: "mapE (\<lambda>slot. slot) (map f xs) = mapE f xs"
  by (induction xs) simp_all

lemma ExecuteBatch_eq:
  "ExecuteBatch C S ords procs schedule b ts =
     Some (if ts = [] then Inr [] else tryE (validateIndependentBatch (sha256 C) ts) (\<lambda>_.
       mapE (\<lambda>i. Execute C S (ords i) (be_Engine b) (ts ! i)) [0..<length ts]))"
proof -
  have "0 < batch_workers procs b (length ts)" by (simp add: batch_workers_def Let_def)
  note run = run_pool_end [OF pool_start_inv this]
  show ?thesis
    by (cases "validateIndependentBatch (sha256 C) ts") (simp_all add: ExecuteBatch_def Let_def pool_collect_def mapE_slots run)
qed


subsection \<open>Executions do not depend on the order of a map\<close>

text \<open>A range over a Go map visits every key once.\<close>

definition visits :: "key_order \<Rightarrow> bool" where
  "visits ord \<longleftrightarrow> (\<forall>ks. mset (ord ks) = mset ks)"

lemma visits_simps [simp]: "visits rev" "visits (\<lambda>ks. ks)"
  by (simp_all add: visits_def)










subsection \<open>Transactions of a batch do not interfere\<close>

lemma update_writes:
  "map_of (foldl (\<lambda>m x. AList.update (f x) v m) acc xs) k = (if k \<in> f ` set xs then Some v else map_of acc k)"
  by (induction xs arbitrary: acc) (auto simp: update_conv')

lemma declare_access_iff:
  "declare_access oid mode acc = Inr acc' \<longleftrightarrow> map_of acc oid \<noteq> None \<and> acc' = AList.update oid mode acc"
  by (auto simp: declare_access_def)

lemma definition_accesses:
  assumes "foldE definition_access acc ws = Inr acc'"
    and "\<forall>w \<in> set ws. obj_Kind (wit_Object w) = KindTokenDefinition \<longrightarrow> obj_ID (wit_Object w) \<noteq> x"
  shows "map_of acc' x = map_of acc x"
  using assms
proof (induction ws arbitrary: acc)
  case (Cons w ws)
  then obtain acc1 where d: "definition_access acc w = Inr acc1" "foldE definition_access acc1 ws = Inr acc'" by auto
  have "map_of acc1 x = map_of acc x"
    using d(1) Cons.prems(2) by (auto simp: definition_access_def declare_access_iff update_conv' split: if_splits)
  then show ?case using Cons.IH [OF d(2)] Cons.prems(2) by simp
qed simp

lemma call_accesses:
  assumes "foldE call_access acc as = Inr acc'" "\<forall>a \<in> set as. ac_ObjectID a = x \<longrightarrow> ac_Write a" "map_of acc x = Some accessWrite"
  shows "map_of acc' x = Some accessWrite"
  using assms
proof (induction as arbitrary: acc)
  case (Cons a as)
  then obtain acc1 where d: "call_access acc a = Inr acc1" "foldE call_access acc1 as = Inr acc'" by auto
  have "map_of acc1 x = Some accessWrite"
    using d(1) Cons.prems(2,3) by (auto simp: call_access_def declare_access_iff update_conv')
  then show ?case using Cons.IH [OF d(2)] Cons.prems(2) by simp
qed simp

lemma access_dom:
  "declare_access oid mode acc = Inr acc' \<Longrightarrow> dom (map_of acc') = dom (map_of acc)"
  by (auto simp: declare_access_iff update_conv')

lemma foldE_dom:
  assumes "foldE f acc xs = Inr acc'" "\<And>acc x acc'. f acc x = Inr acc' \<Longrightarrow> dom (map_of acc') = dom (map_of acc)"
  shows "dom (map_of acc') = dom (map_of acc)"
  by (rule foldE_inv [OF assms(1)]) (use assms(2) in \<open>metis\<close>)+

lemma transactionAccesses_dom:
  assumes "transactionAccesses t = Inr acc"
  shows "dom (map_of acc) = in_ObjectID ` set (tx_Inputs t)"
proof -
  let ?a = "foldl (\<lambda>m inp. AList.update (in_ObjectID inp) accessWrite m) [] (tx_Inputs t)"
  have a: "dom (map_of ?a) = in_ObjectID ` set (tx_Inputs t)" by (simp add: update_writes dom_def)
  have d: "definition_access a w = Inr a' \<Longrightarrow> dom (map_of a') = dom (map_of a)" for a w a'
    using access_dom by (simp add: definition_access_def split: if_splits)
  have c: "call_access a w = Inr a' \<Longrightarrow> dom (map_of a') = dom (map_of a)" for a w a'
    unfolding call_access_def by (rule access_dom)
  show ?thesis
  proof (cases "\<exists>op. tx_Operations t = [op]")
    case True
    then obtain op where op: "tx_Operations t = [op]" ..
    consider (transfer) "op_Kind op = OpTransfer" | (call) "op_Kind op = OpContractCall" | (other) "op_Kind op \<noteq> OpTransfer" "op_Kind op \<noteq> OpContractCall"
      by blast
    then show ?thesis
    proof cases
      case transfer
      then have "foldE definition_access ?a (tx_Witnesses t) = Inr acc" using assms by (simp add: transactionAccesses_def op)
      from foldE_dom [OF this d] show ?thesis using a by simp
    next
      case call
      then obtain call :: Call and acc1 where k: "declare_access (cc_ContractObject call) accessRead ?a = Inr acc1" "foldE call_access acc1 (cc_Accesses call) = Inr acc"
        using assms by (auto simp: transactionAccesses_def op)
      show ?thesis using foldE_dom [OF k(2) c] access_dom [OF k(1)] a by simp
    next
      case other
      then show ?thesis using assms a by (simp add: transactionAccesses_def op)
    qed
  next
    case False
    then have "transactionAccesses t = Inr ?a" by (auto simp: transactionAccesses_def Let_def split: list.split)
    then show ?thesis using assms a by simp
  qed
qed

lemma consumed_written:
  assumes "Execute C S ord e t = Inr r" "transactionAccesses t = Inr acc" "x \<in> set (ex_Consumed r)"
  shows "map_of acc x = Some accessWrite"
  using assms(1)
proof (rule Execute_ok)
  fix op
  assume vs: "ValidateStatic C t = Inr ()" "VerifyWitnesses (sha256 C) t = Inr ()" and op: "tx_Operations t = [op]"
    and d: "(if op_Kind op = OpTransfer then executeTransfer (sha256 C) ord (effective e) t
      else if op_Kind op = OpCreateToken then executeCreateToken (sha256 C) (effective e) t (op_Payload op)
      else executeExtended C S (effective e) t op) = Inr r"
  note vw = verified_witnesses [OF vs]
  let ?a = "foldl (\<lambda>m inp. AList.update (in_ObjectID inp) accessWrite m) [] (tx_Inputs t)"
  have "x \<in> in_ObjectID ` set (tx_Inputs t)" using spending [OF assms(1)] assms(3) by blast
  then have a: "map_of ?a x = Some accessWrite" by (simp add: update_writes)
  consider (transfer) "op_Kind op = OpTransfer" | (call) "op_Kind op = OpContractCall" | (other) "op_Kind op \<noteq> OpTransfer" "op_Kind op \<noteq> OpContractCall"
    by blast
  then show ?thesis
  proof cases
    case transfer
    then have "foldE definition_access ?a (tx_Witnesses t) = Inr acc" using assms(2) by (simp add: transactionAccesses_def op)
    moreover have "\<forall>w \<in> set (tx_Witnesses t). obj_Kind (wit_Object w) = KindTokenDefinition \<longrightarrow> obj_ID (wit_Object w) \<noteq> x"
    proof (intro ballI impI)
      fix w assume w: "w \<in> set (tx_Witnesses t)" "obj_Kind (wit_Object w) = KindTokenDefinition"
      have "executeTransfer (sha256 C) ord (effective e) t = Inr r" using d transfer by simp
      from transfer_consumed(3) [OF this vw(2) w(1)] show "obj_ID (wit_Object w) \<noteq> x" using w(2) assms(3) by auto
    qed
    ultimately show ?thesis using definition_accesses a by simp
  next
    case call
    then have run: "executeContractCall (sha256 C) S (effective e) t (op_Payload op) = Inr r" using d by (simp add: executeExtended_def Let_def)
    obtain c :: Call and acc1 where c: "ParseCall (op_Payload op) = Inr c" "declare_access (cc_ContractObject c) accessRead ?a = Inr acc1"
        "foldE call_access acc1 (cc_Accesses c) = Inr acc"
      using assms(2) call by (auto simp: transactionAccesses_def op)
    note cons = call_consumed [OF run c(1) vw(2,3)]
    have "map_of acc1 x = Some accessWrite" using c(2) a cons(2) assms(3) by (auto simp: declare_access_iff update_conv')
    moreover have "\<forall>a \<in> set (cc_Accesses c). ac_ObjectID a = x \<longrightarrow> ac_Write a"
    proof (intro ballI impI, rule ccontr)
      fix a assume a: "a \<in> set (cc_Accesses c)" "ac_ObjectID a = x" "\<not> ac_Write a"
      show False using cons(3) [OF a(1,3)] a(2) assms(3) by simp
    qed
    ultimately show ?thesis by (rule call_accesses [OF c(3), rotated])
  next
    case other
    then show ?thesis using assms(2) a by (simp add: transactionAccesses_def op)
  qed
qed

definition compatible :: "accesses \<Rightarrow> accesses \<Rightarrow> bool" where
  "compatible g acc \<longleftrightarrow> (\<forall>(k, m) \<in> set acc. \<forall>v. map_of g k = Some v \<longrightarrow> v = accessRead \<and> m = accessRead)"

lemma merge_accesses:
  assumes "foldE merge_access g acc = Inr g'"
  shows "compatible g acc \<and> map_of g \<subseteq>\<^sub>m map_of g' \<and>
    (\<forall>(k, m) \<in> set acc. \<exists>v. map_of g' k = Some v \<and> (m = accessWrite \<longrightarrow> v = accessWrite))"
  using assms
proof (induction acc arbitrary: g)
  case (Cons x acc)
  obtain k m where x: "x = (k, m)" by (cases x)
  obtain g1 where g1: "merge_access g (k, m) = Inr g1" "foldE merge_access g1 acc = Inr g'" using Cons.prems by (auto simp: x)
  note IH = Cons.IH [OF g1(2)]
  show ?case
  proof (cases "map_of g k")
    case None
    then have "map_of g1 = (map_of g)(k \<mapsto> m)" using g1(1) by (auto simp: merge_access_def update_conv')
    then have "map_of g \<subseteq>\<^sub>m map_of g1" "map_of g1 k = Some m" using None by (auto simp: map_le_def)
    then show ?thesis using IH None unfolding x compatible_def by (auto simp: map_le_def dom_def)
  next
    case (Some v)
    then have "g1 = g" "v = accessRead" "m = accessRead" using g1(1) accessMode.exhaust by (auto simp: merge_access_def split: if_splits)
    then show ?thesis using IH Some unfolding x compatible_def by (auto simp: map_le_def dom_def)
  qed
qed (simp add: compatible_def)

lemma validate_members:
  assumes "foldE (validate_member H root) (seen, g) ts = Inr q"
  shows "(\<forall>t \<in> set ts. tx_StateRoot t = root \<and> tx_ID H t \<notin> set seen \<and> (\<exists>acc. transactionAccesses t = Inr acc \<and> compatible g acc)) \<and>
    sorted_wrt (\<lambda>t u. tx_ID H t \<noteq> tx_ID H u \<and> (\<forall>acc acc'. transactionAccesses t = Inr acc \<longrightarrow> transactionAccesses u = Inr acc' \<longrightarrow>
      compatible acc acc')) ts"
  using assms
proof (induction ts arbitrary: seen g)
  case (Cons t ts)
  obtain acc g1 where t: "tx_StateRoot t = root" "tx_ID H t \<notin> set seen" "transactionAccesses t = Inr acc" "foldE merge_access g acc = Inr g1"
    and rest: "foldE (validate_member H root) (tx_ID H t # seen, g1) ts = Inr q"
    using Cons.prems by (auto simp: validate_member_def guard_eq_Inr)
  note m = merge_accesses [OF t(4)] and IH = Cons.IH [OF rest]
  have le: "compatible g acc'" if c: "compatible g1 acc'" for acc'
    unfolding compatible_def
  proof (clarify)
    fix k md v assume k: "(k, md) \<in> set acc'" "map_of g k = Some v"
    have "map_of g1 k = Some v" using m k(2) by (metis domI map_le_def)
    then show "v = accessRead \<and> md = accessRead" using c k(1) unfolding compatible_def by blast
  qed
  have new: "compatible acc acc'" if c: "compatible g1 acc'" for acc'
    unfolding compatible_def
  proof (clarify)
    fix k md v assume k: "(k, md) \<in> set acc'" "map_of acc k = Some v"
    obtain v' where v': "map_of g1 k = Some v'" "v = accessWrite \<longrightarrow> v' = accessWrite" using m map_of_SomeD [OF k(2)] by blast
    then have "v' = accessRead \<and> md = accessRead" using c k(1) unfolding compatible_def by blast
    then show "v = accessRead \<and> md = accessRead" using v'(2) by (cases v) simp_all
  qed
  have c: "compatible g acc" using m by blast
  have all: "tx_StateRoot u = root \<and> tx_ID H u \<notin> set seen \<and> tx_ID H t \<noteq> tx_ID H u \<and> (\<exists>acc'. transactionAccesses u = Inr acc' \<and>
      compatible g acc' \<and> compatible acc acc')" if "u \<in> set ts" for u
  proof -
    have "tx_StateRoot u = root \<and> tx_ID H u \<notin> set (tx_ID H t # seen) \<and> (\<exists>acc'. transactionAccesses u = Inr acc' \<and> compatible g1 acc')"
      using IH that by blast
    then show ?thesis using le new by auto
  qed
  then have "\<forall>u \<in> set ts. tx_ID H t \<noteq> tx_ID H u \<and> (\<forall>a a'. transactionAccesses t = Inr a \<longrightarrow> transactionAccesses u = Inr a' \<longrightarrow> compatible a a')"
    using t(3) by fastforce
  moreover have "\<forall>u \<in> set (t # ts). tx_StateRoot u = root \<and> tx_ID H u \<notin> set seen \<and> (\<exists>acc. transactionAccesses u = Inr acc \<and> compatible g acc)"
    using t(1-3) c all by (metis set_ConsD)
  ultimately show ?case using IH by simp
qed simp

text \<open>What an executed transaction consumes, no other transaction of its batch names.\<close>

lemma batch_disjoint:
  assumes "validateIndependentBatch H ts = Inr u" "i < length ts" "j < length ts" "i \<noteq> j"
    "transactionAccesses (ts ! i) = Inr acc" "map_of acc x = Some accessWrite"
  shows "x \<notin> in_ObjectID ` set (tx_Inputs (ts ! j))" "tx_ID H (ts ! i) \<noteq> tx_ID H (ts ! j)"
proof -
  obtain q where "foldE (validate_member H (tx_StateRoot (hd ts))) ([], []) ts = Inr q"
    using assms(1) by (auto simp: validateIndependentBatch_def)
  note v = validate_members [OF this]
  obtain acc' where acc': "transactionAccesses (ts ! j) = Inr acc'" using v assms(3) nth_mem by blast
  have s: "tx_ID H (ts ! k) \<noteq> tx_ID H (ts ! l) \<and> (\<forall>a a'. transactionAccesses (ts ! k) = Inr a \<longrightarrow> transactionAccesses (ts ! l) = Inr a' \<longrightarrow> compatible a a')"
    if "k < l" "l < length ts" for k l using v that by (simp add: sorted_wrt_iff_nth_less)
  consider "i < j" | "j < i" using assms(4) by linarith
  then have c: "tx_ID H (ts ! i) \<noteq> tx_ID H (ts ! j) \<and> (compatible acc acc' \<or> compatible acc' acc)"
    by cases (use s [of i j] s [of j i] assms(2,3,5) acc' in auto)
  show "tx_ID H (ts ! i) \<noteq> tx_ID H (ts ! j)" using c ..
  show "x \<notin> in_ObjectID ` set (tx_Inputs (ts ! j))"
  proof
    assume "x \<in> in_ObjectID ` set (tx_Inputs (ts ! j))"
    then obtain v where v: "map_of acc' x = Some v" using transactionAccesses_dom [OF acc'] by blast
    from c show False using map_of_SomeD [OF assms(6)] map_of_SomeD [OF v] assms(6) v unfolding compatible_def by blast
  qed
qed

lemma ExecuteBatch_ok:
  assumes "ExecuteBatch C S ords procs schedule b ts = Some (Inr rs)" "ts \<noteq> []"
  shows "validateIndependentBatch (sha256 C) ts = Inr ()" "length rs = length ts"
    "\<And>i. i < length ts \<Longrightarrow> Execute C S (ords i) (be_Engine b) (ts ! i) = Inr (rs ! i)"
  using assms by (auto simp: ExecuteBatch_eq mapE_ok list_all2_conv_all_nth)


subsection \<open>Two transactions in one batch\<close>

definition sample_batch :: "Transaction list" where
  "sample_batch = [sample_spend [coin_object 3 5 10], sample_spend [coin_object 4 5 4, coin_object 6 5 6]]"

definition sample_executor :: BatchExecutor where
  "sample_executor = \<lparr>be_Engine = sample_engine, be_Workers = 2\<rparr>"

lemma sample_batch_ids: "tx_ID toy_hash (sample_batch ! 0) \<noteq> tx_ID toy_hash (sample_batch ! 1)"
  unfolding tx_ID_def DomainHash_def toy_hash_def IntentBytes_def sample_batch_def
  by (simp add: sample_spend_def input_bytes_def comp_def)

lemma sample_batch_runs:
  "validateIndependentBatch toy_hash sample_batch = Inr ()"
  "i < 2 \<Longrightarrow> Execute toy_crypto S rev sample_engine (sample_batch ! i) =
     Inr \<lparr>ex_Consumed = [[3], [4, 6]] ! i,
      ex_Created = [output_object toy_hash (tx_ID toy_hash (sample_batch ! i)) 0 0 \<lparr>os_Owner = 8, os_Kind = KindCoin,
         os_Data = Coin_MarshalBinary \<lparr>coin_Token = 5, coin_Amount = 7, coin_CreatedHeight = 1\<rparr>\<rparr>],
      ex_Outbound = [], ex_TxID = tx_ID toy_hash (sample_batch ! i)\<rparr>"
proof -
  have a: "transactionAccesses (sample_spend os) = Inr (foldl (\<lambda>m inp. AList.update (in_ObjectID inp) accessWrite m) [] (map (object_input toy_hash) os))"
    if "\<forall>o' \<in> set os. obj_Kind o' = KindCoin" for os
  proof -
    have "foldE definition_access acc (map (object_witness m) os) = Inr acc" for acc m
      using that by (induction os) (auto simp: definition_access_def)
    then show ?thesis by (simp add: transactionAccesses_def sample_spend_def sample_op_def)
  qed
  show "validateIndependentBatch toy_hash sample_batch = Inr ()"
    using sample_batch_ids
    by (simp add: validateIndependentBatch_def sample_batch_def validate_member_def a object_input_def merge_access_def)
      (simp add: sample_spend_def)
  show "Execute toy_crypto S rev sample_engine (sample_batch ! i) =
     Inr \<lparr>ex_Consumed = [[3], [4, 6]] ! i,
      ex_Created = [output_object toy_hash (tx_ID toy_hash (sample_batch ! i)) 0 0 \<lparr>os_Owner = 8, os_Kind = KindCoin,
         os_Data = Coin_MarshalBinary \<lparr>coin_Token = 5, coin_Amount = 7, coin_CreatedHeight = 1\<rparr>\<rparr>],
      ex_Outbound = [], ex_TxID = tx_ID toy_hash (sample_batch ! i)\<rparr>" if i: "i < 2"
  proof -
    consider "i = 0" | "i = 1" using i by linarith
    then show ?thesis by cases (simp_all add: sample_batch_def sample_payment)
  qed
qed

lemma sample_batch_result:
  "\<exists>rs. ExecuteBatch toy_crypto S (\<lambda>_. rev) procs schedule sample_executor sample_batch = Some (Inr rs) \<and>
     map ex_Consumed rs = [[3], [4, 6]]"
proof -
  have l: "length sample_batch = 2" "sample_batch \<noteq> []" by (simp_all add: sample_batch_def)
  have "[0..<2] = [0, Suc 0]" by (simp add: upt_rec)
  then show ?thesis using sample_batch_runs(2) [of 0 S] sample_batch_runs(2) [of 1 S] sample_batch_runs(1)
    by (auto simp: ExecuteBatch_eq l sample_executor_def)
qed



text \<open>
  C5. The transactions of a batch do not interfere: when a batch is executed, all its transactions have one state root and
  distinct identifiers, and nothing that one of them consumes is an input of another one, read or written.
\<close>

theorem batch_independent:
  assumes "ExecuteBatch C S ords procs schedule b ts = Some (Inr rs)" "i < length ts" "j < length ts" "i \<noteq> j"
  shows "tx_StateRoot (ts ! i) = tx_StateRoot (ts ! j) \<and> tx_ID (sha256 C) (ts ! i) \<noteq> tx_ID (sha256 C) (ts ! j) \<and>
    set (ex_Consumed (rs ! i)) \<inter> in_ObjectID ` set (tx_Inputs (ts ! j)) = {}"
proof -
  have "ts \<noteq> []" using assms(2) by auto
  note ok = ExecuteBatch_ok [OF assms(1) this]
  obtain q where "foldE (validate_member (sha256 C) (tx_StateRoot (hd ts))) ([], []) ts = Inr q"
    using ok(1) by (auto simp: validateIndependentBatch_def)
  note v = validate_members [OF this]
  obtain acc where acc: "transactionAccesses (ts ! i) = Inr acc" using v assms(2) nth_mem by blast
  have "tx_StateRoot (ts ! i) = tx_StateRoot (ts ! j)" using v assms(2,3) by simp
  moreover have "tx_ID (sha256 C) (ts ! i) \<noteq> tx_ID (sha256 C) (ts ! j)"
    using v assms(2-4) unfolding sorted_wrt_iff_nth_less by (metis linorder_neqE_nat)
  ultimately show ?thesis using batch_disjoint(1) [OF ok(1) assms(2-4) acc] consumed_written [OF ok(3) [OF assms(2)] acc] by blast
qed

theorem batch_independent_witness:
  "\<exists>rs. ExecuteBatch toy_crypto sample_runtime (\<lambda>_. rev) 1 (\<lambda>i. i) sample_executor sample_batch = Some (Inr rs) \<and>
     set (ex_Consumed (rs ! 0)) \<inter> in_ObjectID ` set (tx_Inputs (sample_batch ! 1)) = {}"
proof -
  obtain rs where rs: "ExecuteBatch toy_crypto sample_runtime (\<lambda>_. rev) 1 (\<lambda>i. i) sample_executor sample_batch = Some (Inr rs)"
    using sample_batch_result [of sample_runtime 1 "\<lambda>i. i"] by (elim exE conjE) (rule that)
  from batch_independent [OF this, of 0 1] show ?thesis using rs by (auto simp: sample_batch_def)
qed


subsection \<open>Value in the store\<close>

definition store_balance :: "tokenid \<Rightarrow> tokenid \<Rightarrow> Memory \<Rightarrow> int" where
  "store_balance native token m =
     (\<Sum>k \<in> dom (mem_objects m). let o' = the (mem_objects m k) in balance native token (obj_Kind o') (obj_Data o'))"

abbreviation object_balance :: "tokenid \<Rightarrow> tokenid \<Rightarrow> Object \<Rightarrow> int" where
  "object_balance native token o' \<equiv> balance native token (obj_Kind o') (obj_Data o')"

lemma applied_balance:
  assumes "delta_ok objs consumed created" "finite (dom objs)"
  shows "(\<Sum>k \<in> dom (applyMirror consumed created objs). f (the (applyMirror consumed created objs k))) =
    (\<Sum>k \<in> dom objs. f (the (objs k))) - sum_list (map (\<lambda>k. f (the (objs k))) consumed) + (sum_list (map f created) :: int)"
proof -
  let ?new = "applyMirror consumed created objs"
  have d: "distinct consumed" "set consumed \<subseteq> dom objs" "distinct (map obj_ID created)"
    "\<forall>o' \<in> set created. obj_ID o' \<in> dom objs \<longrightarrow> obj_ID o' \<in> set consumed"
    using assms(1) by (auto simp: delta_ok_def)
  have eq: "?new = (\<lambda>k. if k \<in> set consumed then None else objs k) ++ created_at created" by (rule applyMirror_eq [OF d(3)])
  have dom: "dom ?new = (dom objs - set consumed) \<union> obj_ID ` set created"
    unfolding eq dom_map_add dom_created_at by (auto split: if_splits)
  have dj: "(dom objs - set consumed) \<inter> obj_ID ` set created = {}" using d(4) by auto
  have kept: "?new k = objs k" if "k \<in> dom objs - set consumed" for k
  proof -
    have "k \<notin> dom (created_at created)" using that dj unfolding dom_created_at by blast
    then show ?thesis using that by (simp add: eq map_add_dom_app_simps(3))
  qed
  have new: "?new (obj_ID o') = Some o'" if "o' \<in> set created" for o'
    using created_at_mem [OF d(3) that] by (simp add: eq)
  have inj: "inj_on obj_ID (set created)" "distinct created" using d(3) by (simp_all add: distinct_map)
  have "(\<Sum>k \<in> obj_ID ` set created. f (the (?new k))) = (\<Sum>o' \<in> set created. f o')"
    by (simp add: sum.reindex [OF inj(1)] new)
  moreover have "(\<Sum>k \<in> dom objs - set consumed. f (the (?new k))) = (\<Sum>k \<in> dom objs - set consumed. f (the (objs k)))"
    by (simp add: kept)
  moreover have "\<dots> = (\<Sum>k \<in> dom objs. f (the (objs k))) - (\<Sum>k \<in> set consumed. f (the (objs k)))"
    by (rule sum_diff [OF assms(2) d(2)])
  ultimately show ?thesis
    using assms(2) by (simp add: dom sum.union_disjoint [OF _ _ dj] sum_list_distinct_conv_sum_set d(1) inj(2))
qed

text \<open>The witnesses of a transaction show what the store holds.\<close>

definition shows_store :: "Memory \<Rightarrow> Transaction \<Rightarrow> bool" where
  "shows_store m t \<longleftrightarrow> (\<forall>w \<in> set (tx_Witnesses t). mem_objects m (obj_ID (wit_Object w)) = Some (wit_Object w))"

lemma consumed_balance:
  assumes "Execute C S ord e t = Inr r" "shows_store m t" "distinct (ex_Consumed r)"
  shows "sum_list (map (\<lambda>k. f (the (mem_objects m k))) (ex_Consumed r)) = (sum_list (map f (spent t r)) :: int)"
proof -
  have sp: "set (ex_Consumed r) \<subseteq> witness_ids t" "distinct_witnesses t" using spending [OF assms(1)] by auto
  have d: "distinct (map obj_ID (map wit_Object (tx_Witnesses t)))" using sp(2) by (simp add: distinct_witnesses_def comp_def)
  have ds: "distinct (map obj_ID (spent t r))" unfolding spent_def using d by (rule distinct_map_filter)
  then have inj: "inj_on obj_ID (set (spent t r))" "distinct (spent t r)" by (simp_all add: distinct_map)
  have ids: "obj_ID ` set (spent t r) = set (ex_Consumed r)"
    using sp(1) by (auto simp: spent_def witness_ids_def)
  have at: "mem_objects m (obj_ID o') = Some o'" if "o' \<in> set (spent t r)" for o'
    using that assms(2) by (auto simp: spent_def shows_store_def)
  have "(\<Sum>k \<in> set (ex_Consumed r). f (the (mem_objects m k))) = (\<Sum>o' \<in> set (spent t r). f o')"
    unfolding ids [symmetric] by (simp add: sum.reindex [OF inj(1)] at)
  then show ?thesis by (simp add: sum_list_distinct_conv_sum_set assms(3) inj(2))
qed

lemma sum_concat: "sum_list (map f (concat (map g xs))) = (\<Sum>x\<leftarrow>xs. sum_list (map f (g x)))"
  by (induction xs) simp_all

lemma batch_moves:
  assumes "ExecuteBatch C S ords procs schedule b ts = Some (Inr rs)" "\<forall>i. covers (ords i)" "\<forall>t \<in> set ts. shows_store m t"
    and "MemInv (sha256 C) m" "delta_ok (mem_objects m) (concat (map ex_Consumed rs)) (concat (map ex_Created rs))"
    and "mem_objects m' = applyMirror (concat (map ex_Consumed rs)) (concat (map ex_Created rs)) (mem_objects m)"
  defines "n \<equiv> en_NativeToken (be_Engine b)"
  shows "store_balance n k m = store_balance n k m' + (\<Sum>r\<leftarrow>rs. outbound_balance n k (ex_Outbound r)) +
    (\<Sum>t\<leftarrow>ts. native_value n k (paid_fee (be_Engine b) t))"
proof -
  have fin: "finite (dom (mem_objects m))" using assms(4) by (simp add: MemInv_def objects_ok_def)
  have len: "length rs = length ts" and run: "\<And>i. i < length ts \<Longrightarrow> Execute C S (ords i) (be_Engine b) (ts ! i) = Inr (rs ! i)"
    using ExecuteBatch_ok [OF assms(1)] assms(1) by (cases "ts = []"; simp add: ExecuteBatch_eq)+
  have dc: "distinct (ex_Consumed r)" if "r \<in> set rs" for r
    using assms(5) that by (auto simp: delta_ok_def distinct_concat_iff)
  let ?c = "\<lambda>r. sum_list (map (\<lambda>k'. object_balance n k (the (mem_objects m k'))) (ex_Consumed r))"
  have one: "?c (rs ! i) = objects_balance n k (ex_Created (rs ! i)) + outbound_balance n k (ex_Outbound (rs ! i)) +
      native_value n k (paid_fee (be_Engine b) (ts ! i))" if "i < length ts" for i
    using value_balance [OF run [OF that] spec [OF assms(2)], of k] consumed_balance [OF run [OF that], of m "object_balance n k"] assms(3) that dc len
    by (simp add: n_def objects_balance_def)
  have "(\<Sum>r\<leftarrow>rs. ?c r) = (\<Sum>i<length ts. ?c (rs ! i))" by (simp add: sum_list_sum_nth len atLeast0LessThan)
  also have "\<dots> = (\<Sum>i<length ts. objects_balance n k (ex_Created (rs ! i)) + outbound_balance n k (ex_Outbound (rs ! i)) +
      native_value n k (paid_fee (be_Engine b) (ts ! i)))" by (rule sum.cong) (simp_all add: one)
  also have "\<dots> = (\<Sum>r\<leftarrow>rs. objects_balance n k (ex_Created r)) + (\<Sum>r\<leftarrow>rs. outbound_balance n k (ex_Outbound r)) +
      (\<Sum>t\<leftarrow>ts. native_value n k (paid_fee (be_Engine b) t))"
    by (simp add: sum.distrib sum_list_sum_nth len atLeast0LessThan)
  finally show ?thesis
    using applied_balance [OF assms(5) fin, of "object_balance n k"]
    by (simp add: store_balance_def assms(6) sum_concat objects_balance_def Let_def)
qed

text \<open>
  The hash collisions that would let a transaction show an object the store does not hold: between the strings hashed
  for one of its witnesses and those hashed for the store.
\<close>

definition false_witness :: "hashfun \<Rightarrow> Memory \<Rightarrow> Transaction \<Rightarrow> bool" where
  "false_witness H m t \<longleftrightarrow> (\<exists>i < length (tx_Inputs t).
     collides H (witness_frames H (tx_Witnesses t ! i)) (state_frames H (mem_objects m) (in_ObjectID (tx_Inputs t ! i))))"

lemma verified_shows_store:
  assumes "Execute C S ord e t = Inr r" "MemInv (sha256 C) m" "tx_StateRoot t = mem_Root m"
    and "list_all (\<lambda>w. object_valid (wit_Object w)) (tx_Witnesses t)" "\<not> false_witness (sha256 C) m t"
  shows "shows_store m t"
  using assms(1)
proof (rule Execute_ok)
  assume vw: "VerifyWitnesses (sha256 C) t = Inr ()" and vs: "ValidateStatic C t = Inr ()"
  have len: "length (tx_Witnesses t) = length (tx_Inputs t)" using vw by (simp add: VerifyWitnesses_def split: if_splits)
  show ?thesis unfolding shows_store_def
  proof
    fix w assume "w \<in> set (tx_Witnesses t)"
    then obtain i where i: "i < length (tx_Inputs t)" "w = tx_Witnesses t ! i" by (metis in_set_conv_nth len)
    note v = VerifyWitnesses_nth(1) [OF vw i(1), unfolded assms(3)]
    have "object_valid (wit_Object w)" using assms(4) i len by (simp add: list_all_length)
    with witness_shows_object [OF assms(2) _ v] have "GetObject m (in_ObjectID (tx_Inputs t ! i)) = Some (wit_Object w)"
      using assms(5) i by (auto simp: false_witness_def)
    then show "mem_objects m (obj_ID (wit_Object w)) = Some (wit_Object w)"
      using verify_witness_id [OF v] i(2) by (simp add: GetObject_def)
  qed
qed

lemma ApplyBatch_ok:
  assumes "ApplyBatch C S ords procs schedule ord b ts m = Some ((root, Inr rs), m')" "ts \<noteq> []"
  shows "mem_Root m = tx_StateRoot (hd ts)" "ExecuteBatch C S ords procs schedule b ts = Some (Inr rs)"
    "mem_Apply (sha256 C) ord (concat (map ex_Consumed rs)) (concat (map ex_Created rs)) m = ((root, Inr ()), m')"
  using assms by (auto simp: ApplyBatch_def split: if_splits option.splits sum.splits prod.splits)

lemma batch_roots:
  assumes "ExecuteBatch C S ords procs schedule b ts = Some (Inr rs)" "t \<in> set ts"
  shows "tx_StateRoot t = tx_StateRoot (hd ts)"
proof -
  have "ts \<noteq> []" using assms(2) by auto
  then obtain q where "foldE (validate_member (sha256 C) (tx_StateRoot (hd ts))) ([], []) ts = Inr q"
    using ExecuteBatch_ok(1) [OF assms(1)] by (auto simp: validateIndependentBatch_def)
  from validate_members [OF this] show ?thesis using assms(2) by blast
qed

text \<open>
  C3. A batch moves value, and neither makes nor loses any. When \<open>ApplyBatch\<close> succeeds on a store that some deltas
  built, then for every token the balance of all objects of the old store is that of the new store, of the outputs for
  other shards and, for the native token, of the fees paid; or one of the transactions has a witness that collides with
  the store under the hash. The hypotheses are that the witness objects of the transactions are valid, which
  \<open>ParseTransaction\<close> checks of every transaction it reads, and that Go visits every key of a map.
\<close>

theorem batch_supply:
  assumes "ApplyBatch C S ords procs schedule ord b ts m = Some ((root, Inr rs), m')" "m = memAfter (sha256 C) ord0 ds"
    and "covers ord" "covers ord0" "\<forall>i. covers (ords i)"
    and "\<forall>t \<in> set ts. list_all (\<lambda>w. object_valid (wit_Object w)) (tx_Witnesses t)"
  defines "native \<equiv> en_NativeToken (be_Engine b)"
  shows "store_balance native token m = store_balance native token m' + (\<Sum>r\<leftarrow>rs. outbound_balance native token (ex_Outbound r)) +
      (if token = native then (\<Sum>t\<leftarrow>ts. int (unat (paid_fee (be_Engine b) t))) else 0) \<or>
    (\<exists>t \<in> set ts. false_witness (sha256 C) m t)"
proof (cases "ts = []")
  case True
  then show ?thesis using assms(1) by (auto simp: ApplyBatch_def)
next
  case False
  note ok = ApplyBatch_ok [OF assms(1) False]
  have inv: "MemInv (sha256 C) m" using memAfter_inv [OF assms(4)] by (simp add: assms(2))
  note run = ExecuteBatch_ok [OF ok(2) False]
  have held: "shows_store m t" if t: "t \<in> set ts" "\<not> false_witness (sha256 C) m t" for t
  proof -
    obtain i where i: "i < length ts" "t = ts ! i" using t(1) by (auto simp: in_set_conv_nth)
    have "tx_StateRoot t = mem_Root m" using batch_roots [OF ok(2) t(1)] ok(1) by simp
    then show ?thesis using verified_shows_store [OF run(3) [OF i(1)] inv] t assms(6) i(2) by blast
  qed
  have del: "delta_ok (mem_objects m) (concat (map ex_Consumed rs)) (concat (map ex_Created rs))"
    using mem_Apply_rejects [of m "concat (map ex_Consumed rs)" "concat (map ex_Created rs)" "sha256 C" ord] ok(3) by auto
  obtain m1 where "mem_Apply (sha256 C) ord (concat (map ex_Consumed rs)) (concat (map ex_Created rs)) m = ((mem_Root m1, Inr ()), m1)"
      "mem_objects m1 = applyMirror (concat (map ex_Consumed rs)) (concat (map ex_Created rs)) (mem_objects m)"
    using mem_Apply_accepts [OF inv assms(3) del] by metis
  then have m': "mem_objects m' = applyMirror (concat (map ex_Consumed rs)) (concat (map ex_Created rs)) (mem_objects m)"
    using ok(3) by simp
  have fees: "(\<Sum>t\<leftarrow>ts. native_value native token (paid_fee (be_Engine b) t)) =
      (if token = native then (\<Sum>t\<leftarrow>ts. int (unat (paid_fee (be_Engine b) t))) else 0)"
    by (simp add: native_value_def del: of_nat_unat)
  show ?thesis
  proof (cases "\<exists>t \<in> set ts. false_witness (sha256 C) m t")
    case False
    then have "\<forall>t \<in> set ts. shows_store m t" using held assms(6) by blast
    from batch_moves [OF ok(2) assms(5) this inv del m', of token] show ?thesis unfolding native_def [symmetric] fees by blast
  qed blast
qed

lemma toy_identifier: "from_be (be_bytes 4 (0 :: u32) @ drop 4 (be_bytes 32 (67 :: bytes32))) = (67 :: bytes32)"
  by code_simp

lemma sample_applied:
  "\<exists>root rs m'. ApplyBatch toy_crypto S (\<lambda>_. rev) 1 (\<lambda>i. i) rev sample_executor [sample_spend [coin_object 3 5 10]] (coin_store sample_coins) =
     Some ((root, Inr rs), m')"
proof -
  let ?t = "sample_spend [coin_object 3 5 10]"
  let ?o = "output_object toy_hash (tx_ID toy_hash ?t) 0 0 \<lparr>os_Owner = 8, os_Kind = KindCoin,
         os_Data = Coin_MarshalBinary \<lparr>coin_Token = 5, coin_Amount = 7, coin_CreatedHeight = 1\<rparr>\<rparr>"
  note run = sample_payment(1) [of "[coin_object 3 5 10]", OF disjI1 [OF refl], of S]
  have v: "validateIndependentBatch toy_hash [?t] = Inr ()"
    by (simp add: validateIndependentBatch_def validate_member_def transactionAccesses_def sample_spend_def sample_op_def
        definition_access_def object_input_def merge_access_def)
  have inv: "MemInv toy_hash (coin_store sample_coins)" unfolding coin_store_def by (rule memAfter_inv) simp
  have "obj_ID ?o \<noteq> 0 \<and> obj_ID ?o \<notin> {3, 4, 6}"
    by (simp add: output_object_def ObjectIDForShard_def DomainHash_def toy_hash_def toy_identifier)
  moreover have "dom (mem_objects (coin_store sample_coins)) = {3, 4, 6}"
    unfolding coin_store_mem [OF sample_coins_valid] dom_created_at by (simp add: sample_coins_def)
  ultimately have "delta_ok (mem_objects (coin_store sample_coins)) [3] [?o]"
    by (auto simp: delta_ok_def object_valid_def output_object_def)
  from mem_Apply_accepts [OF inv covers_simps(1) this] obtain m' where
    "mem_Apply toy_hash rev [3] [?o] (coin_store sample_coins) = ((mem_Root m', Inr ()), m')" by metis
  then show ?thesis using v run by (simp add: ApplyBatch_def ExecuteBatch_eq sample_executor_def sample_spend_def)
qed

theorem batch_supply_witness:
  "\<exists>root rs m'. ApplyBatch toy_crypto sample_runtime (\<lambda>_. rev) 1 (\<lambda>i. i) rev sample_executor [sample_spend [coin_object 3 5 10]]
       (coin_store sample_coins) = Some ((root, Inr rs), m') \<and>
     (store_balance 5 5 (coin_store sample_coins) = store_balance 5 5 m' + (\<Sum>r\<leftarrow>rs. outbound_balance 5 5 (ex_Outbound r)) + 3 \<or>
      false_witness toy_hash (coin_store sample_coins) (sample_spend [coin_object 3 5 10]))"
proof -
  let ?t = "sample_spend [coin_object 3 5 10]"
  obtain root rs m' where a: "ApplyBatch toy_crypto sample_runtime (\<lambda>_. rev) 1 (\<lambda>i. i) rev sample_executor [?t] (coin_store sample_coins) =
      Some ((root, Inr rs), m')" using sample_applied [of sample_runtime] by (elim exE) (rule that)
  have "\<forall>t \<in> set [?t]. list_all (\<lambda>w. object_valid (wit_Object w)) (tx_Witnesses t)"
    by (simp add: sample_spend_def coin_object_valid)
  note sp = batch_supply [OF a _ _ _ _ this, of rev "[([], sample_coins)]" 5]
  have "paid_fee (be_Engine sample_executor) ?t = 3" "en_NativeToken (be_Engine sample_executor) = 5"
    using sample_payment(2,4) [of "[coin_object 3 5 10]"] by (simp_all add: paid_fee_def sample_executor_def) (simp add: sample_engine_def)
  with sp have "store_balance 5 5 (coin_store sample_coins) = store_balance 5 5 m' + (\<Sum>r\<leftarrow>rs. outbound_balance 5 5 (ex_Outbound r)) + 3 \<or>
      false_witness toy_hash (coin_store sample_coins) ?t" by (simp add: coin_store_def)
  then show ?thesis using a by (intro exI conjI)
qed

end
