(* ===== verification/Spec2Isabelle.thy ===== *)
theory Spec2Isabelle
  imports Checkpoint SigningGuard DurableState Batch
begin

text \<open>
  A verification development for Zephyr Chain, Protocol v2 (\<open>internal/v2\<close>): a sharded ledger of owned objects, whose
  transactions carry proofs of the objects they spend, and whose shards are finalized together by a weighted committee.

  \<^bold>\<open>The program.\<close> A transaction (\<open>tx\<close>) names objects (\<open>object\<close>) of one shard and carries, for each, the object and a proof
  against the root of a sparse Merkle tree (\<open>state\<close>). The engine (\<open>execution\<close>) checks signature and proofs, runs the single
  operation of the transaction and returns what it consumes, creates and sends to other shards; the batch executor does
  this for many transactions at once, and the store (\<open>worldstate\<close>) applies the result, in memory and through a write-ahead
  log. Operations are transfers and tokens (\<open>assets\<close>), contracts (\<open>contracts\<close>), the compute market (\<open>compute\<close>), loans
  (\<open>lending\<close>) and device credentials (\<open>devicecredential\<close>). The committee (\<open>consensus\<close>) certifies global headers that commit
  to every shard (\<open>sharding\<close>, \<open>merkle\<close>); a validator signs behind a durable journal (\<open>signing_guard.go\<close>), and clients keep
  the chain of certified headers (\<open>checkpoint\<close>).

  \<^bold>\<open>The theories\<close>, each with the packages it models and what its lemmas show:

  \<^item> \<open>Prelude\<close>: bytes, errors and early returns, loops that may fail. \<open>Codec\<close> (\<open>codec\<close>, \<open>types\<close>): writers, readers, domain
    hashes and identifiers; the locales \<open>wire_format\<close> and \<open>canonical_wire\<close> state once what a parser and an encoder promise
    each other, and every message of the development interprets one of them. \<open>GoStrings\<close>: \<open>strings.TrimSpace\<close>.
  \<^item> \<open>Merkle\<close>, \<open>SparseMerkle\<close> (\<open>merkle\<close>, \<open>state\<close>): the trees, their proofs, previews and wire formats. The incremental tree
    equals the complete tree of depth 256 over its contents; accepted proofs tell the truth or exhibit a collision.
  \<^item> \<open>Objects\<close>, \<open>WorldState\<close>, \<open>Storage\<close>, \<open>DurableState\<close> (\<open>object\<close>, \<open>worldstate\<close>): objects, the store in memory, and the store
    on disk as a transition system with failing writes and syncs, crashes and reopening. Map and tree never disagree,
    \<open>Simulate\<close> predicts \<open>Apply\<close>, and reopening recovers exactly the logged deltas, as long as no record is written after
    one that failed.
  \<^item> \<open>Sharding\<close> (\<open>sharding\<close>): routing, commitments, global headers, cross-shard receipts and the receipt tracker.
  \<^item> \<open>Signatures\<close>, \<open>Consensus\<close>, \<open>ConsensusWire\<close>, \<open>SigningGuard\<close> (\<open>consensus\<close>): low-S signatures, validator sets, proposer
    rotation, certificates, transitions, wire formats, and the signing journal under crashes and power loss.
  \<^item> \<open>Checkpoint\<close> (\<open>checkpoint\<close>): the client's chain, its invariant, and what a fork proves about the committee.
  \<^item> \<open>Assets\<close>, \<open>Transactions\<close>, \<open>Lending\<close>, \<open>DeviceCredential\<close>, \<open>Contracts\<close>, \<open>Compute\<close>: the data of the operations, their
    validation, state changes and wire formats; the books of a compute job; the metered guard around contract engines.
  \<^item> \<open>Execution\<close>, \<open>Handlers\<close> (\<open>execution\<close>): \<open>Engine.Execute\<close> and one definition for each handler of the code.
  \<^item> \<open>Value\<close>, \<open>ValueLending\<close>, \<open>ValueCompute\<close>, \<open>ValueTokens\<close>, \<open>Effects\<close>, \<open>Conservation\<close>: the balance of an object, and that
    every handler keeps it, with no assumption on the stored objects; what a handler consumes and whose coins it spends; two ways in which the checks fall short.
  \<^item> \<open>Batch\<close> (\<open>execution/parallel.go\<close>): independence of accesses, the worker pool under every schedule, and the supply of a
    store that batches are applied to.

  \<^bold>\<open>Correspondence.\<close> Definitions carry the names of the Go functions, with the type in front where several packages share a
  name (\<open>Terms_MarshalBinary\<close>); the body of a loop is a definition of its own, next to the function that runs it. A struct
  is a record with a prefix for its fields, \<open>uintN\<close> is \<open>N word\<close>, \<open>[32]byte\<close> is \<open>256 word\<close>, a byte slice is a list of
  8-bit words. Every error variable is a constructor of \<open>error\<close>, and a function that may fail returns a sum. A Go map that
  the code ranges over is an association list, or the range is an order \<open>ord\<close> of keys; theorems hold for every order that
  visits all keys. Mutexes are not modelled: an operation under a lock is one step.

  \<^bold>\<open>Parameters.\<close> SHA-256 is a function \<open>H\<close>; no theorem assumes that it is injective, those that need it say which collision
  would refute them. ECDSA over P-256 is a record of functions (\<open>crypto\<close>), with \<open>ecdsa_contract\<close> (a signature made by a
  key verifies) as hypothesis of the theorems about signing. The Starlark interpreter is a \<open>Runtime\<close>. Outcomes of file
  operations, schedules and the number of processors are arguments. Each is instantiated in the examples.

  \<^bold>\<open>Termination and bounds.\<close> All functions are total. No fuel is used: the replay of a log recurses on the bytes left, the
  worker pool on the steps left (\<open>pool_left\<close>), and \<open>ExecuteBatch\<close> returns \<open>None\<close> for a batch that waits for ever, which is
  shown not to happen. Sums of 64-bit amounts keep the overflow checks of the code.

  \<^bold>\<open>Not modelled.\<close> The validator runtime \<open>node\<close> (candidates over several shards, the global commit journal, witness
  checkpoints, the service loop) composes the components above with logic of its own that is left out, and with it what runs
  on or beside it: \<open>bootstrap\<close>, \<open>lab\<close>, \<open>lightapi\<close>, \<open>network/p2p\<close> (libp2p), \<open>provider\<close>, \<open>cmd\<close>. The light-client library
  \<open>citizen\<close> with \<open>mobile\<close> calls the modelled proof checks; its bundles and challenges are left out. \<open>economics\<close> and the work
  registry of \<open>compute\<close> collect statistics that execution does not import. \<open>genesis\<close> fixes the network and the first state,
  which are arguments here. \<open>da\<close> rests on a third-party Reed-Solomon package, \<open>vrf\<close> on the curve arithmetic of the Go library.
  \<open>committee\<close>, \<open>contribution\<close>, \<open>governance\<close> and \<open>transport\<close> are imported by no other package. \<open>script_runtime.go\<close> is glue
  around the Starlark package. The version 1 packages (\<open>internal/api\<close>, \<open>internal/ledger\<close>, \<open>internal/consensus\<close>,
  \<open>internal/tx\<close>, \<open>internal/dpos\<close>, \<open>internal/protocol\<close>) are isolated from version 2, which is what this development is about.
\<close>

end
